(* ===== verification/Kernel_Prelude.thy ===== *)
theory Kernel_Prelude
  imports Main "HOL-Library.Word"
begin

text \<open>
  Shared vocabulary of the development: the machine integers of the i386 build
  (\<open>uint8_t\<close>, \<open>uint16_t\<close>, \<open>uint32_t\<close>; \<open>size_t\<close>, \<open>uintptr_t\<close> and \<open>unsigned int\<close> are
  32 bits wide there), the error codes of \<open>include/kernel/error.h\<close>, the faults that end a
  computation, the alignment macros of \<open>include/mem/paging.h\<close>, and the generic facts on words,
  bits and lists that the component theories share.
\<close>

unbundle bit_operations_syntax

section \<open>Machine integers\<close>

type_synonym u8 = "8 word"
type_synonym u16 = "16 word"
type_synonym u32 = "32 word"

text \<open>
  A left shift of a 32-bit operand. C leaves counts of 32 and more undefined; the SHL instruction
  the compiler emits for a variable count uses its low five bits, and that is what is modelled.
\<close>

definition shl32 :: "u32 \<Rightarrow> u32 \<Rightarrow> u32" where
  "shl32 x n = push_bit (unat n mod 32) x"

section \<open>Error codes and faults\<close>

text \<open>\<open>enum ErrorType\<close>: the functions return these as plain C integers, 0 being success.\<close>

definition EIO :: int where "EIO = 1"
definition EINVAL :: int where "EINVAL = 2"
definition ENOMEM :: int where "ENOMEM = 3"
definition ENOENT :: int where "ENOENT = 4"

lemmas errno_defs = EIO_def EINVAL_def ENOMEM_def ENOENT_def

text \<open>
  What stops a computation without a return value: a dereference of the null pointer, an access
  past the end of an array, a call of \<open>panic\<close> (which never returns), or a loop that does not end.
\<close>

datatype fault = NullDeref | OutOfBounds | Panic | Diverges

text \<open>Sequencing of computations that may fault.\<close>

fun bindE :: "'f + 'a \<Rightarrow> ('a \<Rightarrow> 'f + 'b) \<Rightarrow> 'f + 'b" where
  "bindE (Inl f) k = Inl f"
| "bindE (Inr x) k = k x"

section \<open>Alignment macros\<close>

abbreviation PAGE_SIZE :: u32 where "PAGE_SIZE \<equiv> 4096"
abbreviation PT_SIZE :: u32 where "PT_SIZE \<equiv> 1024"

definition align_up :: "u32 \<Rightarrow> u32 \<Rightarrow> u32" where
  "align_up num alignment =
     (num - num mod alignment) + (if num mod alignment \<noteq> 0 then alignment else 0)"

definition page_align_up :: "u32 \<Rightarrow> u32" where
  "page_align_up num = align_up num PAGE_SIZE"

definition align_down :: "u32 \<Rightarrow> u32 \<Rightarrow> u32" where
  "align_down num alignment = num - num mod alignment"

definition page_align_down :: "u32 \<Rightarrow> u32" where
  "page_align_down num = align_down num PAGE_SIZE"

definition div_align_up :: "u32 \<Rightarrow> u32 \<Rightarrow> u32" where
  "div_align_up num alignment = num div alignment + (if num mod alignment \<noteq> 0 then 1 else 0)"

definition div_align_down :: "u32 \<Rightarrow> u32 \<Rightarrow> u32" where
  "div_align_down num alignment = num div alignment"

definition div_page_align_up :: "u32 \<Rightarrow> u32" where
  "div_page_align_up num = div_align_up num PAGE_SIZE"

definition div_page_align_down :: "u32 \<Rightarrow> u32" where
  "div_page_align_down num = div_align_down num PAGE_SIZE"

section \<open>Generic facts\<close>

named_theorems unat_simps \<open>unsigned values of word expressions\<close>

lemma unat_u32_lt: "unat (w :: u32) < 4294967296"
  using unsigned_less [of w] by simp

lemma unat_u32_add [unat_simps]:
  "unat a + unat b < 4294967296 \<Longrightarrow> unat (a + b :: u32) = unat a + unat b"
  by (simp add: unat_word_ariths)

lemma unat_u32_mult [unat_simps]:
  "unat a * unat b < 4294967296 \<Longrightarrow> unat (a * b :: u32) = unat a * unat b"
  by (simp add: unat_word_ariths)

lemma unat_u32_sub [unat_simps]:
  "unat b \<le> unat a \<Longrightarrow> unat (a - b :: u32) = unat a - unat b"
  by (simp add: unat_sub word_le_nat_alt)

lemma unat_u32_of_nat [unat_simps]:
  "n < 4294967296 \<Longrightarrow> unat (word_of_nat n :: u32) = n"
  by (simp add: unat_of_nat take_bit_nat_eq_self_iff)

lemma unat_u32_mod [unat_simps]: "unat (a mod b :: u32) = unat a mod unat b"
  by (simp add: unat_mod)

lemma unat_u32_div [unat_simps]: "unat (a div b :: u32) = unat a div unat b"
  by (simp add: unat_div)

lemma unat_ucast_u16 [unat_simps]: "unat (ucast (w :: u16) :: u32) = unat w"
proof -
  have "unat w < 65536" using unsigned_less [of w] by simp
  then show ?thesis by (simp add: unsigned_ucast_eq take_bit_nat_eq_self_iff)
qed

lemma unat_ucast_u8 [unat_simps]: "unat (ucast (w :: u8) :: u32) = unat w"
proof -
  have "unat w < 256" using unsigned_less [of w] by simp
  then show ?thesis by (simp add: unsigned_ucast_eq take_bit_nat_eq_self_iff)
qed

lemma bit_shl32_one:
  "bit (shl32 1 n) k \<longleftrightarrow> k = unat n mod 32"
proof -
  have "unat n mod 32 < 32" by simp
  then show ?thesis
    by (auto simp: shl32_def bit_exp_iff)
qed

lemma and_shl32_one_eq_0:
  "(w :: u32) AND shl32 1 n = 0 \<longleftrightarrow> \<not> bit w (unat n mod 32)"
  by (simp add: shl32_def bit_iff_and_push_bit_not_eq_0)

lemma bit_u32_bound: "bit (w :: u32) k \<Longrightarrow> k < 32"
  using bit_imp_le_length [of w k] by simp

lemma bindE_Inr_iff: "bindE m k = Inr y \<longleftrightarrow> (\<exists>x. m = Inr x \<and> k x = Inr y)"
  by (cases m) auto

section \<open>What the alignment macros compute\<close>

lemma unat_align_down: "unat (align_down n a) = unat n - unat n mod unat a"
  by (simp add: align_down_def unat_simps)

lemma unat_align_up:
  assumes "0 < unat a" and "unat n + unat a \<le> 4294967296"
    and "unat n mod unat a = 0 \<or> unat n - unat n mod unat a + unat a < 4294967296"
  shows "unat (align_up n a) =
    (if unat n mod unat a = 0 then unat n else unat n - unat n mod unat a + unat a)"
proof -
  have z: "n mod a = 0 \<longleftrightarrow> unat n mod unat a = 0"
    by (metis unat_mod unat_0 unat_eq_zero)
  have d: "unat (n - n mod a) = unat n - unat n mod unat a"
    by (simp add: unat_simps)
  show ?thesis
  proof (cases "unat n mod unat a = 0")
    case True
    with z d show ?thesis by (simp add: align_up_def)
  next
    case False
    with assms have "unat (n - n mod a) + unat a < 4294967296" by (auto simp: d)
    with False z d show ?thesis by (simp add: align_up_def unat_u32_add)
  qed
qed

lemma align_up_bounds:
  assumes "0 < unat a" and "unat n + unat a \<le> 4294967296"
  shows "unat n \<le> unat (align_up n a)" and "unat (align_up n a) < unat n + unat a"
    and "unat (align_up n a) mod unat a = 0"
proof -
  define m where "m = unat n mod unat a"
  have m: "m < unat a" "m \<le> unat n" using assms(1) by (simp_all add: m_def)
  then have "m = 0 \<or> unat n - m + unat a < 4294967296" using assms(2) by linarith
  note up = unat_align_up [OF assms, folded m_def, OF this]
  have "(unat n - m + unat a) mod unat a = 0"
    by (simp add: m_def minus_mod_eq_mult_div)
  then show "unat (align_up n a) mod unat a = 0" using up m_def by (simp only: split: if_split) simp
  show "unat n \<le> unat (align_up n a)" "unat (align_up n a) < unat n + unat a"
    using up m by (simp_all split: if_splits)
qed

end
