(* ===== verification/Frame_Alloc.thy ===== *)
theory Frame_Alloc
  imports Kernel_Prelude
begin

text \<open>
  The physical frame allocator, \<open>src/mem/frame_alloc.c\<close>. Its state is a bitmap with one bit per
  4 KiB frame, 32 frames to a word (\<open>frames\<close>), and the number of words (\<open>frames_num\<close>). The bitmap is
  the memory at the pointer \<open>frames\<close>, read and written as words, so it is a total function of the
  word index: an index past \<open>frames_num\<close> reaches whatever lies there, as in C. A function that
  writes through \<open>alloc_addrs\<close> returns the words it stores at \<open>alloc_addrs[0]\<close>,
  \<open>alloc_addrs[1]\<close>, and so on; the pointer itself is only tested against \<open>NULL\<close> (0).
\<close>

section \<open>State\<close>

record frame_map_addr =
  fma_map :: u32
  fma_frame :: u32

record frame_state =
  fs_frames :: "nat \<Rightarrow> u32"
  fs_num :: u32
  fs_last :: "frame_map_addr list"

abbreviation BIT_FRAME_SIZE :: u32 where "BIT_FRAME_SIZE \<equiv> 32"
abbreviation MAX_BUDDY_SIZE :: u32 where "MAX_BUDDY_SIZE \<equiv> 8"

section \<open>Single frames and runs of frames\<close>

definition is_frame_free :: "frame_state \<Rightarrow> u32 \<Rightarrow> u32 \<Rightarrow> bool" where
  "is_frame_free s fm fr \<longleftrightarrow> fs_frames s (unat fm) AND shl32 1 fr = 0"

text \<open>
  The cursor \<open>(frame_map, frame, overflow)\<close> that the three loops over a run of frames keep: once
  \<open>i + frame\<close> reaches the word size, the next word is entered and \<open>overflow\<close> becomes \<open>-i\<close>. The frame
  that iteration \<open>i\<close> looks at is \<open>frame + i + overflow\<close>.
\<close>

type_synonym cursor = "u32 \<times> u32 \<times> u32"

fun frame_advance :: "u32 \<Rightarrow> cursor \<Rightarrow> cursor" where
  "frame_advance i (fm, fr, ovf) =
     (if i + fr \<ge> BIT_FRAME_SIZE then (fm + 1, 0, - i) else (fm, fr, ovf))"

fun cursor_frame :: "u32 \<Rightarrow> cursor \<Rightarrow> u32" where
  "cursor_frame i (fm, fr, ovf) = fr + i + ovf"

fun is_free_nframes_loop :: "frame_state \<Rightarrow> nat list \<Rightarrow> cursor \<Rightarrow> bool" where
  "is_free_nframes_loop s [] c = True"
| "is_free_nframes_loop s (i # is) c =
     (let c' = frame_advance (word_of_nat i) c in
      if \<not> is_frame_free s (fst c') (cursor_frame (word_of_nat i) c') then False
      else is_free_nframes_loop s is c')"

definition is_free_nframes :: "frame_state \<Rightarrow> u32 \<Rightarrow> u32 \<Rightarrow> u32 \<Rightarrow> bool" where
  "is_free_nframes s nframes fm fr = is_free_nframes_loop s [0..<unat nframes] (fm, fr, 0)"

definition set_frame_used :: "u32 \<Rightarrow> u32 \<Rightarrow> frame_state \<Rightarrow> int \<times> frame_state" where
  "set_frame_used fm fr s =
     (if fs_frames s (unat fm) AND shl32 1 fr \<noteq> 0 then (EINVAL, s)
      else (0, s\<lparr>fs_frames := (fs_frames s)(unat fm := fs_frames s (unat fm) OR shl32 1 fr)\<rparr>))"

fun set_nframes_used_loop ::
  "nat list \<Rightarrow> cursor \<Rightarrow> int \<Rightarrow> frame_state \<Rightarrow> int \<times> frame_state" where
  "set_nframes_used_loop [] c ret s = (ret, s)"
| "set_nframes_used_loop (i # is) c ret s =
     (let c' = frame_advance (word_of_nat i) c;
          (r, s') = set_frame_used (fst c') (cursor_frame (word_of_nat i) c') s
      in set_nframes_used_loop is c' (ret OR r) s')"

definition set_nframes_used :: "u32 \<Rightarrow> u32 \<Rightarrow> u32 \<Rightarrow> frame_state \<Rightarrow> int \<times> frame_state" where
  "set_nframes_used nframes fm fr s = set_nframes_used_loop [0..<unat nframes] (fm, fr, 0) 0 s"

definition get_frame_meta :: "u32 \<Rightarrow> u32 \<times> u32" where
  "get_frame_meta addr =
     (let fm = addr div (PAGE_SIZE * BIT_FRAME_SIZE)
      in (fm, (addr - fm * PAGE_SIZE * BIT_FRAME_SIZE) div PAGE_SIZE))"

definition frame_map_to_addr :: "u32 \<Rightarrow> u32 \<Rightarrow> u32" where
  "frame_map_to_addr fm frame = fm * PAGE_SIZE * BIT_FRAME_SIZE + frame * PAGE_SIZE"

text \<open>
  The size class of a request and its quarter of each bitmap word: \<open>(*buddy_id, mask)\<close>. The counter
  is left at 4 when no class fits.
\<close>

fun get_frame_submap_mask_loop :: "nat list \<Rightarrow> u32 \<Rightarrow> u32 \<times> u32" where
  "get_frame_submap_mask_loop [] nframes = (4, shl32 0xFF (3 * MAX_BUDDY_SIZE))"
| "get_frame_submap_mask_loop (b # bs) nframes =
     (if nframes \<le> shl32 1 (word_of_nat b)
      then (word_of_nat b, shl32 0xFF (word_of_nat b * MAX_BUDDY_SIZE))
      else get_frame_submap_mask_loop bs nframes)"

definition get_frame_submap_mask :: "u32 \<Rightarrow> u32 \<times> u32" where
  "get_frame_submap_mask nframes = get_frame_submap_mask_loop [0..<4] nframes"

section \<open>Allocation at a given address\<close>

fun alloc_nframes_loop ::
  "u32 \<Rightarrow> u16 \<Rightarrow> nat list \<Rightarrow> cursor \<Rightarrow> u32 list \<Rightarrow> frame_state \<Rightarrow> u32 list \<times> frame_state" where
  "alloc_nframes_loop addr flags [] c out s = (out, s)"
| "alloc_nframes_loop addr flags (i # is) c out s =
     (let c' = frame_advance (word_of_nat i) c;
          (_, s') = set_frame_used (fst c') (cursor_frame (word_of_nat i) c') s
      in alloc_nframes_loop addr flags is c'
           (out @ [(addr + word_of_nat i * PAGE_SIZE) OR ucast flags]) s')"

definition alloc_nframes ::
  "u32 \<Rightarrow> u32 \<Rightarrow> u32 \<Rightarrow> u16 \<Rightarrow> frame_state \<Rightarrow> int \<times> u32 list \<times> frame_state" where
  "alloc_nframes nframes addr alloc_addrs flags s =
     (if alloc_addrs = 0 then (1, [], s)
      else let (fm, fr) = get_frame_meta addr;
               (out, s') = alloc_nframes_loop addr flags [0..<unat nframes] (fm, fr, 0) [] s
           in (0, out, s'))"

definition alloc_frame ::
  "u32 \<Rightarrow> u32 \<Rightarrow> u32 \<Rightarrow> frame_state \<Rightarrow> int \<times> u32 list \<times> frame_state" where
  "alloc_frame addr alloc_addr flags s = alloc_nframes 1 addr alloc_addr (ucast flags) s"

section \<open>Searching for free frames\<close>

definition set_nalloc_addrs :: "u32 \<Rightarrow> u32 \<Rightarrow> u32 \<Rightarrow> u16 \<Rightarrow> u32 list" where
  "set_nalloc_addrs nframes fm frame flags =
     map (\<lambda>i. frame_map_to_addr fm (frame + word_of_nat i) OR ucast flags) [0..<unat nframes]"

text \<open>
  The scan of one size class advances \<open>j\<close> by \<open>nframes\<close>, so it does not end for a request of no
  frames that starts on a used one: the result is \<open>None\<close> exactly when the loop runs forever.
\<close>

partial_function (option) find_frame_scan ::
  "frame_state \<Rightarrow> u32 \<Rightarrow> u32 \<Rightarrow> u32 \<Rightarrow> u32 \<Rightarrow> u32 option option" where
  "find_frame_scan s fm limit nframes j =
     (if j < limit
      then if is_frame_free s fm j then Some (Some j)
           else find_frame_scan s fm limit nframes (j + nframes)
      else Some None)"

text \<open>The result pairs the return code with the stored words, the new \<open>*map_frames\<close> and the state.\<close>

definition find_frame_in_map ::
  "u32 \<Rightarrow> u32 \<Rightarrow> u32 \<Rightarrow> u16 \<Rightarrow> frame_state \<Rightarrow> (int \<times> u32 list \<times> u32 \<times> frame_state) option" where
  "find_frame_in_map fm nframes map_frames flags s =
     (let (buddy, mask) = get_frame_submap_mask nframes in
      if fs_frames s (unat fm) AND mask = mask then Some (1, [], map_frames, s)
      else case find_frame_scan s fm (MAX_BUDDY_SIZE * (buddy + 1)) nframes (MAX_BUDDY_SIZE * buddy)
        of None \<Rightarrow> None
         | Some None \<Rightarrow> Some (1, [], map_frames, s)
         | Some (Some j) \<Rightarrow>
             Some (0, set_nalloc_addrs nframes fm j flags, map_frames + nframes,
                   snd (set_nframes_used nframes fm j s)))"

fun find_alloc_nframes_loop ::
  "nat list \<Rightarrow> u32 \<Rightarrow> u16 \<Rightarrow> u32 \<Rightarrow> u32 list \<Rightarrow> frame_state \<Rightarrow>
     (int \<times> u32 list \<times> frame_state) option" where
  "find_alloc_nframes_loop [] nframes flags mapped out s = Some (ENOMEM, out, s)"
| "find_alloc_nframes_loop (i # is) nframes flags mapped out s =
     (if fs_frames s i AND 0xFFFFFFFF = 0xFFFFFFFF
      then find_alloc_nframes_loop is nframes flags mapped out s
      else let cur = nframes - mapped;
               cur_nof = (if cur > 8 then 8 else cur)
           in case find_frame_in_map (word_of_nat i) cur_nof mapped flags s of
                None \<Rightarrow> None
              | Some (ret, stored, mapped', s') \<Rightarrow>
                  if ret \<noteq> 0 then find_alloc_nframes_loop is nframes flags mapped out s
                  else if mapped' \<ge> nframes then Some (0, out @ stored, s')
                  else find_alloc_nframes_loop is nframes flags mapped' (out @ stored) s')"

definition find_alloc_nframes ::
  "u32 \<Rightarrow> u32 \<Rightarrow> u16 \<Rightarrow> frame_state \<Rightarrow> (int \<times> u32 list \<times> frame_state) option" where
  "find_alloc_nframes nframes alloc_addrs flags s =
     (if alloc_addrs = 0 then Some (0, [], s)
      else find_alloc_nframes_loop [0..<unat (fs_num s)] nframes flags 0 [] s)"

definition find_alloc_frame ::
  "u32 \<Rightarrow> u32 \<Rightarrow> frame_state \<Rightarrow> (int \<times> u32 list \<times> frame_state) option" where
  "find_alloc_frame alloc_addr flags s = find_alloc_nframes 1 alloc_addr (ucast flags) s"

text \<open>\<open>map_frame\<close> stores the frame at \<open>&pt[pte]\<close>, four bytes per entry.\<close>

definition map_frame ::
  "u32 \<Rightarrow> u32 \<Rightarrow> u16 \<Rightarrow> frame_state \<Rightarrow> (int \<times> u32 list \<times> frame_state) option" where
  "map_frame pt pte flags s = find_alloc_frame (pt + 4 * pte) (ucast flags) s"

section \<open>Release and initialisation\<close>

definition dealloc_frame :: "u32 \<Rightarrow> frame_state \<Rightarrow> frame_state" where
  "dealloc_frame addr s =
     (let a = addr AND NOT 0xFFF;
          (fm, fr) = get_frame_meta a
      in s\<lparr>fs_frames := (fs_frames s)(unat fm := fs_frames s (unat fm) AND NOT (shl32 1 fr))\<rparr>)"

definition dealloc_nframes :: "u32 \<Rightarrow> u32 \<Rightarrow> frame_state \<Rightarrow> frame_state" where
  "dealloc_nframes addr nframes s =
     fold (\<lambda>i. dealloc_frame (addr + PAGE_SIZE * word_of_nat i)) [0..<unat nframes] s"

text \<open>\<open>memset(p, 0, bytes)\<close> seen on the little-endian words at \<open>p\<close>.\<close>

definition memset0_words :: "nat \<Rightarrow> (nat \<Rightarrow> u32) \<Rightarrow> nat \<Rightarrow> u32" where
  "memset0_words bytes m i =
     (if 4 * i + 4 \<le> bytes then 0
      else if 4 * i < bytes then m i AND NOT (mask (8 * (bytes - 4 * i)))
      else m i)"

text \<open>
  \<open>kmalloc\<close> is an argument: from the number of bytes it gives the pointer and the words found there.
\<close>

definition frame_alloc_init ::
  "(u32 \<Rightarrow> u32 \<times> (nat \<Rightarrow> u32)) \<Rightarrow> u32 \<Rightarrow> frame_state \<Rightarrow> int \<times> frame_state" where
  "frame_alloc_init kmalloc pmem_limit s =
     (let num = pmem_limit div (PAGE_SIZE * BIT_FRAME_SIZE);
          bytes = num div BIT_FRAME_SIZE;
          (p, m) = kmalloc bytes;
          s' = s\<lparr>fs_frames := memset0_words (unat bytes) m, fs_num := num,
                 fs_last := map (\<lambda>i. \<lparr>fma_map = 0, fma_frame = MAX_BUDDY_SIZE * word_of_nat i\<rparr>)
                              [0..<4]\<rparr>
      in (if p = 0 then ENOMEM else 0, s'))"

section \<open>The bitmap as a set of used frames\<close>

text \<open>
  Abstraction: the set of the numbers of the used frames, frame \<open>k\<close> being the one at physical
  address \<open>4096 * k\<close>.
\<close>

definition used_frames :: "frame_state \<Rightarrow> nat set" where
  "used_frames s = {k. bit (fs_frames s (k div 32)) (k mod 32)}"

definition frame_no :: "u32 \<Rightarrow> u32 \<Rightarrow> nat" where
  "frame_no fm fr = 32 * unat fm + unat fr"

lemma frame_no_div_mod [simp]:
  "unat fr < 32 \<Longrightarrow> frame_no fm fr div 32 = unat fm"
  "unat fr < 32 \<Longrightarrow> frame_no fm fr mod 32 = unat fr"
  by (simp_all add: frame_no_def)

lemma is_frame_free_iff:
  "unat fr < 32 \<Longrightarrow> is_frame_free s fm fr \<longleftrightarrow> frame_no fm fr \<notin> used_frames s"
  by (simp add: is_frame_free_def used_frames_def and_shl32_one_eq_0)

lemma frame_no_eq:
  "unat fr < 32 \<Longrightarrow> k = frame_no fm fr \<longleftrightarrow> k div 32 = unat fm \<and> k mod 32 = unat fr"
  by (auto simp: frame_no_def) (metis mult_div_mod_eq)

lemma used_frames_set_bit:
  assumes "unat fr < 32"
  shows "used_frames (s\<lparr>fs_frames := (fs_frames s)(unat fm := fs_frames s (unat fm) OR shl32 1 fr)\<rparr>)
    = insert (frame_no fm fr) (used_frames s)"
proof (rule set_eqI)
  fix k
  show "k \<in> used_frames (s\<lparr>fs_frames :=
        (fs_frames s)(unat fm := fs_frames s (unat fm) OR shl32 1 fr)\<rparr>)
    \<longleftrightarrow> k \<in> insert (frame_no fm fr) (used_frames s)"
    using assms unfolding insert_iff frame_no_eq [OF assms]
    by (auto simp: used_frames_def bit_or_iff bit_shl32_one)
qed

lemma used_frames_clear_bit:
  assumes "unat fr < 32"
  shows "used_frames (s\<lparr>fs_frames :=
      (fs_frames s)(unat fm := fs_frames s (unat fm) AND NOT (shl32 1 fr))\<rparr>)
    = used_frames s - {frame_no fm fr}"
proof (rule set_eqI)
  fix k
  show "k \<in> used_frames (s\<lparr>fs_frames :=
        (fs_frames s)(unat fm := fs_frames s (unat fm) AND NOT (shl32 1 fr))\<rparr>)
    \<longleftrightarrow> k \<in> used_frames s - {frame_no fm fr}"
    using assms unfolding Diff_iff singleton_iff frame_no_eq [OF assms]
    by (auto simp: used_frames_def bit_and_iff bit_not_iff bit_shl32_one)
qed

lemma set_frame_used_result:
  "unat fr < 32 \<Longrightarrow>
   fst (set_frame_used fm fr s) = (if frame_no fm fr \<in> used_frames s then EINVAL else 0)"
  by (simp add: set_frame_used_def used_frames_def and_shl32_one_eq_0)

lemma set_frame_used_frames:
  assumes "unat fr < 32"
  shows "used_frames (snd (set_frame_used fm fr s)) = insert (frame_no fm fr) (used_frames s)"
proof (cases "frame_no fm fr \<in> used_frames s")
  case True
  with assms show ?thesis
    by (auto simp: set_frame_used_def used_frames_def and_shl32_one_eq_0)
next
  case False
  with assms have "fs_frames s (unat fm) AND shl32 1 fr = 0"
    by (simp add: used_frames_def and_shl32_one_eq_0)
  then have "snd (set_frame_used fm fr s) =
      s\<lparr>fs_frames := (fs_frames s)(unat fm := fs_frames s (unat fm) OR shl32 1 fr)\<rparr>"
    by (simp add: set_frame_used_def)
  then show ?thesis using used_frames_set_bit [OF assms] by simp
qed

lemma set_frame_used_num [simp]: "fs_num (snd (set_frame_used fm fr s)) = fs_num s"
  by (simp add: set_frame_used_def)

section \<open>Runs of frames\<close>

text \<open>
  \<open>on_track fm fr i c\<close>: the cursor before iteration \<open>i\<close> of a run that starts at frame \<open>fr\<close> of word
  \<open>fm\<close>. It stays on track for at most 32 iterations.
\<close>

definition on_track :: "u32 \<Rightarrow> u32 \<Rightarrow> nat \<Rightarrow> cursor \<Rightarrow> bool" where
  "on_track fm fr i c \<longleftrightarrow>
     (c = (fm, fr, 0) \<and> i + unat fr \<le> 32) \<or>
     (c = (fm + 1, 0, - word_of_nat (32 - unat fr)) \<and> 32 < i + unat fr)"

lemma frame_advance_on_track:
  assumes tr: "on_track fm fr i c" and i: "i < 32" and fr: "unat fr < 32"
    and fm: "unat fm < 4294967295"
  defines "c' \<equiv> frame_advance (word_of_nat i) c"
  shows "on_track fm fr (Suc i) c'"
    and "unat (cursor_frame (word_of_nat i) c') < 32"
    and "frame_no (fst c') (cursor_frame (word_of_nat i) c') = frame_no fm fr + i"
proof -
  have ui: "unat (word_of_nat i :: u32) = i" using i by (simp add: unat_simps)
  have fm1: "unat (fm + 1) = unat fm + 1" using fm by (simp add: unat_simps)
  consider (here) "c = (fm, fr, 0)" "i + unat fr < 32"
    | (cross) "c = (fm, fr, 0)" "i + unat fr = 32"
    | (past) "c = (fm + 1, 0, - word_of_nat (32 - unat fr))" "32 < i + unat fr"
    using tr by (auto simp: on_track_def le_less)
  then have "on_track fm fr (Suc i) c' \<and> unat (cursor_frame (word_of_nat i) c') < 32 \<and>
      frame_no (fst c') (cursor_frame (word_of_nat i) c') = frame_no fm fr + i"
  proof cases
    case here
    have s: "unat (word_of_nat i + fr) = i + unat fr"
      using here by (simp add: ui unat_simps)
    then have "c' = (fm, fr, 0)"
      using here by (simp add: c'_def word_le_nat_alt)
    moreover have "unat (fr + word_of_nat i) = unat fr + i"
      using s by (simp add: add.commute)
    ultimately show ?thesis
      using here by (simp add: on_track_def frame_no_def)
  next
    case cross
    have s: "unat (word_of_nat i + fr) = 32"
      using cross by (simp add: ui unat_simps)
    then have "c' = (fm + 1, 0, - word_of_nat i)"
      using cross by (simp add: c'_def word_le_nat_alt)
    moreover have "32 - unat fr = i" using cross by simp
    ultimately show ?thesis
      using cross fm1 by (simp add: on_track_def frame_no_def)
  next
    case past
    then have "c' = c"
      using i by (simp add: c'_def word_le_nat_alt ui)
    moreover have "word_of_nat i - (word_of_nat (32 - unat fr) :: u32) = word_of_nat (i - (32 - unat fr))"
      using past by simp
    moreover have "unat (word_of_nat (i - (32 - unat fr)) :: u32) = i - (32 - unat fr)"
      using i by (simp add: unat_simps)
    ultimately show ?thesis
      using past i fr fm1 by (simp add: on_track_def frame_no_def add_diff_eq)
  qed
  then show "on_track fm fr (Suc i) c'"
    and "unat (cursor_frame (word_of_nat i) c') < 32"
    and "frame_no (fst c') (cursor_frame (word_of_nat i) c') = frame_no fm fr + i"
    by simp_all
qed

lemma on_track_start [simp]: "unat fr \<le> 32 \<Longrightarrow> on_track fm fr 0 (fm, fr, 0)"
  by (simp add: on_track_def)

lemma is_free_nframes_loop_correct:
  assumes "on_track fm fr i c" and "i \<le> n" and "n \<le> 32" and "unat fr < 32"
    and "unat fm < 4294967295"
  shows "is_free_nframes_loop s [i..<n] c \<longleftrightarrow>
    {frame_no fm fr + i ..< frame_no fm fr + n} \<inter> used_frames s = {}"
  using assms(1,2)
proof (induction "n - i" arbitrary: i c)
  case 0
  then show ?case by simp
next
  case (Suc k)
  then have i: "i < n" by simp
  let ?c = "frame_advance (word_of_nat i) c"
  note tr = frame_advance_on_track [OF Suc.prems(1) _ assms(4,5)]
  have split: "{frame_no fm fr + i ..< frame_no fm fr + n} =
      insert (frame_no fm fr + i) {frame_no fm fr + Suc i ..< frame_no fm fr + n}"
    using i by auto
  have "is_free_nframes_loop s [Suc i..<n] ?c \<longleftrightarrow>
      {frame_no fm fr + Suc i ..< frame_no fm fr + n} \<inter> used_frames s = {}"
    using Suc.hyps(2) i assms(3) by (intro Suc.hyps(1) tr) simp_all
  then show ?case
    using i assms(3) tr(2,3) by (simp add: upt_conv_Cons split is_frame_free_iff Let_def)
qed

lemma set_nframes_used_loop_frames:
  assumes "on_track fm fr i c" and "i \<le> n" and "n \<le> 32" and "unat fr < 32"
    and "unat fm < 4294967295"
  shows "used_frames (snd (set_nframes_used_loop [i..<n] c r s)) =
      used_frames s \<union> {frame_no fm fr + i ..< frame_no fm fr + n}"
    and "fs_num (snd (set_nframes_used_loop [i..<n] c r s)) = fs_num s"
  using assms(1,2)
proof (induction "n - i" arbitrary: i c r s)
  case 0
  { case 1 from "0.hyps" "1"(2) show ?case by simp }
  { case 2 from "0.hyps" "2"(2) show ?case by simp }
next
  case (Suc k)
  { case 1
    let ?c = "frame_advance (word_of_nat i) c"
    let ?u = "set_frame_used (fst ?c) (cursor_frame (word_of_nat i) ?c) s"
    have i: "i < n" using Suc.hyps(3) by simp
    note tr = frame_advance_on_track [OF "1"(1) _ assms(4,5)]
    have i32: "i < 32" using i assms(3) by simp
    have "used_frames (snd (set_nframes_used_loop [Suc i..<n] ?c (r OR fst ?u) (snd ?u))) =
        used_frames (snd ?u) \<union> {frame_no fm fr + Suc i ..< frame_no fm fr + n}"
      using Suc.hyps(3) i by (intro Suc.hyps(1) tr(1) [OF i32]) simp_all
    moreover have "used_frames (snd ?u) = insert (frame_no fm fr + i) (used_frames s)"
      using set_frame_used_frames [OF tr(2) [OF i32]] tr(3) [OF i32] by simp
    moreover have "{frame_no fm fr + i ..< frame_no fm fr + n} =
        insert (frame_no fm fr + i) {frame_no fm fr + Suc i ..< frame_no fm fr + n}"
      using i by auto
    ultimately show ?case
      using i by (simp add: upt_conv_Cons Let_def split_beta) }
  { case 2
    let ?c = "frame_advance (word_of_nat i) c"
    let ?u = "set_frame_used (fst ?c) (cursor_frame (word_of_nat i) ?c) s"
    have i: "i < n" using Suc.hyps(3) by simp
    note tr = frame_advance_on_track [OF "2"(1) _ assms(4,5)]
    have "fs_num (snd (set_nframes_used_loop [Suc i..<n] ?c (r OR fst ?u) (snd ?u))) = fs_num (snd ?u)"
      using Suc.hyps(3) i assms(3) by (intro Suc.hyps(2) tr(1)) simp_all
    then show ?case
      using i by (simp add: upt_conv_Cons Let_def split_beta) }
qed

lemma alloc_nframes_loop_state:
  "snd (alloc_nframes_loop addr flags is c out s) = snd (set_nframes_used_loop is c r s)"
  by (induction "is" arbitrary: c out s r) (simp_all add: Let_def split_beta)

lemma alloc_nframes_loop_out:
  "fst (alloc_nframes_loop addr flags is c out s) =
   out @ map (\<lambda>i. (addr + word_of_nat i * PAGE_SIZE) OR ucast flags) is"
  by (induction "is" arbitrary: c out s) (simp_all add: Let_def split_beta)

lemma get_frame_meta_frame:
  "unat (snd (get_frame_meta addr)) < 32"
  "frame_no (fst (get_frame_meta addr)) (snd (get_frame_meta addr)) = unat addr div 4096"
  "unat (fst (get_frame_meta addr)) < 4294967295"
proof -
  define fm where "fm = addr div 131072"
  have fm: "unat fm = unat addr div 131072" by (simp add: fm_def unat_simps)
  have "unat addr div 131072 * 131072 \<le> unat addr" by simp
  then have b: "unat fm * 131072 \<le> unat addr" by (simp add: fm)
  have "unat (fm * 131072) = unat fm * 131072"
    using b unat_u32_lt [of addr] by (intro unat_u32_mult [THEN trans]) simp_all
  then have "unat ((addr - fm * 131072) div 4096) = (unat addr - unat addr div 131072 * 131072) div 4096"
    using b by (simp add: unat_simps fm)
  also have "\<dots> = unat addr mod 131072 div 4096"
    by (simp add: minus_div_mult_eq_mod)
  finally have fr: "unat ((addr - fm * 131072) div 4096) = unat addr mod 131072 div 4096" .
  have meta: "get_frame_meta addr = (fm, (addr - fm * 131072) div 4096)"
    by (simp add: get_frame_meta_def fm_def Let_def mult.assoc)
  show "unat (snd (get_frame_meta addr)) < 32"
    using fr by (simp add: meta)
  show "frame_no (fst (get_frame_meta addr)) (snd (get_frame_meta addr)) = unat addr div 4096"
    using fr fm mod_mult2_eq [of "unat addr" 4096 32] div_mult2_eq [of "unat addr" 4096 32]
    by (simp add: meta frame_no_def)
  show "unat (fst (get_frame_meta addr)) < 4294967295"
    using fm unat_u32_lt [of addr] by (simp add: meta)
qed

lemma clear_low12:
  "unat ((addr :: u32) AND NOT 0xFFF) div 4096 = unat addr div 4096"
proof -
  have "drop_bit 12 (addr AND NOT (mask 12)) = drop_bit 12 addr"
    by (rule bit_eqI) (auto simp: bit_drop_bit_eq bit_and_iff bit_not_iff bit_mask_iff dest: bit_u32_bound)
  moreover have "(mask 12 :: u32) = 0xFFF" by (simp add: mask_eq_exp_minus_1)
  ultimately have "drop_bit 12 (addr AND NOT 0xFFF) = drop_bit 12 addr" by simp
  then have "unat (drop_bit 12 (addr AND NOT 0xFFF)) = unat (drop_bit 12 addr)" by simp
  then show ?thesis by (simp add: drop_bit_eq_div unat_div)
qed

lemma dealloc_frame_used:
  "used_frames (dealloc_frame addr s) = used_frames s - {unat addr div 4096}"
  using used_frames_clear_bit [OF get_frame_meta_frame(1)] get_frame_meta_frame(2) [of "addr AND NOT 0xFFF"]
    clear_low12 [of addr]
  by (simp add: dealloc_frame_def Let_def split_beta)

lemma dealloc_frame_num [simp]: "fs_num (dealloc_frame addr s) = fs_num s"
  by (simp add: dealloc_frame_def Let_def split_beta)

lemma dealloc_nframes_used:
  assumes "unat addr + 4096 * unat n \<le> 4294967296"
  shows "used_frames (dealloc_nframes addr n s) =
    used_frames s - {unat addr div 4096 ..< unat addr div 4096 + unat n}"
proof -
  have "used_frames (fold (\<lambda>i. dealloc_frame (addr + PAGE_SIZE * word_of_nat i)) [0..<m] s) =
      used_frames s - {unat addr div 4096 ..< unat addr div 4096 + m}"
    if "m \<le> unat n" for m
    using that
  proof (induction m)
    case 0
    then show ?case by simp
  next
    case (Suc m)
    have m: "4096 * m < 4294967296" and le: "unat addr + 4096 * m < 4294967296"
      using Suc.prems assms by simp_all
    have "unat (word_of_nat m :: u32) = m" using m by (simp add: unat_simps)
    then have "unat (PAGE_SIZE * word_of_nat m) = 4096 * m" using m by (simp add: unat_simps)
    then have "unat (addr + PAGE_SIZE * word_of_nat m) = unat addr + 4096 * m"
      using le by (simp add: unat_simps)
    then have "unat (addr + PAGE_SIZE * word_of_nat m) div 4096 = unat addr div 4096 + m"
      by simp
    then have "used_frames (fold (\<lambda>i. dealloc_frame (addr + PAGE_SIZE * word_of_nat i)) [0..<Suc m] s) =
        (used_frames s - {unat addr div 4096 ..< unat addr div 4096 + m}) - {unat addr div 4096 + m}"
      using Suc.IH Suc.prems by (simp add: dealloc_frame_used)
    also have "\<dots> = used_frames s - {unat addr div 4096 ..< unat addr div 4096 + Suc m}"
      by auto
    finally show ?case .
  qed
  then show ?thesis by (simp add: dealloc_nframes_def)
qed

section \<open>Searching\<close>

text \<open>
  \<open>scan_result s fm limit n j r\<close>: \<open>r\<close> is the first free frame among \<open>j\<close>, \<open>j + n\<close>, \<dots> below \<open>limit\<close>.
\<close>

definition scan_result :: "frame_state \<Rightarrow> u32 \<Rightarrow> nat \<Rightarrow> nat \<Rightarrow> nat \<Rightarrow> u32 option \<Rightarrow> bool" where
  "scan_result s fm limit n j r \<longleftrightarrow>
     (let stop = (case r of None \<Rightarrow> limit | Some j1 \<Rightarrow> unat j1) in
      (\<forall>j'. j \<le> unat j' \<and> unat j' < stop \<and> n dvd unat j' - j \<longrightarrow> \<not> is_frame_free s fm j') \<and>
      (\<forall>j1. r = Some j1 \<longrightarrow>
         j \<le> unat j1 \<and> unat j1 < limit \<and> n dvd unat j1 - j \<and> is_frame_free s fm j1))"

lemma dvd_diff_step:
  fixes n j j' :: nat
  assumes "j \<le> j'" and "0 < n"
  shows "n dvd j' - j \<longleftrightarrow> j' = j \<or> j + n \<le> j' \<and> n dvd j' - (j + n)"
proof (cases "j' = j")
  case False
  with assms(1) have lt: "0 < j' - j" by simp
  show ?thesis
  proof (cases "j + n \<le> j'")
    case True
    then have "j' - j = (j' - (j + n)) + n" by simp
    then have "n dvd j' - j \<longleftrightarrow> n dvd j' - (j + n)" by (metis dvd_add_triv_right_iff)
    with True False show ?thesis by simp
  next
    case big: False
    then have "\<not> n dvd j' - j" using lt by (auto dest: dvd_imp_le)
    with big False show ?thesis by simp
  qed
qed simp

lemma unat_eq_imp: "unat a = unat b \<Longrightarrow> a = b"
  by (simp add: word_unat_eq_iff)

lemma scan_result_step:
  assumes "scan_result s fm limit (unat n) (unat j + unat n) r" and "\<not> is_frame_free s fm j"
    and "0 < unat n"
  shows "scan_result s fm limit (unat n) (unat j) r"
proof -
  have "\<not> is_frame_free s fm j'"
    if "unat j \<le> unat j'" "unat n dvd unat j' - unat j"
      "unat j' < (case r of None \<Rightarrow> limit | Some j1 \<Rightarrow> unat j1)" for j'
    using that assms dvd_diff_step [OF that(1) assms(3)]
    by (auto simp: scan_result_def Let_def dest!: unat_eq_imp)
  moreover have "unat j \<le> unat j1 \<and> unat j1 < limit \<and> unat n dvd unat j1 - unat j \<and> is_frame_free s fm j1"
    if "r = Some j1" for j1
    using that assms(1) dvd_diff_step [of "unat j" "unat j1" "unat n"] assms(3)
    by (auto simp: scan_result_def Let_def)
  ultimately show ?thesis by (auto simp: scan_result_def Let_def)
qed

lemma find_frame_scan_total:
  assumes "0 < unat n" and "unat limit + unat n < 4294967296"
  shows "\<exists>r. find_frame_scan s fm limit n j = Some r \<and> scan_result s fm (unat limit) (unat n) (unat j) r"
proof (induction "unat limit - unat j" arbitrary: j rule: less_induct)
  case less
  consider (stop) "\<not> j < limit" | (found) "j < limit" "is_frame_free s fm j"
    | (step) "j < limit" "\<not> is_frame_free s fm j" by blast
  then show ?case
  proof cases
    case stop
    then show ?thesis
      by (auto simp: find_frame_scan.simps word_less_nat_alt scan_result_def Let_def)
  next
    case found
    then show ?thesis
      by (auto simp: find_frame_scan.simps word_less_nat_alt scan_result_def Let_def)
  next
    case step
    have u: "unat (j + n) = unat j + unat n"
      using step assms by (simp add: unat_simps word_less_nat_alt)
    have "unat limit - unat (j + n) < unat limit - unat j"
      using step assms u by (simp add: word_less_nat_alt)
    from less [OF this] obtain r where "find_frame_scan s fm limit n (j + n) = Some r"
      and "scan_result s fm (unat limit) (unat n) (unat j + unat n) r"
      by (auto simp: u)
    with step assms(1) show ?thesis
      by (auto simp: find_frame_scan.simps [of s fm limit n j] intro: scan_result_step)
  qed
qed
section \<open>Chunks\<close>

text \<open>
  Each word is cut in four quarters, for requests of 1, 2, 4 and 8 frames. \<open>chunk_head k\<close> is the
  first frame of the chunk frame \<open>k\<close> belongs to; the search looks at this frame only, so it is right
  as long as a chunk with a used frame has a used head (\<open>frame_inv\<close>).
\<close>

definition chunk_head :: "nat \<Rightarrow> nat" where
  "chunk_head k =
     (let r = k mod 32 in
      k - (if r < 8 then 0 else if r < 16 then r mod 2 else if r < 24 then r mod 4 else r mod 8))"

definition frame_inv :: "frame_state \<Rightarrow> bool" where
  "frame_inv s \<longleftrightarrow> unat (fs_num s) \<le> 32768 \<and>
     (\<forall>k \<in> used_frames s. k div 32 < unat (fs_num s) \<longrightarrow> chunk_head k \<in> used_frames s)"

definition page_entry :: "u16 \<Rightarrow> nat \<Rightarrow> u32" where
  "page_entry flags k = word_of_nat (4096 * k) OR ucast flags"

lemma frame_invD:
  "frame_inv s \<Longrightarrow> k \<in> used_frames s \<Longrightarrow> k div 32 < unat (fs_num s) \<Longrightarrow> chunk_head k \<in> used_frames s"
  by (simp add: frame_inv_def)

lemma unat_frame_map_to_addr:
  assumes "unat fm < 32768" and "unat fr < 32"
  shows "frame_map_to_addr fm fr = word_of_nat (4096 * frame_no fm fr)"
proof -
  have "word_of_nat (4096 * frame_no fm fr) =
      (4096 * (32 * word_of_nat (unat fm) + word_of_nat (unat fr)) :: u32)"
    by (simp add: frame_no_def)
  then show ?thesis by (simp add: frame_map_to_addr_def algebra_simps)
qed

text \<open>The size class of the four chunk sizes: first frame of the quarter, mask.\<close>

lemma get_frame_submap_mask_chunk [simp]:
  "get_frame_submap_mask 1 = (0, 0xFF)"
  "get_frame_submap_mask 2 = (1, 0xFF00)"
  "get_frame_submap_mask 4 = (2, 0xFF0000)"
  "get_frame_submap_mask 8 = (3, 0xFF000000)"
  by (simp_all add: get_frame_submap_mask_def upt_rec shl32_def word_le_nat_alt)

definition chunk_size :: "u32 \<Rightarrow> bool" where
  "chunk_size n \<longleftrightarrow> n \<in> {1, 2, 4, 8}"

lemma multiples_between:
  fixes x :: nat
  assumes "d dvd x - a" and "a \<le> x" and "x < a + d * n"
  shows "x \<in> (\<lambda>k. a + d * k) ` {..<n}"
proof -
  obtain k where "x - a = d * k" using assms(1) by (elim dvdE)
  then have x: "x = a + d * k" using assms(2) by linarith
  with assms(3) have "d * k < d * n" by linarith
  with x show ?thesis by auto
qed

text \<open>What the scan hands out is a whole chunk.\<close>

lemma scan_chunk:
  assumes n: "chunk_size n" and b: "fst (get_frame_submap_mask n) = b"
    and sc: "scan_result s fm (unat (MAX_BUDDY_SIZE * (b + 1))) (unat n) (unat (MAX_BUDDY_SIZE * b))
      (Some j)"
  shows "unat j + unat n \<le> 32" and "unat j < 32"
    and "\<And>k. k \<in> {frame_no fm j ..< frame_no fm j + unat n} \<Longrightarrow> chunk_head k = frame_no fm j"
    and "is_frame_free s fm j"
proof -
  show f: "is_frame_free s fm j" using sc by (simp add: scan_result_def Let_def)
  have r: "unat (MAX_BUDDY_SIZE * b) \<le> unat j" "unat j < unat (MAX_BUDDY_SIZE * (b + 1))"
      "unat n dvd unat j - unat (MAX_BUDDY_SIZE * b)"
    using sc by (simp_all add: scan_result_def Let_def)
  have l: "{..<4::nat} = {0, 1, 2, 3}" "{..<2::nat} = {0, 1}"
    "{..<8::nat} = {0, 1, 2, 3, 4, 5, 6, 7}" by auto
  have "n = 1 \<or> n = 2 \<or> n = 4 \<or> n = 8" using n by (simp add: chunk_size_def)
  then have c: "(n = 1 \<and> unat j < 8) \<or>
      (n = 2 \<and> (unat j = 8 \<or> unat j = 10 \<or> unat j = 12 \<or> unat j = 14)) \<or>
      (n = 4 \<and> (unat j = 16 \<or> unat j = 20)) \<or> (n = 8 \<and> unat j = 24)"
  proof (elim disjE)
    assume "n = 1"
    with r b [symmetric] show ?thesis by simp
  next
    assume "n = 2"
    with r b [symmetric] multiples_between [of 2 "unat j" 8 4] show ?thesis
      by (auto simp: l)
  next
    assume "n = 4"
    with r b [symmetric] multiples_between [of 4 "unat j" 16 2] show ?thesis
      by (auto simp: l)
  next
    assume "n = 8"
    with r b [symmetric] multiples_between [of 8 "unat j" 24 1] show ?thesis
      by (simp add: lessThan_Suc)
  qed
  then show 1: "unat j + unat n \<le> 32" and 2: "unat j < 32" by auto
  show "chunk_head k = frame_no fm j"
    if k: "k \<in> {frame_no fm j ..< frame_no fm j + unat n}" for k
  proof -
    obtain i where i: "k = frame_no fm j + i" "i < unat n"
      using k by (auto simp: le_iff_add)
    have "unat j + i < 32" using 1 i(2) by simp
    then have m: "k mod 32 = unat j + i" using i(1) by (simp add: frame_no_def add.assoc)
    have "(if k mod 32 < 8 then 0 else if k mod 32 < 16 then k mod 32 mod 2
        else if k mod 32 < 24 then k mod 32 mod 4 else k mod 32 mod 8) = i"
      using c i(2) unfolding m lessThan_iff [symmetric] by (elim disjE conjE; auto simp: l)
    then have "chunk_head k = k - i" by (simp only: chunk_head_def Let_def)
    then show ?thesis using i(1) by simp
  qed
qed

lemma frame_inv_add_chunk:
  assumes inv: "frame_inv s" and num: "fs_num s' = fs_num s"
    and u: "used_frames s' = used_frames s \<union> X"
    and X: "\<And>k. k \<in> X \<Longrightarrow> chunk_head k \<in> X"
  shows "frame_inv s'"
  using inv X by (auto simp: frame_inv_def num u)

lemma set_nframes_used_frames:
  assumes "unat n \<le> 32" and "unat fr < 32" and "unat fm < 4294967295"
  shows "used_frames (snd (set_nframes_used n fm fr s)) =
      used_frames s \<union> {frame_no fm fr ..< frame_no fm fr + unat n}"
    and "fs_num (snd (set_nframes_used n fm fr s)) = fs_num s"
  using set_nframes_used_loop_frames [of fm fr 0 "(fm, fr, 0)" "unat n" 0 s] assms
  by (simp_all add: set_nframes_used_def)

lemma set_nalloc_addrs_entries:
  assumes "unat n \<le> 32" and "unat j + unat n \<le> 32" and "unat fm < 32768"
  shows "set_nalloc_addrs n fm j flags =
    map (page_entry flags) [frame_no fm j ..< frame_no fm j + unat n]"
proof -
  have "frame_map_to_addr fm (j + word_of_nat i) OR ucast flags = page_entry flags (frame_no fm j + i)"
    if "i < unat n" for i
  proof -
    have "unat (word_of_nat i :: u32) = i" using that assms(1) by (simp add: unat_simps)
    then have u: "unat (j + word_of_nat i) = unat j + i"
      using that assms(2) by (simp add: unat_simps)
    then have "frame_no fm (j + word_of_nat i) = frame_no fm j + i" by (simp add: frame_no_def)
    moreover have "unat (j + word_of_nat i) < 32" using u that assms(2) by simp
    ultimately show ?thesis
      using unat_frame_map_to_addr [OF assms(3)] by (simp add: page_entry_def)
  qed
  then have "set_nalloc_addrs n fm j flags =
      map (\<lambda>i. page_entry flags (frame_no fm j + i)) [0..<unat n]"
    by (simp add: set_nalloc_addrs_def)
  also have "\<dots> = map (page_entry flags) (map (\<lambda>i. i + frame_no fm j) [0..<unat n])"
    by (simp add: add.commute)
  finally show ?thesis by (simp add: map_add_upt add.commute [of "unat n"])
qed

text \<open>One word: either nothing changes, or a chunk that was free all through is taken.\<close>

lemma find_frame_in_map_chunk:
  assumes inv: "frame_inv s" and n: "chunk_size n" and fm: "unat fm < unat (fs_num s)"
  shows "find_frame_in_map fm n mf flags s = Some (1, [], mf, s) \<or>
    (\<exists>ks s'. find_frame_in_map fm n mf flags s = Some (0, map (page_entry flags) ks, mf + n, s') \<and>
       length ks = unat n \<and> distinct ks \<and> set ks \<inter> used_frames s = {} \<and>
       used_frames s' = used_frames s \<union> set ks \<and> (\<forall>k \<in> set ks. k div 32 = unat fm) \<and>
       fs_num s' = fs_num s \<and> frame_inv s')"
proof -
  obtain b m where bm: "get_frame_submap_mask n = (b, m)" by fastforce
  have "0 < unat n" "unat (MAX_BUDDY_SIZE * (b + 1)) + unat n < 4294967296"
    using n bm by (auto simp: chunk_size_def)
  then obtain r where r: "find_frame_scan s fm (MAX_BUDDY_SIZE * (b + 1)) n (MAX_BUDDY_SIZE * b) = Some r"
    and sc: "scan_result s fm (unat (MAX_BUDDY_SIZE * (b + 1))) (unat n) (unat (MAX_BUDDY_SIZE * b)) r"
    using find_frame_scan_total by blast
  show ?thesis
  proof (cases r)
    case None
    with bm r show ?thesis by (simp add: find_frame_in_map_def Let_def)
  next
    case (Some j)
    note ch = scan_chunk [OF n _ sc [unfolded Some], unfolded bm, simplified]
    define X where "X = {frame_no fm j ..< frame_no fm j + unat n}"
    let ?s = "snd (set_nframes_used n fm j s)"
    have n32: "unat n \<le> 32" using n by (auto simp: chunk_size_def)
    have fm2: "unat fm < 32768" "unat fm < 4294967295"
      using fm inv by (simp_all add: frame_inv_def)
    have u: "used_frames ?s = used_frames s \<union> X" "fs_num ?s = fs_num s"
      using set_nframes_used_frames [OF n32 ch(2) fm2(2)] by (simp_all add: X_def)
    have word: "k div 32 = unat fm" if "k \<in> X" for k
      using that ch(1) by (auto simp: X_def frame_no_def)
    have head: "frame_no fm j \<notin> used_frames s"
      using ch(2,4) by (simp add: is_frame_free_iff)
    have free: "X \<inter> used_frames s = {}"
      using frame_invD [OF inv] word fm head ch(3) by (fastforce simp: X_def)
    have "frame_inv ?s"
    proof (rule frame_inv_add_chunk [OF inv u(2,1)])
      fix k assume "k \<in> X"
      then show "chunk_head k \<in> X" using ch(3) by (auto simp: X_def)
    qed
    moreover have "find_frame_in_map fm n mf flags s = Some (1, [], mf, s) \<or>
        find_frame_in_map fm n mf flags s =
          Some (0, map (page_entry flags) [frame_no fm j ..< frame_no fm j + unat n], mf + n, ?s)"
      using bm r Some set_nalloc_addrs_entries [OF n32 ch(1) fm2(1)]
      by (simp add: find_frame_in_map_def Let_def)
    moreover have "length [frame_no fm j ..< frame_no fm j + unat n] = unat n"
      and "distinct [frame_no fm j ..< frame_no fm j + unat n]"
      and "set [frame_no fm j ..< frame_no fm j + unat n] = X" by (simp_all add: X_def)
    ultimately show ?thesis
      using u free word by metis
  qed
qed

text \<open>
  Requests that decompose into whole chunks: the remainder modulo 8 is 0, 1, 2 or 4.
\<close>

definition chunked :: "nat \<Rightarrow> bool" where
  "chunked n \<longleftrightarrow> n mod 8 \<in> {0, 1, 2, 4}"

lemma chunked_cur:
  assumes "unat mapped < unat n" and "chunked (unat n - unat mapped)"
  defines "cur \<equiv> (if n - mapped > 8 then 8 else n - mapped)"
  shows "chunk_size cur" and "unat mapped + unat cur \<le> unat n"
    and "chunked (unat n - unat (mapped + cur))"
    and "unat (mapped + cur) = unat mapped + unat cur"
proof -
  have d: "unat (n - mapped) = unat n - unat mapped" using assms(1) by (simp add: unat_simps)
  have n: "unat n < 4294967296" by (rule unat_u32_lt)
  have "chunk_size cur \<and> unat mapped + unat cur \<le> unat n \<and>
      (unat n - unat mapped - unat cur) mod 8 = (if unat cur = 8 then (unat n - unat mapped) mod 8 else 0)"
  proof (cases "n - mapped > 8")
    case True
    then have "8 < unat n - unat mapped" using d by (simp add: word_less_nat_alt)
    with True show ?thesis by (simp add: cur_def chunk_size_def le_mod_geq)
  next
    case False
    then have le: "unat n - unat mapped \<le> 8" "cur = n - mapped"
      using d by (simp_all add: word_less_nat_alt cur_def)
    have "unat n - unat mapped \<in> {1, 2, 4, 8}"
    proof (cases "unat n - unat mapped = 8")
      case less: False
      with le have "unat n - unat mapped < 8" by simp
      with assms(1,2) show ?thesis by (auto simp: chunked_def)
    qed simp
    then have "unat cur \<in> {unat (1 :: u32), unat (2 :: u32), unat (4 :: u32), unat (8 :: u32)}"
      using le(2) d by simp
    then have "chunk_size cur"
      by (simp only: chunk_size_def insert_iff empty_iff word_unat_eq_iff)
    then show ?thesis using le d assms(1) by auto
  qed
  then show 1: "chunk_size cur" and 2: "unat mapped + unat cur \<le> unat n"
    and 3: "unat (mapped + cur) = unat mapped + unat cur"
    using n by (simp_all add: unat_simps)
  from \<open>chunk_size cur \<and> _\<close> 3 assms(2) show "chunked (unat n - unat (mapped + cur))"
    by (auto simp: chunked_def)
qed

lemma find_alloc_nframes_loop_sound:
  assumes "frame_inv s" and "\<forall>i \<in> set is. i < unat (fs_num s)"
    and "unat mapped < unat n" and "chunked (unat n - unat mapped)"
  shows "\<exists>ret ks s'. find_alloc_nframes_loop is n flags mapped out s =
      Some (ret, out @ map (page_entry flags) ks, s') \<and>
    distinct ks \<and> set ks \<inter> used_frames s = {} \<and> used_frames s' = used_frames s \<union> set ks \<and>
    frame_inv s' \<and> fs_num s' = fs_num s \<and> (\<forall>k \<in> set ks. k div 32 < unat (fs_num s)) \<and>
    (ret = 0 \<and> length ks = unat n - unat mapped \<or> ret = ENOMEM \<and> length ks < unat n - unat mapped)"
  using assms
proof (induction "is" arbitrary: mapped out s)
  case Nil
  then show ?case by (intro exI [of _ ENOMEM] exI [of _ "[]"] exI [of _ s]) auto
next
  case (Cons i "is")
  define cur where "cur = (if n - mapped > 8 then 8 else n - mapped)"
  note cc = chunked_cur [OF Cons.prems(3,4), folded cur_def]
  have i: "i < unat (fs_num s)" using Cons.prems(2) by simp
  have ui: "unat (word_of_nat i :: u32) = i"
    using i unat_u32_lt [of "fs_num s"] by (simp add: unat_simps)
  have skip: ?case if "find_alloc_nframes_loop (i # is) n flags mapped out s =
      find_alloc_nframes_loop is n flags mapped out s"
    unfolding that using Cons.prems by (intro Cons.IH) auto
  show ?case
  proof (cases "fs_frames s i AND 0xFFFFFFFF = 0xFFFFFFFF")
    case True
    then show ?thesis by (intro skip) simp
  next
    case False
    from find_frame_in_map_chunk [OF Cons.prems(1) cc(1), of "word_of_nat i" mapped flags] i ui
    consider (none) "find_frame_in_map (word_of_nat i) cur mapped flags s = Some (1, [], mapped, s)"
      | (got) ks s1 where "find_frame_in_map (word_of_nat i) cur mapped flags s =
            Some (0, map (page_entry flags) ks, mapped + cur, s1)"
          "length ks = unat cur" "distinct ks" "set ks \<inter> used_frames s = {}"
          "used_frames s1 = used_frames s \<union> set ks" "\<forall>k \<in> set ks. k div 32 = i"
          "fs_num s1 = fs_num s" "frame_inv s1"
      by auto
    then show ?thesis
    proof cases
      case none
      with False show ?thesis by (intro skip) (simp add: cur_def [symmetric] Let_def)
    next
      case got
      show ?thesis
      proof (cases "mapped + cur \<ge> n")
        case True
        then have "unat mapped + unat cur = unat n"
          using cc(2,4) by (simp add: word_le_nat_alt)
        with True False got i show ?thesis
          by (intro exI [of _ 0] exI [of _ ks] exI [of _ s1])
            (auto simp: cur_def [symmetric] Let_def)
      next
        case more: False
        then have lt: "unat (mapped + cur) < unat n" by (simp add: word_le_nat_alt)
        have "\<forall>i \<in> set is. i < unat (fs_num s1)" using Cons.prems(2) got(7) by simp
        from Cons.IH [OF got(8) this lt cc(3), of "out @ map (page_entry flags) ks"]
        obtain ret ks' s' where IH:
          "find_alloc_nframes_loop is n flags (mapped + cur) (out @ map (page_entry flags) ks) s1 =
             Some (ret, (out @ map (page_entry flags) ks) @ map (page_entry flags) ks', s')"
          "distinct ks'" "set ks' \<inter> used_frames s1 = {}" "used_frames s' = used_frames s1 \<union> set ks'"
          "frame_inv s'" "fs_num s' = fs_num s1" "\<forall>k \<in> set ks'. k div 32 < unat (fs_num s1)"
          "ret = 0 \<and> length ks' = unat n - unat (mapped + cur) \<or>
           ret = ENOMEM \<and> length ks' < unat n - unat (mapped + cur)"
          by blast
        have "find_alloc_nframes_loop (i # is) n flags mapped out s =
            Some (ret, out @ map (page_entry flags) (ks @ ks'), s')"
          using False got(1) more IH(1) by (simp add: cur_def [symmetric] Let_def)
        moreover have "distinct (ks @ ks')" "set (ks @ ks') \<inter> used_frames s = {}"
          "used_frames s' = used_frames s \<union> set (ks @ ks')"
          "\<forall>k \<in> set (ks @ ks'). k div 32 < unat (fs_num s)" "fs_num s' = fs_num s"
          using got IH i by auto
        moreover have "ret = 0 \<and> length (ks @ ks') = unat n - unat mapped \<or>
            ret = ENOMEM \<and> length (ks @ ks') < unat n - unat mapped"
          using IH(8) got(2) cc(2,4) by auto
        ultimately show ?thesis using IH(5) by blast
      qed
    qed
  qed
qed

text \<open>Requests of one frame look at the first quarter of each word.\<close>

lemma and_mask_eq_bit: "w AND m = m \<Longrightarrow> bit m k \<Longrightarrow> bit (w :: u32) k"
  by (metis bit_and_iff)

lemma find_frame_in_map_one:
  assumes "frame_inv s" and "unat fm < unat (fs_num s)"
  shows "find_frame_in_map fm 1 mf flags s = Some (1, [], mf, s) \<longleftrightarrow>
    (\<forall>r < 8. 32 * unat fm + r \<in> used_frames s)"
proof -
  obtain r where r: "find_frame_scan s fm 8 1 0 = Some r" and sc: "scan_result s fm 8 1 0 r"
    using find_frame_scan_total [of 1 8 s fm 0] by auto
  have fr: "is_frame_free s fm (word_of_nat i) \<longleftrightarrow> 32 * unat fm + i \<notin> used_frames s"
    if "i < 8" for i
  proof -
    have "unat (word_of_nat i :: u32) = i" using that by (simp add: unat_simps)
    then show ?thesis using that by (simp add: is_frame_free_iff frame_no_def)
  qed
  show ?thesis
  proof (cases "fs_frames s (unat fm) AND 0xFF = 0xFF")
    case True
    have "bit (fs_frames s (unat fm)) i" if "i < 8" for i
    proof (rule and_mask_eq_bit [OF True])
      have "bit (mask 8 :: u32) i" using that by (simp add: bit_mask_iff)
      then show "bit (0xFF :: u32) i" by (simp add: mask_eq_exp_minus_1)
    qed
    then have "\<forall>r < 8. 32 * unat fm + r \<in> used_frames s"
      by (auto simp: used_frames_def)
    with True show ?thesis by (simp add: find_frame_in_map_def Let_def)
  next
    case False
    show ?thesis
    proof (cases r)
      case None
      have "\<not> is_frame_free s fm (word_of_nat i)" if "i < 8" for i
        using sc that unfolding None
        by (auto simp: scan_result_def unat_simps dest!: spec [of _ "word_of_nat i"])
      then have "\<forall>r < 8. 32 * unat fm + r \<in> used_frames s" using fr by blast
      with None False r show ?thesis by (simp add: find_frame_in_map_def Let_def)
    next
      case (Some j)
      with sc have "unat j < 8" "is_frame_free s fm j" by (simp_all add: scan_result_def)
      then have "32 * unat fm + unat j \<notin> used_frames s"
        using fr [of "unat j"] by simp
      with Some False r \<open>unat j < 8\<close> show ?thesis by (auto simp: find_frame_in_map_def Let_def)
    qed
  qed
qed

lemma find_alloc_frame_loop_fails:
  assumes "frame_inv s" and "\<forall>i \<in> set is. i < unat (fs_num s)"
  shows "(\<exists>out' s'. find_alloc_nframes_loop is 1 flags 0 out s = Some (ENOMEM, out', s')) \<longleftrightarrow>
    (\<forall>i \<in> set is. \<forall>r < 8. 32 * i + r \<in> used_frames s)"
  using assms(2)
proof (induction "is")
  case Nil
  then show ?case by simp
next
  case (Cons i "is")
  have i: "i < unat (fs_num s)" using Cons.prems by simp
  have ui: "unat (word_of_nat i :: u32) = i"
    using i unat_u32_lt [of "fs_num s"] by (simp add: unat_simps)
  note IH = Cons.IH [unfolded ball_simps, OF Cons.prems [unfolded list.set ball_simps, THEN conjunct2]]
  note one = find_frame_in_map_one [OF assms(1), of "word_of_nat i" 0 flags, unfolded ui, OF i]
  show ?case
  proof (cases "fs_frames s i AND 0xFFFFFFFF = 0xFFFFFFFF")
    case True
    have "bit (fs_frames s i) r" if "r < 8" for r
    proof (rule and_mask_eq_bit [OF True])
      have "bit (mask 32 :: u32) r" using that by (simp add: bit_mask_iff)
      then show "bit (0xFFFFFFFF :: u32) r" by (simp add: mask_eq_exp_minus_1)
    qed
    then have "\<forall>r < 8. 32 * i + r \<in> used_frames s"
      by (auto simp: used_frames_def)
    with True IH show ?thesis by simp
  next
    case False
    show ?thesis
    proof (cases "\<forall>r < 8. 32 * i + r \<in> used_frames s")
      case True
      with False IH one show ?thesis by (simp add: word_less_nat_alt)
    next
      case free: False
      with one find_frame_in_map_chunk [OF assms(1), of 1 "word_of_nat i" 0 flags] i ui
      obtain ks s1 where "find_frame_in_map (word_of_nat i) 1 0 flags s =
          Some (0, map (page_entry flags) ks, 1, s1)"
        by (auto simp: chunk_size_def)
      with False free show ?thesis by (simp add: word_less_nat_alt ENOMEM_def)
    qed
  qed
qed

section \<open>Properties\<close>

text \<open>
  C2. The search never hands out a frame twice. For every request that splits into whole chunks
  (1, 2, 4 or 8 frames, or more in steps of 8), from a state where a used chunk has a used head, it
  returns. Whatever the return code, the stored entries name pairwise different frames that were all
  free and are exactly the ones marked used now; on success there are \<open>nframes\<close> of them, otherwise
  fewer (they stay marked).
\<close>

theorem find_alloc_nframes_no_double_alloc:
  assumes "frame_inv s" and "alloc_addrs \<noteq> 0" and "nframes \<noteq> 0" and "chunked (unat nframes)"
  shows "\<exists>ret ks s'. find_alloc_nframes nframes alloc_addrs flags s =
      Some (ret, map (page_entry flags) ks, s') \<and>
    distinct ks \<and> set ks \<inter> used_frames s = {} \<and> used_frames s' = used_frames s \<union> set ks \<and>
    frame_inv s' \<and> (\<forall>k \<in> set ks. k div 32 < unat (fs_num s)) \<and>
    (ret = 0 \<and> length ks = unat nframes \<or> ret = ENOMEM \<and> length ks < unat nframes)"
proof -
  have "unat (0 :: u32) < unat nframes" using assms(3) by (simp add: unat_gt_0)
  from find_alloc_nframes_loop_sound [OF assms(1) _ this, of "[0..<unat (fs_num s)]" flags "[]"]
    assms(2,4) show ?thesis
    by (simp add: find_alloc_nframes_def) blast
qed

text \<open>A fresh allocator of four words, for the witnesses.\<close>

definition fresh_frames :: frame_state where
  "fresh_frames = \<lparr>fs_frames = (\<lambda>_. 0), fs_num = 4, fs_last = []\<rparr>"

lemma fresh_frames_used [simp]: "used_frames fresh_frames = {}"
  by (simp add: used_frames_def fresh_frames_def)

lemma fresh_frames_inv [simp]: "frame_inv fresh_frames"
  by (simp add: frame_inv_def) (simp add: fresh_frames_def)

theorem find_alloc_nframes_no_double_alloc_witness:
  "frame_inv fresh_frames \<and> chunked (unat (10 :: u32)) \<and>
   (\<exists>ret ks s'. find_alloc_nframes 10 0xC0100000 3 fresh_frames = Some (ret, map (page_entry 3) ks, s') \<and>
      distinct ks \<and> used_frames s' = set ks)"
  using find_alloc_nframes_no_double_alloc [of fresh_frames "0xC0100000" 10 3]
  by (auto simp: chunked_def)

text \<open>
  C32. A request for one frame fails exactly when the first quarter (frames 0 to 7) of every bitmap
  word is used, whatever the state of the other quarters.
\<close>

theorem find_alloc_frame_fails_iff:
  assumes "frame_inv s" and "alloc_addr \<noteq> 0"
  shows "(\<exists>out s'. find_alloc_frame alloc_addr flags s = Some (ENOMEM, out, s')) \<longleftrightarrow>
    (\<forall>k. k div 32 < unat (fs_num s) \<and> k mod 32 < 8 \<longrightarrow> k \<in> used_frames s)"
proof -
  have "(\<forall>i < unat (fs_num s). \<forall>r < 8. 32 * i + r \<in> used_frames s) \<longleftrightarrow>
      (\<forall>k. k div 32 < unat (fs_num s) \<and> k mod 32 < 8 \<longrightarrow> k \<in> used_frames s)"
  proof safe
    fix k assume "\<forall>i < unat (fs_num s). \<forall>r < 8. 32 * i + r \<in> used_frames s"
      and "k div 32 < unat (fs_num s)" "k mod 32 < 8"
    then have "32 * (k div 32) + k mod 32 \<in> used_frames s" by blast
    then show "k \<in> used_frames s" by simp
  next
    fix i r :: nat assume all: "\<forall>k. k div 32 < unat (fs_num s) \<and> k mod 32 < 8 \<longrightarrow> k \<in> used_frames s"
      and "i < unat (fs_num s)" and "r < 8"
    then show "32 * i + r \<in> used_frames s" by (intro all [rule_format]) auto
  qed
  with find_alloc_frame_loop_fails [OF assms(1), of "[0..<unat (fs_num s)]" "ucast flags" "[]"] assms(2)
  show ?thesis by (auto simp: find_alloc_frame_def find_alloc_nframes_def)
qed

theorem find_alloc_frame_fails_iff_witness:
  "frame_inv fresh_frames \<and> \<not> (\<exists>out s'. find_alloc_frame 0xC0100000 3 fresh_frames = Some (ENOMEM, out, s'))"
proof -
  have "\<not> (\<forall>k. k div 32 < unat (fs_num fresh_frames) \<and> k mod 32 < 8 \<longrightarrow> k \<in> used_frames fresh_frames)"
    by (auto simp: fresh_frames_def used_frames_def intro!: exI [of _ 0])
  then show ?thesis using find_alloc_frame_fails_iff [of fresh_frames "0xC0100000" 3] by simp
qed

text \<open>
  Allocation at a given address marks exactly the run of frames that starts there and stores
  their addresses with the flags, for runs of at most 32 frames.
\<close>

lemma alloc_nframes_marks_run:
  assumes "alloc_addrs \<noteq> 0" and "unat nframes \<le> 32"
  shows "\<exists>s'. alloc_nframes nframes addr alloc_addrs flags s =
      (0, map (\<lambda>i. (addr + word_of_nat i * PAGE_SIZE) OR ucast flags) [0..<unat nframes], s') \<and>
    used_frames s' =
      used_frames s \<union> {unat addr div 4096 ..< unat addr div 4096 + unat nframes}"
proof -
  obtain fm fr where m: "get_frame_meta addr = (fm, fr)" by fastforce
  note meta = get_frame_meta_frame [of addr, unfolded m fst_conv snd_conv]
  let ?l = "alloc_nframes_loop addr flags [0..<unat nframes] (fm, fr, 0) [] s"
  have "used_frames (snd ?l) = used_frames s \<union> {frame_no fm fr ..< frame_no fm fr + unat nframes}"
    using set_nframes_used_loop_frames(1) [of fm fr 0 "(fm, fr, 0)" "unat nframes" 0 s] meta assms(2)
    by (simp add: alloc_nframes_loop_state [of _ _ _ _ _ _ 0])
  then show ?thesis
    using assms(1) m meta(2) alloc_nframes_loop_out [of addr flags "[0..<unat nframes]" "(fm, fr, 0)" "[]" s]
    by (intro exI [of _ "snd ?l"]) (simp add: alloc_nframes_def split_beta prod_eq_iff)
qed

text \<open>
  The bound of 32 frames on a run matters: for 34 frames from address
  0 the code marks frame 64 instead of frame 33, since past 32 iterations it enters a new word in
  every one.
\<close>

theorem alloc_nframes_34_marks_wrong_frame:
  "let (ret, out, s') = alloc_nframes 34 0 0xC0100000 3 fresh_frames
   in ret = 0 \<and> out ! 33 = 0x21003 \<and> 33 \<notin> used_frames s' \<and> 64 \<in> used_frames s'"
  by (simp add: alloc_nframes_def get_frame_meta_def upt_rec fresh_frames_def set_frame_used_def
      shl32_def used_frames_def Let_def word_le_nat_alt)

lemma page_entry_frame:
  assumes "k < 1048576" and "flags < 4096"
  shows "unat (page_entry flags k) div 4096 = k"
proof -
  have fl: "drop_bit 12 (ucast flags :: u32) = 0"
  proof -
    have "unat flags < 4096" using assms(2) by (simp add: word_less_nat_alt)
    then have "unat (ucast flags :: u32) < 4096"
      by (simp add: unat_simps)
    then have "unat (drop_bit 12 (ucast flags :: u32)) = 0"
      by (simp add: drop_bit_eq_div unat_div)
    then show ?thesis by (simp only: unat_eq_zero)
  qed
  have "unat (word_of_nat (4096 * k) :: u32) = 4096 * k"
    using assms(1) by (simp only: unat_simps)
  then have "unat (drop_bit 12 (word_of_nat (4096 * k) :: u32)) = k"
    by (simp add: drop_bit_eq_div unat_div)
  moreover have "drop_bit 12 (page_entry flags k) = drop_bit 12 (word_of_nat (4096 * k) :: u32)"
    by (simp only: page_entry_def drop_bit_or fl or.right_neutral)
  ultimately have "unat (drop_bit 12 (page_entry flags k)) = k" by simp
  then show ?thesis by (simp add: drop_bit_eq_div unat_div)
qed

lemma fold_dealloc_frame_used:
  assumes "\<forall>k \<in> set ks. k < 1048576" and "flags < 4096"
  shows "used_frames (fold dealloc_frame (map (page_entry flags) ks) s) = used_frames s - set ks"
  using assms(1)
proof (induction ks arbitrary: s)
  case (Cons k ks)
  then show ?case
    using page_entry_frame [OF _ assms(2), of k] by (auto simp: dealloc_frame_used)
qed simp


text \<open>What a request of two frames does to a fresh allocator.\<close>

lemma fresh_frames_two:
  "find_alloc_nframes 2 0xC0100000 3 fresh_frames =
     Some (0, [0x8003, 0x9003], fresh_frames\<lparr>fs_frames := (\<lambda>_. 0)(0 := 0x300)\<rparr>)"
  by (simp add: find_alloc_nframes_def fresh_frames_def upt_rec word_less_nat_alt
      find_frame_in_map_def find_frame_scan.simps is_frame_free_def set_nframes_used_def
      set_frame_used_def shl32_def set_nalloc_addrs_def frame_map_to_addr_def word_le_nat_alt)


text \<open>
  Requests that are not whole chunks break that guarantee: after a request for 8 frames, the
  third request for 3 frames stores the address of a frame that the first one handed out
  (frame 24, address 0x18000).
\<close>

theorem find_alloc_three_frames_double_alloc:
  "case find_alloc_nframes 8 0xC0100000 3 (fresh_frames\<lparr>fs_num := 1\<rparr>) of None \<Rightarrow> False
   | Some (r1, out1, s1) \<Rightarrow> (case find_alloc_nframes 3 0xC0100000 3 s1 of None \<Rightarrow> False
   | Some (r2, _, s2) \<Rightarrow> (case find_alloc_nframes 3 0xC0100000 3 s2 of None \<Rightarrow> False
   | Some (r3, _, s3) \<Rightarrow> (case find_alloc_nframes 3 0xC0100000 3 s3 of None \<Rightarrow> False
   | Some (r4, out4, _) \<Rightarrow> r1 = 0 \<and> r2 = 0 \<and> r3 = 0 \<and> r4 = 0 \<and>
       0x18003 \<in> set out1 \<and> 0x18003 \<in> set out4)))"
  by (simp add: find_alloc_nframes_def fresh_frames_def upt_rec word_less_nat_alt
      find_frame_in_map_def find_frame_scan.simps is_frame_free_def set_nframes_used_def
      get_frame_submap_mask_def
      set_frame_used_def shl32_def set_nalloc_addrs_def frame_map_to_addr_def word_le_nat_alt)

text \<open>
  The initialisation asks for and clears only \<open>frames_num / 32\<close> bytes for a bitmap of
  \<open>frames_num\<close> words: every word of the bitmap from there on keeps what the memory held, and lies
  outside the allocated block.
\<close>

theorem frame_alloc_init_bitmap_too_small:
  assumes "kmalloc (pmem_limit div 0x20000 div 32) = (p, m)"
    and "frame_alloc_init kmalloc pmem_limit s = (ret, s')"
    and "unat (fs_num s') \<le> 128 * i"
  shows "fs_num s' = pmem_limit div 0x20000 \<and>
    unat (pmem_limit div 0x20000 div 32) \<le> 4 * i \<and> fs_frames s' i = m i"
proof -
  have n: "fs_num s' = pmem_limit div 0x20000"
    using assms(1,2) by (auto simp: frame_alloc_init_def Let_def)
  with assms(3) have "unat (pmem_limit div 0x20000 div 32) \<le> 4 * i"
    by (simp add: unat_simps)
  with n assms(1,2) show ?thesis
    by (auto simp: frame_alloc_init_def Let_def memset0_words_def)
qed

theorem frame_alloc_init_bitmap_too_small_witness:
  "let s' = snd (frame_alloc_init (\<lambda>_. (0xC0200000, \<lambda>_. 0xDEADBEEF)) 0x3FF00000 fresh_frames)
   in 64 < unat (fs_num s') \<and> fs_frames s' 64 = 0xDEADBEEF"
  using frame_alloc_init_bitmap_too_small [of "\<lambda>_. (0xC0200000, \<lambda>_. 0xDEADBEEF)" "0x3FF00000"
    "0xC0200000" "\<lambda>_. 0xDEADBEEF" fresh_frames _ _ 64]
  by (simp add: frame_alloc_init_def Let_def)

end
