(* ===== verification/Kernel_Heap.thy ===== *)
theory Kernel_Heap
  imports Kernel_Prelude
begin

text \<open>
  The kernel heap, \<open>src/mem/allocator.c\<close>. Every block starts with a 32-byte \<open>struct block_header\<close>;
  the headers are memory, so the state holds the header found at each address (\<open>hs_hdr\<close>) next to
  the three globals \<open>heap_base_addr\<close>, \<open>heap_base_block\<close> and \<open>heap_end_addr\<close>, and the bytes of the
  blocks (\<open>hs_data\<close>), which only \<open>kzalloc\<close> writes here. Pointers are 32-bit words, 0 being \<open>NULL\<close>.

  Growing the heap calls \<open>mmap_pages\<close> of \<open>src/mem/mmap.c\<close>, which calls \<open>kmalloc_align\<close> again for its
  page tables. The functions here take it as the argument \<open>mm\<close>: from the address and the number of
  pages it gives the return code and the heap it leaves, or a fault.
\<close>

section \<open>State\<close>

record block_header =
  bh_magic :: u32
  bh_next :: u32
  bh_prev :: u32
  bh_next_hole :: u32
  bh_size :: u32
  bh_is_hole :: bool

record 'e heap_state =
  hs_base_addr :: u32
  hs_base_block :: u32
  hs_end :: u32
  hs_hdr :: "u32 \<Rightarrow> block_header"
  hs_data :: "u32 \<Rightarrow> u8"
  hs_env :: 'e

type_synonym 'e mapper = "u32 \<Rightarrow> u32 \<Rightarrow> 'e heap_state \<Rightarrow> fault + int \<times> 'e heap_state"

abbreviation BLOCK_HEADER_MAGIC_NUM :: u32 where "BLOCK_HEADER_MAGIC_NUM \<equiv> 0x0BADBABA"
abbreviation MAP_CRITICAL_DIST :: u32 where "MAP_CRITICAL_DIST \<equiv> 0x100000"
abbreviation HEAP_ALIGN :: u32 where "HEAP_ALIGN \<equiv> 16"
abbreviation HEADER_SIZEOF :: u32 where "HEADER_SIZEOF \<equiv> 32"

definition upd_hdr :: "u32 \<Rightarrow> (block_header \<Rightarrow> block_header) \<Rightarrow> 'e heap_state \<Rightarrow> 'e heap_state" where
  "upd_hdr a f h = h\<lparr>hs_hdr := (hs_hdr h)(a := f (hs_hdr h a))\<rparr>"

text \<open>The header \<open>memset\<close> leaves.\<close>

definition zero_header :: block_header where
  "zero_header = \<lparr>bh_magic = 0, bh_next = 0, bh_prev = 0, bh_next_hole = 0, bh_size = 0,
     bh_is_hole = False\<rparr>"

section \<open>Operations\<close>

definition write_header ::
  "u32 \<Rightarrow> u32 \<Rightarrow> u32 \<Rightarrow> u32 \<Rightarrow> u32 \<Rightarrow> bool \<Rightarrow> 'e heap_state \<Rightarrow> 'e heap_state" where
  "write_header head nxt prv next_hole sz is_hole h =
     (if head = 0 then h
      else upd_hdr head (\<lambda>b. b\<lparr>bh_next_hole := next_hole, bh_is_hole := is_hole, bh_next := nxt,
             bh_prev := prv, bh_size := sz\<rparr>) h)"

definition heap_init :: "u32 \<Rightarrow> u32 \<Rightarrow> 'e heap_state \<Rightarrow> 'e heap_state" where
  "heap_init map_limit heap_base h =
     upd_hdr heap_base
       (\<lambda>_. zero_header\<lparr>bh_magic := BLOCK_HEADER_MAGIC_NUM, bh_is_hole := True,
              bh_size := map_limit - heap_base, bh_next_hole := 0, bh_next := 0\<rparr>)
       (h\<lparr>hs_base_addr := heap_base, hs_end := map_limit, hs_base_block := heap_base\<rparr>)"

definition expand_heap ::
  "'e mapper \<Rightarrow> u32 \<Rightarrow> u32 \<Rightarrow> 'e heap_state \<Rightarrow> fault + int \<times> 'e heap_state" where
  "expand_heap mm header pt_num h =
     (let prev_end_addr = hs_end h;
          h1 = upd_hdr header (\<lambda>b. b\<lparr>bh_size := bh_size b + PT_SIZE * PAGE_SIZE\<rparr>)
                 (h\<lparr>hs_end := hs_end h + PT_SIZE * PAGE_SIZE\<rparr>)
      in mm prev_end_addr (PT_SIZE * pt_num) h1)"

text \<open>The part of \<open>do_alloc\<close> that puts a new hole behind the allocated bytes.\<close>

definition insert_new_block :: "u32 \<Rightarrow> u32 \<Rightarrow> u32 \<Rightarrow> 'e heap_state \<Rightarrow> 'e heap_state" where
  "insert_new_block header sz data_base h =
     (let new_block = data_base + sz;
          base = hs_base_block h;
          h1 = (if bh_next_hole (hs_hdr h base) = 0 \<or> bh_next_hole (hs_hdr h base) = header
                then upd_hdr base (\<lambda>b. b\<lparr>bh_next_hole := new_block\<rparr>) h else h);
          h2 = upd_hdr new_block (\<lambda>_. zero_header\<lparr>bh_magic := BLOCK_HEADER_MAGIC_NUM,
                 bh_is_hole := True, bh_size := hs_end h - data_base - sz, bh_prev := header\<rparr>) h1;
          nxt = bh_next (hs_hdr h2 header);
          h3 = upd_hdr new_block
                 (\<lambda>b. b\<lparr>bh_next := (if nxt = 0xFFFFFFFF then 0 else nxt)\<rparr>) h2;
          hole = bh_next_hole (hs_hdr h3 header);
          h4 = upd_hdr new_block
                 (\<lambda>b. b\<lparr>bh_next_hole := (if hole = 0xFFFFFFFF then 0 else hole)\<rparr>) h3
      in upd_hdr header (\<lambda>b. b\<lparr>bh_next_hole := new_block, bh_next := new_block\<rparr>) h4)"

definition do_alloc ::
  "'e mapper \<Rightarrow> u32 \<Rightarrow> u32 \<Rightarrow> u32 \<Rightarrow> 'e heap_state \<Rightarrow> fault + u32 \<times> 'e heap_state" where
  "do_alloc mm header sz data_base h =
     (let b = hs_hdr h header;
          h1 = (if bh_next b = 0 \<or> (bh_size b \<ge> sz + 3 * HEADER_SIZEOF \<and> bh_next b \<noteq> 0)
                then insert_new_block header sz data_base h else h);
          h2 = upd_hdr header (\<lambda>b. b\<lparr>bh_is_hole := False, bh_size := sz + HEADER_SIZEOF\<rparr>) h1
      in if bh_next (hs_hdr h2 header) > hs_end h2 - MAP_CRITICAL_DIST
         then case expand_heap mm header 1 h2 of
                Inl f \<Rightarrow> Inl f
              | Inr (ret, h3) \<Rightarrow> if ret \<noteq> 0 then Inl Panic else Inr (data_base, h3)
         else Inr (data_base, h2))"

definition get_data_base :: "u32 \<Rightarrow> u32" where
  "get_data_base header = header + HEADER_SIZEOF"

text \<open>
  The walk over the hole list: \<open>Inr header\<close> for the first hole that is large enough,
  \<open>Inl last_header\<close> when the list ends, \<open>None\<close> when the walk never ends.
\<close>

partial_function (option) find_hole ::
  "'e heap_state \<Rightarrow> u32 \<Rightarrow> u32 \<Rightarrow> u32 \<Rightarrow> u32 \<Rightarrow> (u32 + u32) option" where
  "find_hole h asize alignment header last_header =
     (if header = 0 then Some (Inl last_header)
      else if bh_is_hole (hs_hdr h header) \<and>
              bh_size (hs_hdr h header) \<ge>
                asize + (align_up (get_data_base header) alignment - header)
      then Some (Inr header)
      else find_hole h asize alignment (bh_next_hole (hs_hdr h header)) header)"

definition kmalloc_align ::
  "'e mapper \<Rightarrow> u32 \<Rightarrow> u32 \<Rightarrow> 'e heap_state \<Rightarrow> fault + u32 \<times> 'e heap_state" where
  "kmalloc_align mm siz alignment0 h =
     (if siz = 0 then Inr (0, h)
      else let alignment = (if alignment0 = 0 then 1 else alignment0);
               asize = align_up siz alignment
           in case find_hole h asize alignment (hs_base_block h) 0 of
                None \<Rightarrow> Inl Diverges
              | Some (Inr header) \<Rightarrow>
                  do_alloc mm header asize (align_up (get_data_base header) alignment) h
              | Some (Inl last_header) \<Rightarrow>
                  (if last_header = 0 then Inl NullDeref
                   else case expand_heap mm last_header
                               (div_align_up asize (PT_SIZE * PAGE_SIZE) * 2) h of
                     Inl f \<Rightarrow> Inl f
                   | Inr (ret, h1) \<Rightarrow>
                       if ret \<noteq> 0 then Inl Panic
                       else do_alloc mm last_header asize (get_data_base 0) h1))"

definition kmalloc :: "'e mapper \<Rightarrow> u32 \<Rightarrow> 'e heap_state \<Rightarrow> fault + u32 \<times> 'e heap_state" where
  "kmalloc mm siz h = kmalloc_align mm siz HEAP_ALIGN h"

text \<open>\<open>memset(p, val, sz)\<close> on the bytes of the blocks.\<close>

definition memset_data :: "u32 \<Rightarrow> u32 \<Rightarrow> u32 \<Rightarrow> 'e heap_state \<Rightarrow> 'e heap_state" where
  "memset_data p val sz h =
     h\<lparr>hs_data := fold (\<lambda>i m. m(p + word_of_nat i := ucast val)) [0..<unat sz] (hs_data h)\<rparr>"

definition kzalloc_align ::
  "'e mapper \<Rightarrow> u32 \<Rightarrow> u32 \<Rightarrow> u32 \<Rightarrow> 'e heap_state \<Rightarrow> fault + u32 \<times> 'e heap_state" where
  "kzalloc_align mm val align sz h =
     (case kmalloc_align mm sz align h of
        Inl f \<Rightarrow> Inl f
      | Inr (ret, h1) \<Rightarrow> if ret = 0 then Inr (ret, h1) else Inr (ret, memset_data ret val sz h1))"

definition kzalloc ::
  "'e mapper \<Rightarrow> u32 \<Rightarrow> u32 \<Rightarrow> 'e heap_state \<Rightarrow> fault + u32 \<times> 'e heap_state" where
  "kzalloc mm val sz h =
     (case kmalloc mm sz h of
        Inl f \<Rightarrow> Inl f
      | Inr (ret, h1) \<Rightarrow> if ret = 0 then Inr (ret, h1) else Inr (ret, memset_data ret val sz h1))"

definition get_block_header_addr :: "u32 \<Rightarrow> u32" where
  "get_block_header_addr addr = addr - HEADER_SIZEOF"

text \<open>
  The search for the predecessor of the freed block in the hole list: it dereferences the null
  pointer when the list ends below the block.
\<close>

partial_function (option) find_prev_hole ::
  "'e heap_state \<Rightarrow> u32 \<Rightarrow> u32 \<Rightarrow> (fault + u32) option" where
  "find_prev_hole h header prev_hole =
     (if prev_hole = 0 then Some (Inl NullDeref)
      else if bh_next_hole (hs_hdr h prev_hole) < header
      then find_prev_hole h header (bh_next_hole (hs_hdr h prev_hole))
      else Some (Inr prev_hole))"

definition merge_next :: "u32 \<Rightarrow> 'e heap_state \<Rightarrow> 'e heap_state" where
  "merge_next header h =
     (let nxt = bh_next (hs_hdr h header) in
      if nxt \<noteq> 0 \<and> bh_is_hole (hs_hdr h nxt)
      then let h1 = upd_hdr header (\<lambda>b. b\<lparr>bh_size := bh_size b + bh_size (hs_hdr h nxt),
                      bh_next_hole := bh_next_hole (hs_hdr h nxt)\<rparr>) h;
               h2 = upd_hdr nxt (\<lambda>b. b\<lparr>bh_magic := 0\<rparr>) h1;
               h3 = (if bh_next (hs_hdr h2 nxt) \<noteq> 0
                     then upd_hdr nxt (\<lambda>b. b\<lparr>bh_prev := header\<rparr>) h2 else h2)
           in upd_hdr header (\<lambda>b. b\<lparr>bh_next := bh_next (hs_hdr h3 nxt)\<rparr>) h3
      else h)"

definition merge_prev :: "u32 \<Rightarrow> 'e heap_state \<Rightarrow> 'e heap_state" where
  "merge_prev header h =
     (let b = hs_hdr h header; prv = bh_prev b in
      if prv \<noteq> 0 \<and> bh_is_hole (hs_hdr h prv)
      then let h1 = upd_hdr prv (\<lambda>p. p\<lparr>bh_next := bh_next b, bh_size := bh_size p + bh_size b,
                      bh_next_hole := bh_next_hole b\<rparr>) h;
               h2 = upd_hdr header (\<lambda>b. b\<lparr>bh_magic := 0\<rparr>) h1
           in if bh_next (hs_hdr h2 header) \<noteq> 0
              then upd_hdr (bh_next (hs_hdr h2 header)) (\<lambda>n. n\<lparr>bh_prev := prv\<rparr>) h2 else h2
      else h)"

definition kfree :: "u32 \<Rightarrow> 'e heap_state \<Rightarrow> fault + 'e heap_state" where
  "kfree addr h =
     (if addr = 0 then Inr h
      else if addr > hs_end h \<or> addr < hs_base_addr h then Inr h
      else let header = get_block_header_addr addr; base = hs_base_block h in
        if bh_magic (hs_hdr h header) \<noteq> BLOCK_HEADER_MAGIC_NUM then Inr h
        else let h1 = upd_hdr header (\<lambda>b. b\<lparr>bh_is_hole := True\<rparr>) h;
                 linked =
                   (if bh_next_hole (hs_hdr h1 base) > header
                    then Some (Inr (upd_hdr base (\<lambda>b. b\<lparr>bh_next_hole := header\<rparr>)
                           (upd_hdr header
                              (\<lambda>b. b\<lparr>bh_next_hole := bh_next_hole (hs_hdr h1 base)\<rparr>) h1)))
                    else case find_prev_hole h1 header base of
                      None \<Rightarrow> None
                    | Some (Inl f) \<Rightarrow> Some (Inl f)
                    | Some (Inr prv) \<Rightarrow>
                        (let h2 = upd_hdr header
                               (\<lambda>b. b\<lparr>bh_next_hole := bh_next_hole (hs_hdr h1 prv)\<rparr>) h1
                         in Some (Inr (upd_hdr prv (\<lambda>b. b\<lparr>bh_next_hole := header\<rparr>) h2))))
             in case linked of
                  None \<Rightarrow> Inl Diverges
                | Some (Inl f) \<Rightarrow> Inl f
                | Some (Inr h3) \<Rightarrow> Inr (merge_prev header (merge_next header h3)))"

definition check_block_size :: "u32 \<Rightarrow> 'e heap_state \<Rightarrow> u32" where
  "check_block_size addr h =
     (if addr = 0 then 0
      else if addr > hs_end h \<or> addr < hs_base_addr h then 0
      else let b = hs_hdr h (get_block_header_addr addr) in
        if bh_magic b \<noteq> BLOCK_HEADER_MAGIC_NUM then 0
        else if bh_is_hole b then 0
        else bh_size b)"

section \<open>Headers\<close>

lemma upd_hdr_simps [simp]:
  "hs_hdr (upd_hdr a f h) x = (if x = a then f (hs_hdr h a) else hs_hdr h x)"
  "hs_base_addr (upd_hdr a f h) = hs_base_addr h"
  "hs_base_block (upd_hdr a f h) = hs_base_block h"
  "hs_end (upd_hdr a f h) = hs_end h"
  "hs_data (upd_hdr a f h) = hs_data h"
  "hs_env (upd_hdr a f h) = hs_env h"
  by (simp_all add: upd_hdr_def)

text \<open>
  Without frees in between, the heap is a stack of allocated blocks below one last hole:
  \<open>hole_top\<close> is the header of that hole. The base block is the hole of an empty heap; later its
  \<open>next_hole\<close> leads to it.
\<close>

definition hole_top :: "'e heap_state \<Rightarrow> u32" where
  "hole_top h = (if bh_is_hole (hs_hdr h (hs_base_block h)) then hs_base_block h
     else bh_next_hole (hs_hdr h (hs_base_block h)))"

definition hole_room :: "'e heap_state \<Rightarrow> nat" where
  "hole_room h = unat (bh_size (hs_hdr h (hole_top h)))"

definition bump_inv :: "'e heap_state \<Rightarrow> bool" where
  "bump_inv h \<longleftrightarrow>
     (let t = hole_top h; b = hs_hdr h t in
      hs_base_block h \<noteq> 0 \<and> hs_base_addr h = hs_base_block h \<and> hs_base_block h \<le> t \<and>
      bh_is_hole b \<and> bh_magic b = BLOCK_HEADER_MAGIC_NUM \<and> bh_next b = 0 \<and>
      (bh_prev b \<noteq> 0 \<longrightarrow> bh_prev b < t \<and> \<not> bh_is_hole (hs_hdr h (bh_prev b))) \<and>
      unat t + hole_room h \<le> unat (hs_end h))"

lemma heap_init_bump:
  assumes "heap_base \<noteq> 0" and "heap_base \<le> map_limit"
  shows "bump_inv (heap_init map_limit heap_base h)"
    and "hole_top (heap_init map_limit heap_base h) = heap_base"
    and "hole_room (heap_init map_limit heap_base h) = unat map_limit - unat heap_base"
    and "hs_end (heap_init map_limit heap_base h) = map_limit"
  using assms by (auto simp: bump_inv_def hole_top_def hole_room_def heap_init_def zero_header_def
      unat_simps word_le_nat_alt Let_def)

section \<open>One allocation\<close>

lemma find_hole_top:
  assumes inv: "bump_inv h"
    and room: "unat (asize + (align_up (get_data_base (hole_top h)) al - hole_top h)) \<le> hole_room h"
  shows "find_hole h asize al (hs_base_block h) 0 = Some (Inr (hole_top h))"
proof (cases "bh_is_hole (hs_hdr h (hs_base_block h))")
  case True
  with inv room show ?thesis
    by (subst find_hole.simps)
      (auto simp: bump_inv_def hole_top_def hole_room_def word_le_nat_alt Let_def)
next
  case False
  then have t: "hole_top h = bh_next_hole (hs_hdr h (hs_base_block h))"
    by (simp add: hole_top_def)
  have "hole_top h \<noteq> 0" using inv by (auto simp: bump_inv_def Let_def)
  with inv room have "find_hole h asize al (hole_top h) (hs_base_block h) = Some (Inr (hole_top h))"
    by (subst find_hole.simps) (auto simp: bump_inv_def hole_room_def word_le_nat_alt Let_def)
  with inv False t show ?thesis
    by (subst find_hole.simps) (simp add: bump_inv_def Let_def)
qed

text \<open>The heap after the last hole gave \<open>sz\<close> bytes at \<open>d\<close>, before a possible growth.\<close>

definition carve :: "u32 \<Rightarrow> u32 \<Rightarrow> 'e heap_state \<Rightarrow> 'e heap_state" where
  "carve sz d h = upd_hdr (hole_top h) (\<lambda>b. b\<lparr>bh_is_hole := False, bh_size := sz + HEADER_SIZEOF\<rparr>)
     (insert_new_block (hole_top h) sz d h)"

lemma carve_simps [simp]:
  "hs_end (carve sz d h) = hs_end h"
  "hs_base_block (carve sz d h) = hs_base_block h"
  "hs_base_addr (carve sz d h) = hs_base_addr h"
  "hs_env (carve sz d h) = hs_env h"
  "hs_data (carve sz d h) = hs_data h"
  by (simp_all add: carve_def insert_new_block_def Let_def)

lemma carve_bump:
  assumes inv: "bump_inv h" and d: "unat (hole_top h) + 32 \<le> unat d" and sz: "0 < unat sz"
    and fits: "unat d + unat sz \<le> unat (hole_top h) + hole_room h"
  defines "h' \<equiv> carve sz d h"
  shows "hole_top h' = d + sz" and "hole_room h' = unat (hs_end h) - unat (d + sz)"
    and "bump_inv h'" and "bh_next (hs_hdr h' (hole_top h)) = d + sz"
    and "bh_prev (hs_hdr h' (d + sz)) = hole_top h"
    and "bh_size (hs_hdr h' (hole_top h)) = sz + HEADER_SIZEOF"
    and "\<not> bh_is_hole (hs_hdr h' (hole_top h))"
    and "bh_magic (hs_hdr h' (hole_top h)) = BLOCK_HEADER_MAGIC_NUM"
    and "bh_prev (hs_hdr h' (hole_top h)) = bh_prev (hs_hdr h (hole_top h))"
proof -
  have le: "unat (hole_top h) + hole_room h \<le> unat (hs_end h)"
    using inv by (simp add: bump_inv_def Let_def)
  then have sum: "unat (d + sz) = unat d + unat sz"
    using fits unat_u32_lt [of "hs_end h"] by (intro unat_u32_add) linarith
  then have gt: "hole_top h < d + sz" using d sz by (simp add: word_less_nat_alt)
  have bs: "hs_base_block h \<le> hole_top h" using inv by (simp add: bump_inv_def Let_def)
  have "unat (hs_end h - d) = unat (hs_end h) - unat d"
    using le fits by (intro unat_u32_sub) linarith
  then have room: "unat (hs_end h - d - sz) = unat (hs_end h) - unat (d + sz)"
    using le fits sum by (simp add: unat_u32_sub)
  have ne: "hole_top h \<noteq> d + sz" "hs_base_block h \<noteq> d + sz" "hs_base_block h < d + sz"
    using gt bs by auto
  have tc: "hs_base_block h = hole_top h \<or>
      (\<not> bh_is_hole (hs_hdr h (hs_base_block h)) \<and>
       bh_next_hole (hs_hdr h (hs_base_block h)) = hole_top h)"
    by (simp add: hole_top_def)
  note inv' = inv [unfolded bump_inv_def Let_def]
  show A: "hole_top h' = d + sz"
    using ne tc inv'
    by (auto simp: h'_def carve_def insert_new_block_def Let_def hole_top_def [of "upd_hdr _ _ _"])
  show B: "hole_room h' = unat (hs_end h) - unat (d + sz)"
    unfolding hole_room_def A using ne room
    by (simp add: h'_def carve_def insert_new_block_def Let_def zero_header_def)
  show P: "bh_prev (hs_hdr h' (d + sz)) = hole_top h"
    using ne by (simp add: h'_def carve_def insert_new_block_def Let_def zero_header_def)
  show N: "\<not> bh_is_hole (hs_hdr h' (hole_top h))"
    using ne by (simp add: h'_def carve_def)
  have "bh_is_hole (hs_hdr h' (d + sz))" "bh_next (hs_hdr h' (d + sz)) = 0"
    "bh_magic (hs_hdr h' (d + sz)) = BLOCK_HEADER_MAGIC_NUM"
    using ne inv' by (auto simp: h'_def carve_def insert_new_block_def Let_def zero_header_def)
  with A B P N ne gt inv' le fits sum show "bump_inv h'"
    by (simp add: bump_inv_def h'_def)
  show "bh_next (hs_hdr h' (hole_top h)) = d + sz"
    "bh_size (hs_hdr h' (hole_top h)) = sz + HEADER_SIZEOF"
    using ne by (simp_all add: h'_def carve_def insert_new_block_def Let_def)
  show "bh_magic (hs_hdr h' (hole_top h)) = BLOCK_HEADER_MAGIC_NUM"
    "bh_prev (hs_hdr h' (hole_top h)) = bh_prev (hs_hdr h (hole_top h))"
    using ne inv' by (auto simp: h'_def carve_def insert_new_block_def Let_def)
qed

text \<open>
  A request that the last hole can serve with some slack: \<open>fits_top\<close> bounds what the two roundings
  of \<open>kmalloc_align\<close> can add. Its data then lies at \<open>top_data\<close> and takes \<open>align_up siz al\<close> bytes.
\<close>

definition fits_top :: "u32 \<Rightarrow> u32 \<Rightarrow> 'e heap_state \<Rightarrow> bool" where
  "fits_top siz al h \<longleftrightarrow> siz \<noteq> 0 \<and> al \<noteq> 0 \<and> unat siz + 2 * unat al + 32 \<le> hole_room h"

definition top_data :: "u32 \<Rightarrow> 'e heap_state \<Rightarrow> u32" where
  "top_data al h = align_up (get_data_base (hole_top h)) al"

lemma top_data_bounds:
  assumes inv: "bump_inv h" and fit: "fits_top siz al h"
  shows "unat (hole_top h) + 32 \<le> unat (top_data al h)"
    and "unat siz \<le> unat (align_up siz al)"
    and "unat (top_data al h) + unat (align_up siz al) < unat (hole_top h) + unat siz + 2 * unat al + 32"
    and "unat (top_data al h) mod unat al = 0"
proof -
  have le: "unat (hole_top h) + hole_room h \<le> unat (hs_end h)"
    using inv by (simp add: bump_inv_def Let_def)
  have al: "0 < unat al" using fit by (simp add: fits_top_def unat_gt_0)
  have sum: "unat (hole_top h) + unat siz + 2 * unat al + 32 < 4294967296"
    using le fit unat_u32_lt [of "hs_end h"] by (simp add: fits_top_def)
  then have db: "unat (get_data_base (hole_top h)) = unat (hole_top h) + 32"
    by (simp add: get_data_base_def unat_u32_add)
  have "unat siz + unat al \<le> 4294967296" "unat (hole_top h) + 32 + unat al \<le> 4294967296"
    using sum by simp_all
  note s = align_up_bounds [OF al this(1)]
    and t = align_up_bounds [OF al, of "get_data_base (hole_top h)", unfolded db, OF this(2)]
  show "unat (hole_top h) + 32 \<le> unat (top_data al h)" "unat siz \<le> unat (align_up siz al)"
    "unat (top_data al h) mod unat al = 0"
    using s t by (simp_all add: top_data_def)
  show "unat (top_data al h) + unat (align_up siz al)
      < unat (hole_top h) + unat siz + 2 * unat al + 32"
    using s(2) t(2) al by (simp add: top_data_def)
qed

lemma kmalloc_align_top:
  assumes inv: "bump_inv h" and fit: "fits_top siz al h"
  shows "kmalloc_align mm siz al h = do_alloc mm (hole_top h) (align_up siz al) (top_data al h) h"
proof -
  note b = top_data_bounds [OF assms]
  have s: "unat (top_data al h - hole_top h) = unat (top_data al h) - unat (hole_top h)"
    using b(1) by (simp add: unat_u32_sub)
  have "unat (top_data al h) + unat (align_up siz al) - unat (hole_top h) \<le> hole_room h"
    using b(3) fit by (simp add: fits_top_def split: nat_diff_split)
  moreover have "hole_room h < 4294967296" by (simp add: hole_room_def unat_u32_lt)
  ultimately have "unat (align_up siz al + (top_data al h - hole_top h)) \<le> hole_room h"
    using b(1) s by (subst unat_u32_add) linarith+
  from find_hole_top [OF inv this [unfolded top_data_def]] show ?thesis
    using fit by (simp add: kmalloc_align_def fits_top_def top_data_def)
qed

lemma do_alloc_top:
  assumes "bump_inv h"
  shows "do_alloc mm (hole_top h) sz d h =
    (let h2 = carve sz d h in
     if bh_next (hs_hdr h2 (hole_top h)) > hs_end h - MAP_CRITICAL_DIST
     then case expand_heap mm (hole_top h) 1 h2 of
            Inl f \<Rightarrow> Inl f
          | Inr (ret, h3) \<Rightarrow> if ret \<noteq> 0 then Inl Panic else Inr (d, h3)
     else Inr (d, h2))"
  using assms by (simp add: do_alloc_def carve_def bump_inv_def Let_def insert_new_block_def)

text \<open>
  The two outcomes of a served request: the heap keeps its end, or the new last hole starts within
  \<open>MAP_CRITICAL_DIST\<close> of it and the heap is grown by one page table.
\<close>

definition roomy :: "u32 \<Rightarrow> 'e heap_state \<Rightarrow> bool" where
  "roomy t h \<longleftrightarrow> unat t + 0x100000 \<le> unat (hs_end h)"

lemma kmalloc_align_carve:
  assumes inv: "bump_inv h" and fit: "fits_top siz al h"
  defines "d \<equiv> top_data al h" and "sz \<equiv> align_up siz al"
  shows "bump_inv (carve sz d h)" and "hole_top (carve sz d h) = d + sz"
    and "unat (d + sz) = unat d + unat sz"
    and "hole_room (carve sz d h) = unat (hs_end h) - unat (d + sz)"
    and "roomy (d + sz) h \<Longrightarrow> kmalloc_align mm siz al h = Inr (d, carve sz d h)"
    and "\<not> roomy (d + sz) h \<Longrightarrow> 0x100000 \<le> unat (hs_end h) \<Longrightarrow>
      kmalloc_align mm siz al h =
        (case expand_heap mm (hole_top h) 1 (carve sz d h) of
           Inl f \<Rightarrow> Inl f
         | Inr (ret, h3) \<Rightarrow> if ret \<noteq> 0 then Inl Panic else Inr (d, h3))"
proof -
  note b = top_data_bounds [OF inv fit, folded d_def sz_def]
  have "0 < unat siz" using fit by (simp add: fits_top_def unat_gt_0)
  then have p: "0 < unat sz" using b(2) by linarith
  have q: "unat d + unat sz \<le> unat (hole_top h) + hole_room h"
    using b(3) fit by (simp add: fits_top_def)
  note c = carve_bump [OF inv b(1) p q]
  show "bump_inv (carve sz d h)" "hole_top (carve sz d h) = d + sz"
    "hole_room (carve sz d h) = unat (hs_end h) - unat (d + sz)" by (fact c)+
  show sum: "unat (d + sz) = unat d + unat sz"
    using q inv unat_u32_lt [of "hs_end h"] by (intro unat_u32_add) (simp add: bump_inv_def Let_def)
  note k = kmalloc_align_top [OF inv fit, of mm, folded d_def sz_def, unfolded do_alloc_top [OF inv]]
  have cr: "unat (hs_end h - MAP_CRITICAL_DIST) = unat (hs_end h) - 0x100000"
    if "0x100000 \<le> unat (hs_end h)" using that by (simp add: unat_u32_sub)
  show "kmalloc_align mm siz al h = Inr (d, carve sz d h)" if "roomy (d + sz) h"
  proof -
    have "\<not> unat (hs_end h) - 0x100000 < unat d + unat sz" "0x100000 \<le> unat (hs_end h)"
      using that sum by (simp_all add: roomy_def)
    with cr sum show ?thesis by (simp add: k c(4) word_less_nat_alt Let_def)
  qed
  show "kmalloc_align mm siz al h =
        (case expand_heap mm (hole_top h) 1 (carve sz d h) of
           Inl f \<Rightarrow> Inl f
         | Inr (ret, h3) \<Rightarrow> if ret \<noteq> 0 then Inl Panic else Inr (d, h3))"
    if "\<not> roomy (d + sz) h" "0x100000 \<le> unat (hs_end h)"
  proof -
    have "unat (hs_end h) - 0x100000 < unat d + unat sz" using that sum by (simp add: roomy_def)
    with cr [OF that(2)] sum show ?thesis by (simp add: k c(4) word_less_nat_alt Let_def)
  qed
qed

section \<open>Sequences of allocations\<close>

text \<open>
  Requests served one after the other: the pointers in order and the last state, or the first fault.
\<close>

fun alloc_seq :: "('r \<Rightarrow> 'h \<Rightarrow> fault + u32 \<times> 'h) \<Rightarrow> 'r list \<Rightarrow> 'h \<Rightarrow> fault + u32 list \<times> 'h" where
  "alloc_seq alloc [] h = Inr ([], h)"
| "alloc_seq alloc (r # rs) h =
     (case alloc r h of
        Inl f \<Rightarrow> Inl f
      | Inr (p, h1) \<Rightarrow> (case alloc_seq alloc rs h1 of Inl f \<Rightarrow> Inl f | Inr (ps, h2) \<Rightarrow> Inr (p # ps, h2)))"

text \<open>
  What an allocator that only moves upwards promises: a valid request within the remaining room is
  served behind everything handed out before, and uses up at most its cost.
\<close>

locale upward_allocator =
  fixes alloc :: "'r \<Rightarrow> 'h \<Rightarrow> fault + u32 \<times> 'h"
    and inv :: "'h \<Rightarrow> bool"
    and low :: "'h \<Rightarrow> nat"
    and room :: "'h \<Rightarrow> nat"
    and valid :: "'r \<Rightarrow> bool"
    and cost :: "'r \<Rightarrow> nat"
    and bytes :: "'r \<Rightarrow> nat"
    and placed :: "'r \<Rightarrow> u32 \<Rightarrow> bool"
  assumes serve: "inv h \<Longrightarrow> valid r \<Longrightarrow> cost r \<le> room h \<Longrightarrow>
    \<exists>p h'. alloc r h = Inr (p, h') \<and> inv h' \<and> placed r p \<and> low h \<le> unat p \<and>
      unat p + bytes r \<le> low h' \<and> low h' + room h' = low h + room h \<and> low h' \<le> low h + cost r"
begin

lemma serve_all:
  assumes "inv h" and "\<forall>r \<in> set rs. valid r" and "sum_list (map cost rs) \<le> room h"
  shows "\<exists>ps h'. alloc_seq alloc rs h = Inr (ps, h') \<and> inv h' \<and>
    list_all2 (\<lambda>r p. placed r p \<and> low h \<le> unat p \<and> unat p + bytes r \<le> low h') rs ps \<and>
    sorted_wrt (\<lambda>(r, p) (r', p'). unat p + bytes r \<le> unat p') (zip rs ps) \<and>
    low h \<le> low h' \<and> low h' + room h' = low h + room h"
  using assms
proof (induction rs arbitrary: h)
  case (Cons r rs)
  then obtain p h1 where a: "alloc r h = Inr (p, h1)" "inv h1" "placed r p" "low h \<le> unat p"
    "unat p + bytes r \<le> low h1" "low h1 + room h1 = low h + room h" "low h1 \<le> low h + cost r"
    using serve [of h r] by auto
  with Cons.prems have "sum_list (map cost rs) \<le> room h1" by simp
  with Cons.IH [OF a(2)] Cons.prems(2) obtain ps h2 where b: "alloc_seq alloc rs h1 = Inr (ps, h2)"
    "inv h2" "list_all2 (\<lambda>r p. placed r p \<and> low h1 \<le> unat p \<and> unat p + bytes r \<le> low h2) rs ps"
    "sorted_wrt (\<lambda>(r, p) (r', p'). unat p + bytes r \<le> unat p') (zip rs ps)"
    "low h1 \<le> low h2" "low h2 + room h2 = low h1 + room h1" by auto
  have "\<forall>(r', p') \<in> set (zip rs ps). unat p + bytes r \<le> unat p'"
    using b(3) a(5) by (fastforce simp: list_all2_iff)
  moreover have "list_all2 (\<lambda>r p. placed r p \<and> low h \<le> unat p \<and> unat p + bytes r \<le> low h2) rs ps"
    using b(3) by (rule list_all2_mono) (use a in auto)
  ultimately show ?case using a b by (intro exI [of _ "p # ps"] exI [of _ h2]) auto
qed simp

end

text \<open>
  The heap keeps this contract up to \<open>MAP_CRITICAL_DIST\<close> bytes before its end, whatever \<open>mmap_pages\<close>
  does: it is not called. \<open>open_heap\<close>: the last hole reaches to the end of the heap.
\<close>

definition open_heap :: "'e heap_state \<Rightarrow> bool" where
  "open_heap h \<longleftrightarrow> bump_inv h \<and> unat (hole_top h) + hole_room h = unat (hs_end h)"

definition heap_low :: "'e heap_state \<Rightarrow> nat" where
  "heap_low h = unat (hole_top h)"

definition heap_room :: "'e heap_state \<Rightarrow> nat" where
  "heap_room h = hole_room h - 0x100000"

fun req_valid :: "u32 \<times> u32 \<Rightarrow> bool" where
  "req_valid (siz, al) \<longleftrightarrow> siz \<noteq> 0 \<and> al \<noteq> 0"

fun req_cost :: "u32 \<times> u32 \<Rightarrow> nat" where
  "req_cost (siz, al) = unat siz + 2 * unat al + 32"

fun req_bytes :: "u32 \<times> u32 \<Rightarrow> nat" where
  "req_bytes (siz, al) = unat siz"

fun req_placed :: "u32 \<times> u32 \<Rightarrow> u32 \<Rightarrow> bool" where
  "req_placed (siz, al) p \<longleftrightarrow> unat p mod unat al = 0"

definition kmalloc_req :: "'e mapper \<Rightarrow> u32 \<times> u32 \<Rightarrow> 'e heap_state \<Rightarrow> fault + u32 \<times> 'e heap_state" where
  "kmalloc_req mm r h = kmalloc_align mm (fst r) (snd r) h"

lemma kmalloc_req_serve:
  assumes inv: "open_heap h" and v: "req_valid r" and c: "req_cost r \<le> heap_room h"
  shows "\<exists>p h'. kmalloc_req mm r h = Inr (p, h') \<and> open_heap h' \<and> req_placed r p \<and>
    heap_low h \<le> unat p \<and> unat p + req_bytes r \<le> heap_low h' \<and>
    heap_low h' + heap_room h' = heap_low h + heap_room h \<and> heap_low h' \<le> heap_low h + req_cost r"
proof -
  obtain siz al where r: "r = (siz, al)" by fastforce
  have bi: "bump_inv h" using inv by (simp add: open_heap_def)
  have fit: "fits_top siz al h" using v c by (simp add: r fits_top_def heap_room_def)
  let ?d = "top_data al h" and ?sz = "align_up siz al"
  note b = top_data_bounds [OF bi fit] and k = kmalloc_align_carve [OF bi fit]
  have e: "unat (hole_top h) + hole_room h = unat (hs_end h)" using inv by (simp add: open_heap_def)
  have lim: "unat (?d + ?sz) + 0x100000 < unat (hs_end h)"
    using b(3) c e v by (simp add: r heap_room_def k(3))
  then have "kmalloc_align mm siz al h = Inr (?d, carve ?sz ?d h)"
    by (intro k(5)) (simp add: roomy_def)
  moreover have "open_heap (carve ?sz ?d h)"
    using k(1,2,4) lim by (simp add: open_heap_def)
  moreover have "0x100000 \<le> hole_room h" using c r v by (simp add: heap_room_def)
  ultimately show ?thesis
    using b k(2-4) lim e by (simp add: r kmalloc_req_def heap_low_def heap_room_def)
qed

lemma memset_data_heap [simp]:
  "hole_top (memset_data p v n h) = hole_top h" "hole_room (memset_data p v n h) = hole_room h"
  "bump_inv (memset_data p v n h) = bump_inv h" "open_heap (memset_data p v n h) = open_heap h"
  "heap_low (memset_data p v n h) = heap_low h" "heap_room (memset_data p v n h) = heap_room h"
  by (simp_all add: hole_top_def hole_room_def bump_inv_def open_heap_def heap_low_def heap_room_def
      memset_data_def Let_def)

interpretation kheap: upward_allocator "kmalloc_req mm" open_heap heap_low heap_room req_valid
  req_cost req_bytes req_placed for mm :: "'e mapper"
  by unfold_locales (rule kmalloc_req_serve)

section \<open>Releasing the last block\<close>

lemma carve_other:
  assumes "x \<noteq> hole_top h" and "x \<noteq> d + sz"
  shows "bh_is_hole (hs_hdr (carve sz d h) x) = bh_is_hole (hs_hdr h x)"
  using assms by (simp add: carve_def insert_new_block_def Let_def)

text \<open>
  The block \<open>T\<close> lies right below the last hole \<open>N\<close>, and its lower neighbour is in use: releasing it
  merges the two into one hole.
\<close>

lemma kfree_below_hole:
  assumes base: "hs_base_block g \<noteq> 0" "hs_base_addr g = hs_base_block g" "hs_base_block g \<le> T"
    and T: "bh_magic (hs_hdr g T) = BLOCK_HEADER_MAGIC_NUM" "bh_next (hs_hdr g T) = N"
      "unat T + 32 \<le> unat (hs_end g)"
    and prv: "bh_prev (hs_hdr g T) \<noteq> 0 \<longrightarrow>
      bh_prev (hs_hdr g T) < T \<and> \<not> bh_is_hole (hs_hdr g (bh_prev (hs_hdr g T)))"
    and N: "T < N" "bh_is_hole (hs_hdr g N)" "bh_next (hs_hdr g N) = 0"
      "bh_next_hole (hs_hdr g (hs_base_block g)) = N"
    and nothole: "\<not> bh_is_hole (hs_hdr g (hs_base_block g))"
    and room: "unat N + unat (bh_size (hs_hdr g N)) = unat (hs_end g)"
      "unat T + unat (bh_size (hs_hdr g T)) = unat N"
  shows "\<exists>g'. kfree (T + 32) g = Inr g' \<and> open_heap g' \<and> hole_top g' = T \<and>
    hs_end g' = hs_end g \<and> hs_env g' = hs_env g"
proof -
  have t32: "unat (T + 32) = unat T + 32"
    using T(3) unat_u32_lt [of "hs_end g"] by (simp add: unat_u32_add)
  have guard: "T + 32 \<noteq> 0" "\<not> T + 32 > hs_end g" "\<not> T + 32 < hs_base_addr g"
    using t32 T(3) base by (auto simp: word_less_nat_alt word_le_nat_alt)
  have ne: "N \<noteq> T" "N \<noteq> 0" "hs_base_block g \<noteq> N"
    using N(1) base(3) by auto
  define g3 where "g3 = upd_hdr (hs_base_block g) (\<lambda>b. b\<lparr>bh_next_hole := T\<rparr>)
     (upd_hdr T (\<lambda>b. b\<lparr>bh_next_hole := N\<rparr>) (upd_hdr T (\<lambda>b. b\<lparr>bh_is_hole := True\<rparr>) g))"
  have k: "kfree (T + 32) g = Inr (merge_prev T (merge_next T g3))"
    using guard T(1) N(1,4) ne
    by (auto simp: kfree_def get_block_header_addr_def g3_def Let_def)
  define g4 where "g4 = merge_next T g3"
  have prv4: "bh_prev (hs_hdr g4 T) = bh_prev (hs_hdr g T)"
    "bh_prev (hs_hdr g T) \<noteq> 0 \<Longrightarrow> \<not> bh_is_hole (hs_hdr g4 (bh_prev (hs_hdr g T)))"
    using ne T(2) N prv by (auto simp: g4_def g3_def merge_next_def Let_def)
  have hdr4: "bh_is_hole (hs_hdr g4 T)" "bh_next (hs_hdr g4 T) = 0"
    "bh_magic (hs_hdr g4 T) = BLOCK_HEADER_MAGIC_NUM"
    "bh_size (hs_hdr g4 T) = bh_size (hs_hdr g T) + bh_size (hs_hdr g N)"
    "hs_base_block g = T \<or> \<not> bh_is_hole (hs_hdr g4 (hs_base_block g)) \<and>
       bh_next_hole (hs_hdr g4 (hs_base_block g)) = T"
    "hs_base_block g4 = hs_base_block g" "hs_base_addr g4 = hs_base_addr g"
    "hs_end g4 = hs_end g" "hs_env g4 = hs_env g"
    using ne T N(2,3) nothole by (auto simp: g4_def g3_def merge_next_def Let_def)
  have "merge_prev T g4 = g4" using prv4 by (auto simp: merge_prev_def Let_def)
  moreover have top: "hole_top g4 = T" using hdr4 by (auto simp: hole_top_def)
  moreover have "unat (bh_size (hs_hdr g4 T)) = unat (bh_size (hs_hdr g T)) + unat (bh_size (hs_hdr g N))"
    unfolding hdr4(4) using room unat_u32_lt [of "hs_end g"] by (intro unat_u32_add) linarith
  then have "unat T + hole_room g4 = unat (hs_end g)" using room by (simp add: hole_room_def top)
  ultimately have "open_heap g4"
    using hdr4 prv prv4 base by (auto simp: open_heap_def bump_inv_def Let_def)
  with k top hdr4 show ?thesis using \<open>merge_prev T g4 = g4\<close> by (auto simp: g4_def)
qed

lemma top_data_16:
  assumes "unat (hole_top h) mod 16 = 0" and "unat (hole_top h) + 48 \<le> 4294967296"
  shows "top_data 16 h = hole_top h + 32"
proof -
  have t: "unat (hole_top h + 32) = unat (hole_top h) + 32"
    using assms(2) by (simp add: unat_u32_add)
  have "(unat (hole_top h) + 32) mod 16 = 0" using assms(1) by presburger
  then have "unat (top_data 16 h) = unat (hole_top h + 32)"
    using t assms(2) unat_align_up [of 16 "hole_top h + 32"]
    by (simp add: top_data_def get_data_base_def)
  then show ?thesis by (simp only: word_unat_eq_iff)
qed

lemma kfree_carve:
  assumes inv: "open_heap h" and sz: "0 < unat sz" and d: "d = hole_top h + 32"
    and fits: "unat d + unat sz \<le> unat (hs_end h)" and t32: "unat (hole_top h) + 32 = unat d"
  shows "\<exists>h''. kfree d (carve sz d h) = Inr h'' \<and> open_heap h'' \<and> hole_top h'' = hole_top h \<and>
    hs_end h'' = hs_end h \<and> check_block_size d (carve sz d h) = sz + 32"
proof -
  let ?T = "hole_top h" and ?g = "carve sz d h"
  have bi: "bump_inv h" and q: "unat d + unat sz \<le> unat ?T + hole_room h"
    using inv fits by (simp_all add: open_heap_def)
  have low: "unat ?T + 32 \<le> unat d" using t32 by simp
  note c = carve_bump [OF bi low sz q]
  have ds: "unat (d + sz) = unat d + unat sz" "unat (sz + 32) = unat sz + 32"
    using fits t32 unat_u32_lt [of "hs_end h"] by (simp_all add: unat_u32_add)
  have gt: "?T < d + sz" using t32 ds by (simp add: word_less_nat_alt)
  have bb: "hs_base_block h \<noteq> 0" "hs_base_addr h = hs_base_block h" "hs_base_block h \<le> ?T"
    "bh_prev (hs_hdr h ?T) \<noteq> 0 \<longrightarrow> bh_prev (hs_hdr h ?T) < ?T \<and>
      \<not> bh_is_hole (hs_hdr h (bh_prev (hs_hdr h ?T)))"
    using bi by (simp_all add: bump_inv_def Let_def)
  have prv: "bh_prev (hs_hdr ?g ?T) \<noteq> 0 \<longrightarrow> bh_prev (hs_hdr ?g ?T) < ?T \<and>
      \<not> bh_is_hole (hs_hdr ?g (bh_prev (hs_hdr ?g ?T)))"
    unfolding c(9) using bb(4) gt carve_other [of "bh_prev (hs_hdr h ?T)" h d sz] by force
  have nh: "\<not> bh_is_hole (hs_hdr ?g (hs_base_block ?g))"
    using c(1,7) gt bb(3) by (auto simp: hole_top_def split: if_splits)
  with c(1) have nx: "bh_next_hole (hs_hdr ?g (hs_base_block ?g)) = d + sz"
    by (simp add: hole_top_def)
  have N: "bh_is_hole (hs_hdr ?g (d + sz))" "bh_next (hs_hdr ?g (d + sz)) = 0"
    using c(3) by (simp_all add: bump_inv_def c(1) Let_def)
  have room1: "unat (d + sz) + unat (bh_size (hs_hdr ?g (d + sz))) = unat (hs_end ?g)"
    using c(2) [unfolded hole_room_def c(1)] fits ds by simp
  have room2: "unat ?T + unat (bh_size (hs_hdr ?g ?T)) = unat (d + sz)"
    unfolding c(6) ds using t32 by simp
  have "unat ?T + 32 \<le> unat (hs_end ?g)" using fits t32 by simp
  from kfree_below_hole [of ?g ?T, OF _ _ _ c(8,4) this prv gt N nx nh room1 room2] bb
  obtain h'' where f: "kfree (?T + 32) ?g = Inr h''" "open_heap h''" "hole_top h'' = ?T"
    "hs_end h'' = hs_end h" by auto
  have "d \<noteq> 0" "\<not> d > hs_end h" "\<not> d < hs_base_block h"
    using t32 fits bb(3) by (auto simp: word_less_nat_alt word_le_nat_alt)
  then have "check_block_size d ?g = sz + 32"
    using bb(2) c(6-8) d by (simp add: check_block_size_def get_block_header_addr_def Let_def)
  then show ?thesis using f d by auto
qed

section \<open>Concrete heaps\<close>

text \<open>A heap of 4 MB, for the witnesses and the counterexamples; \<open>mm_ok\<close> maps without any effect.\<close>

definition blank_heap :: "unit heap_state" where
  "blank_heap = \<lparr>hs_base_addr = 0, hs_base_block = 0, hs_end = 0, hs_hdr = (\<lambda>_. zero_header),
     hs_data = (\<lambda>_. 0), hs_env = ()\<rparr>"

definition heap_4mb :: "unit heap_state" where
  "heap_4mb = heap_init 0xC0C00000 0xC0800000 blank_heap"

definition mm_ok :: "unit mapper" where
  "mm_ok a n h = Inr (0, h)"

declare find_hole.simps [code] find_prev_hole.simps [code]

lemma heap_4mb_open: "open_heap heap_4mb" "heap_room heap_4mb = 0x300000"
  using heap_init_bump [of "0xC0800000" "0xC0C00000" blank_heap]
  by (simp_all add: heap_4mb_def open_heap_def heap_room_def word_le_nat_alt)

section \<open>Properties\<close>

text \<open>
  C1. Any sequence of \<open>kmalloc_align\<close> requests on a freshly initialised heap is served as long as
  their sizes, with 32 bytes and two alignments for each, stay 1 MB below the end of the heap: every
  pointer is aligned, every block lies between the first header and the end, and each block ends
  before the next one begins. \<open>mmap_pages\<close> is not needed for this, so nothing is assumed of it.
\<close>

theorem kmalloc_sequence_disjoint:
  assumes "heap_base \<noteq> 0" and "\<forall>r \<in> set rs. req_valid r"
    and "unat heap_base + sum_list (map req_cost rs) + 0x100000 \<le> unat map_limit"
  shows "\<exists>ps h'. alloc_seq (kmalloc_req mm) rs (heap_init map_limit heap_base h) = Inr (ps, h') \<and>
    list_all2 (\<lambda>(siz, al) p. unat p mod unat al = 0 \<and> unat heap_base \<le> unat p \<and>
      unat p + unat siz + 0x100000 \<le> unat map_limit) rs ps \<and>
    sorted_wrt (\<lambda>((siz, al), p) (_, p'). unat p + unat siz \<le> unat p') (zip rs ps) \<and> open_heap h'"
proof -
  let ?h = "heap_init map_limit heap_base h"
  have "heap_base \<le> map_limit" using assms(3) by (simp add: word_le_nat_alt)
  note i = heap_init_bump [OF assms(1) this, of h]
  have op: "open_heap ?h" "heap_low ?h = unat heap_base"
    "heap_room ?h = unat map_limit - unat heap_base - 0x100000"
    using i assms(3) by (simp_all add: open_heap_def heap_low_def heap_room_def)
  have "sum_list (map req_cost rs) \<le> heap_room ?h" using assms(3) op(3) by simp
  from kheap.serve_all [OF op(1) assms(2) this, of mm] obtain ps h' where
    r: "alloc_seq (kmalloc_req mm) rs ?h = Inr (ps, h')" "open_heap h'"
      "list_all2 (\<lambda>r p. req_placed r p \<and> heap_low ?h \<le> unat p \<and> unat p + req_bytes r \<le> heap_low h') rs ps"
      "sorted_wrt (\<lambda>(r, p) (r', p'). unat p + req_bytes r \<le> unat p') (zip rs ps)"
      "heap_low h' + heap_room h' = heap_low ?h + heap_room ?h" by blast
  have "heap_low h' + 0x100000 \<le> unat map_limit" using r(5) op assms(3) by simp
  then have "list_all2 (\<lambda>(siz, al) p. unat p mod unat al = 0 \<and> unat heap_base \<le> unat p \<and>
      unat p + unat siz + 0x100000 \<le> unat map_limit) rs ps"
    using r(3) op(2) by (auto elim!: list_all2_mono)
  moreover have "sorted_wrt (\<lambda>((siz, al), p) (_, p'). unat p + unat siz \<le> unat p') (zip rs ps)"
    using r(4) by (rule sorted_wrt_mono_rel [rotated]) auto
  ultimately show ?thesis using r(1,2) by blast
qed

theorem kmalloc_sequence_disjoint_witness:
  "\<exists>ps h'. alloc_seq (kmalloc_req mm_ok) [(1000, 16), (4096, 4096), (3, 1)] heap_4mb = Inr (ps, h') \<and>
    sorted_wrt (\<lambda>((siz, al), p) (_, p'). unat p + unat siz \<le> unat p')
      (zip [(1000 :: u32, 16 :: u32), (4096, 4096), (3, 1)] ps)"
  using kmalloc_sequence_disjoint [of "0xC0800000" "[(1000, 16), (4096, 4096), (3, 1)]" "0xC0C00000"
      mm_ok blank_heap]
  by (auto simp: heap_4mb_def)

text \<open>An allocation and its release: the heap is as open as before.\<close>

lemma kmalloc_kfree_open:
  assumes inv: "open_heap h" and siz: "siz \<noteq> 0"
    and fit: "unat siz + 64 \<le> heap_room h" and al: "unat (hole_top h) mod 16 = 0"
  shows "\<exists>p h' h''. kmalloc mm siz h = Inr (p, h') \<and> p = hole_top h + 32 \<and> p \<noteq> 0 \<and>
    check_block_size p h' = align_up siz 16 + 32 \<and>
    kfree p h' = Inr h'' \<and> open_heap h'' \<and> hole_top h'' = hole_top h \<and>
    hole_room h'' = hole_room h \<and> hs_end h'' = hs_end h"
proof -
  have bi: "bump_inv h" and e: "unat (hole_top h) + hole_room h = unat (hs_end h)"
    using inv by (simp_all add: open_heap_def)
  have ft: "fits_top siz 16 h" using siz fit by (simp add: fits_top_def heap_room_def)
  let ?d = "top_data 16 h" and ?sz = "align_up siz 16" and ?T = "hole_top h"
  note b = top_data_bounds [OF bi ft] and k = kmalloc_align_carve [OF bi ft]
  have r: "unat siz + 64 + 0x100000 \<le> hole_room h" using fit by (simp add: heap_room_def)
  have d: "?d = ?T + 32" using r e al unat_u32_lt [of "hs_end h"] by (intro top_data_16) simp_all
  have lim: "unat (?d + ?sz) + 0x100000 < unat (hs_end h)"
    using b(3) r e by (simp add: k(3))
  then have km: "kmalloc mm siz h = Inr (?d, carve ?sz ?d h)"
    unfolding kmalloc_def by (intro k(5)) (simp add: roomy_def)
  have "0 < unat siz" using siz by (simp add: unat_gt_0)
  then have "0 < unat ?sz" using b(2) by linarith
  moreover have td: "unat ?T + 32 = unat ?d"
    unfolding d using r e unat_u32_lt [of "hs_end h"] by (simp add: unat_u32_add)
  ultimately obtain h'' where
    f: "kfree ?d (carve ?sz ?d h) = Inr h''" "open_heap h''" "hole_top h'' = ?T" "hs_end h'' = hs_end h"
      "check_block_size ?d (carve ?sz ?d h) = ?sz + 32"
    using kfree_carve [OF inv _ d, of ?sz] lim k(3) by auto
  have "hole_room h'' = hole_room h" using f(2-4) e by (simp add: open_heap_def)
  moreover have "?d \<noteq> 0" using td by auto
  ultimately show ?thesis using km f d by auto
qed

text \<open>
  C26. Releasing the block that was allocated last undoes the allocation: \<open>kfree\<close> finds its header,
  merges it with the hole behind it, and the heap can hand out the same bytes again. Until then
  \<open>check_block_size\<close> reports the rounded size and the header.
\<close>

theorem kmalloc_kfree_lifo:
  assumes inv: "open_heap h" and siz: "siz \<noteq> 0"
    and fit: "unat siz + 64 \<le> heap_room h" and al: "unat (hole_top h) mod 16 = 0"
  shows "\<exists>p h' h''. kmalloc mm siz h = Inr (p, h') \<and> p = hole_top h + 32 \<and>
    check_block_size p h' = align_up siz 16 + 32 \<and>
    kfree p h' = Inr h'' \<and> open_heap h'' \<and> hole_top h'' = hole_top h \<and>
    hole_room h'' = hole_room h \<and> hs_end h'' = hs_end h"
  using kmalloc_kfree_open [OF assms] by blast

theorem kmalloc_kfree_lifo_witness:
  "\<exists>h' h''. kmalloc mm_ok 100 heap_4mb = Inr (0xC0800020, h') \<and> kfree 0xC0800020 h' = Inr h'' \<and>
    hole_room h'' = hole_room heap_4mb"
  using kmalloc_kfree_lifo [OF heap_4mb_open(1), of 100 mm_ok]
  by (auto simp: heap_4mb_open(2)) (auto simp: heap_4mb_def heap_init_bump word_le_nat_alt)

section \<open>Where the heap fails\<close>

text \<open>A walk that enters a closed set of unsuitable headers never leaves it.\<close>

lemma find_hole_cycle:
  assumes S: "\<forall>x \<in> S. x \<noteq> 0 \<and> bh_next_hole (hs_hdr h x) \<in> S \<and>
      \<not> (bh_is_hole (hs_hdr h x) \<and>
         bh_size (hs_hdr h x) \<ge> asize + (align_up (get_data_base x) al - x))"
    and "x \<in> S"
  shows "find_hole h asize al x l = None"
proof (cases "find_hole h asize al x l")
  case (Some r)
  let ?P = "\<lambda>h' asize' al' x l r. h' = h \<and> asize' = asize \<and> al' = al \<longrightarrow> x \<notin> S"
  have "?P h asize al x l r"
  proof (rule find_hole.raw_induct [of ?P, OF _ Some], rule impI, elim conjE)
    fix f h' asize' al' y l' r'
    assume IH: "\<And>h' asize' al' y l' r'. f h' asize' al' y l' = Some r' \<Longrightarrow> ?P h' asize' al' y l' r'"
      and eqs: "h' = h" "asize' = asize" "al' = al"
      and step: "(if y = 0 then Some (Inl l')
        else if bh_is_hole (hs_hdr h' y) \<and>
                bh_size (hs_hdr h' y) \<ge> asize' + (align_up (get_data_base y) al' - y)
        then Some (Inr y) else f h' asize' al' (bh_next_hole (hs_hdr h' y)) y) = Some r'"
    show "y \<notin> S"
    proof
      assume "y \<in> S"
      with S step eqs have "f h asize al (bh_next_hole (hs_hdr h y)) y = Some r'"
        "bh_next_hole (hs_hdr h y) \<in> S" by (auto split: if_splits)
      with IH show False by blast
    qed
  qed
  with assms(2) show ?thesis by simp
qed simp

text \<open>
  The walk over the hole list never ends once a block was allocated and the request does not fit
  the remaining hole: after \<open>kmalloc(16)\<close> on a heap of 4 MB a request for 16 MB does not return,
  although the code meant to grow the heap for it. The first allocation makes the \<open>next_hole\<close> of the
  new hole point to the hole itself.
\<close>

lemma kmalloc_too_large_diverges:
  "\<exists>h1. kmalloc mm_ok 16 heap_4mb = Inr (0xC0800020, h1) \<and>
     bh_next_hole (hs_hdr h1 0xC0800030) = 0xC0800030 \<and> kmalloc mm_ok 0x1000000 h1 = Inl Diverges"
proof -
  obtain h1 where h1: "kmalloc mm_ok 16 heap_4mb = Inr (0xC0800020, h1)"
    "bh_next_hole (hs_hdr h1 0xC0800030) = 0xC0800030"
    "bh_next_hole (hs_hdr h1 0xC0800000) = 0xC0800030" "\<not> bh_is_hole (hs_hdr h1 0xC0800000)"
    "bh_size (hs_hdr h1 0xC0800030) = 0x3FFFD0" "hs_base_block h1 = 0xC0800000"
  proof -
    have "case kmalloc mm_ok 16 heap_4mb of Inl _ \<Rightarrow> False | Inr (p, h1) \<Rightarrow>
       p = 0xC0800020 \<and> bh_next_hole (hs_hdr h1 0xC0800030) = 0xC0800030 \<and>
       bh_next_hole (hs_hdr h1 0xC0800000) = 0xC0800030 \<and> \<not> bh_is_hole (hs_hdr h1 0xC0800000) \<and>
       bh_size (hs_hdr h1 0xC0800030) = 0x3FFFD0 \<and> hs_base_block h1 = 0xC0800000" by code_simp
    then show ?thesis using that by (auto split: sum.splits)
  qed
  have "find_hole h1 0x1000000 16 0xC0800000 0 = None"
    by (rule find_hole_cycle [of "{0xC0800000, 0xC0800030}"])
      (simp_all add: h1 align_up_def get_data_base_def word_le_nat_alt)
  then have "kmalloc mm_ok 0x1000000 h1 = Inl Diverges"
    by (simp add: kmalloc_def kmalloc_align_def h1 align_up_def)
  with h1 show ?thesis by blast
qed

text \<open>
  Splitting a hole in the middle of the heap gives the rest of it a size that reaches to the end of
  the heap, so a later block is laid over a live one: after \<open>p1 = kmalloc(1000)\<close>, \<open>p2 = kmalloc(1000)\<close>,
  \<open>kfree(p1)\<close> and \<open>kmalloc(100)\<close>, the pointer \<open>p4\<close> of \<open>kmalloc(2000)\<close> is below \<open>p2\<close> and its
  2000 bytes cover the header and the data of \<open>p2\<close>.
\<close>

theorem kmalloc_split_overlap:
  "case kmalloc mm_ok 1000 heap_4mb of Inl _ \<Rightarrow> False | Inr (p1, h1) \<Rightarrow>
   (case kmalloc mm_ok 1000 h1 of Inl _ \<Rightarrow> False | Inr (p2, h2) \<Rightarrow>
   (case kfree p1 h2 of Inl _ \<Rightarrow> False | Inr h3 \<Rightarrow>
   (case kmalloc mm_ok 100 h3 of Inl _ \<Rightarrow> False | Inr (p3, h4) \<Rightarrow>
   (case kmalloc mm_ok 2000 h4 of Inl _ \<Rightarrow> False | Inr (p4, h5) \<Rightarrow>
      p4 + 32 < p2 \<and> p2 + 1000 < p4 + 2000))))"
  by code_simp

text \<open>
  A first request that does not fit the fresh heap grows it and then returns the pointer 32: the
  data address is computed from the null pointer the walk ended with.
\<close>

theorem kmalloc_first_too_large:
  "\<exists>h'. kmalloc mm_ok 0x800000 heap_4mb = Inr (32, h')"
proof -
  have "case kmalloc mm_ok 0x800000 heap_4mb of Inl _ \<Rightarrow> False | Inr (p, h') \<Rightarrow> p = 32"
    by code_simp
  then show ?thesis by (auto split: sum.splits)
qed

text \<open>
  A page-aligned block is never released: its data does not lie right behind its header, and the
  bytes before the data carry no magic number.
\<close>

lemma kfree_page_aligned_noop:
  "case kmalloc_align mm_ok 4096 4096 heap_4mb of Inl _ \<Rightarrow> False | Inr (p, h1) \<Rightarrow>
     (case kfree p h1 of Inl _ \<Rightarrow> False | Inr h2 \<Rightarrow>
        p = 0xC0801000 \<and> \<not> bh_is_hole (hs_hdr h2 0xC0800000) \<and> hole_top h2 = hole_top h1)"
  by code_simp

end
