(* ===== verification/Slab_Alloc.thy ===== *)
theory Slab_Alloc
  imports Kernel_Heap "HOL-Library.Multiset"
begin

text \<open>
  The slab allocator, \<open>src/mem/slav_allocator.c\<close>. A cache keeps three doubly linked lists of slabs,
  whose heads are embedded in the cache; a slab holds 16 objects, each with a \<open>struct slab_chunk\<close>
  that links it into the free list of its slab. All of these are objects in memory that point to each
  other, so the state is a store with one partition per type, addressed by 32-bit pointers:
  \<open>sw_chunk\<close>, \<open>sw_slab\<close> and \<open>sw_cache\<close>. Embedded objects have the address of their place:
  \<open>slab->base_chunk\<close> is the chunk at offset 16 of the slab, the list heads are the slabs at offsets 8,
  48 and 88 of the cache. The memory comes from the kernel heap \<open>sw_heap\<close>.
\<close>

section \<open>State\<close>

record slab_chunk =
  ch_next :: u32
  ch_next_free :: u32
  ch_prev_free :: u32
  ch_slab :: u32
  ch_data_addr :: u32

record slab =
  sl_size :: u32
  sl_num_free :: u32
  sl_next :: u32
  sl_prev :: u32
  sl_chunks :: u32

record slab_cache =
  sc_next :: u32
  sc_prev :: u32
  sc_size :: u32
  sc_alignment :: u32

record 'e slab_world =
  sw_chunk :: "u32 \<Rightarrow> slab_chunk"
  sw_slab :: "u32 \<Rightarrow> slab"
  sw_cache :: "u32 \<Rightarrow> slab_cache"
  sw_caches :: u32
  sw_heap :: "'e heap_state"

abbreviation SLAB_CAPACITY :: u32 where "SLAB_CAPACITY \<equiv> 16"
abbreviation CHUNK_SIZEOF :: u32 where "CHUNK_SIZEOF \<equiv> 20"
abbreviation SLAB_SIZEOF :: u32 where "SLAB_SIZEOF \<equiv> 40"
abbreviation CACHE_SIZEOF :: u32 where "CACHE_SIZEOF \<equiv> 136"

abbreviation base_chunk :: "u32 \<Rightarrow> u32" where "base_chunk s \<equiv> s + 16"
abbreviation slabs_free :: "u32 \<Rightarrow> u32" where "slabs_free c \<equiv> c + 8"
abbreviation slabs_full :: "u32 \<Rightarrow> u32" where "slabs_full c \<equiv> c + 48"
abbreviation slabs_partial :: "u32 \<Rightarrow> u32" where "slabs_partial c \<equiv> c + 88"

definition upd_chunk :: "u32 \<Rightarrow> (slab_chunk \<Rightarrow> slab_chunk) \<Rightarrow> 'e slab_world \<Rightarrow> 'e slab_world" where
  "upd_chunk a f w = w\<lparr>sw_chunk := (sw_chunk w)(a := f (sw_chunk w a))\<rparr>"

definition upd_slab :: "u32 \<Rightarrow> (slab \<Rightarrow> slab) \<Rightarrow> 'e slab_world \<Rightarrow> 'e slab_world" where
  "upd_slab a f w = w\<lparr>sw_slab := (sw_slab w)(a := f (sw_slab w a))\<rparr>"

definition upd_cache :: "u32 \<Rightarrow> (slab_cache \<Rightarrow> slab_cache) \<Rightarrow> 'e slab_world \<Rightarrow> 'e slab_world" where
  "upd_cache a f w = w\<lparr>sw_cache := (sw_cache w)(a := f (sw_cache w a))\<rparr>"

section \<open>Lists of slabs\<close>

definition slab_remove_from_cache :: "u32 \<Rightarrow> 'e slab_world \<Rightarrow> fault + int \<times> 'e slab_world" where
  "slab_remove_from_cache s w =
     (if s = 0 then Inr (EINVAL, w)
      else let nxt = sl_next (sw_slab w s); prv = sl_prev (sw_slab w s);
               w1 = (if nxt \<noteq> 0 then upd_slab nxt (\<lambda>b. b\<lparr>sl_prev := prv\<rparr>) w else w)
           in if prv = 0 then Inl NullDeref
              else Inr (0, upd_slab prv (\<lambda>b. b\<lparr>sl_next := nxt\<rparr>) w1))"

definition slab_insert_in_cache :: "u32 \<Rightarrow> u32 \<Rightarrow> 'e slab_world \<Rightarrow> int \<times> 'e slab_world" where
  "slab_insert_in_cache slab_list s w =
     (if slab_list = 0 then (EINVAL, w)
      else let nxt = sl_next (sw_slab w slab_list);
               w1 = upd_slab slab_list (\<lambda>b. b\<lparr>sl_next := s\<rparr>) w;
               w2 = upd_slab s (\<lambda>b. b\<lparr>sl_prev := slab_list, sl_next := nxt\<rparr>) w1;
               w3 = (if nxt \<noteq> 0 then upd_slab nxt (\<lambda>b. b\<lparr>sl_prev := s\<rparr>) w2 else w2)
           in (0, w3))"

section \<open>New slabs\<close>

text \<open>\<open>cur_chunk\<close> points to a pointer to a chunk: to \<open>new_slab->chunks\<close> first, then to \<open>ch->next\<close>.\<close>

datatype chunk_link = SlabChunks u32 | ChunkNext u32

fun get_link :: "chunk_link \<Rightarrow> 'e slab_world \<Rightarrow> u32" where
  "get_link (SlabChunks s) w = sl_chunks (sw_slab w s)"
| "get_link (ChunkNext c) w = ch_next (sw_chunk w c)"

fun set_link :: "chunk_link \<Rightarrow> u32 \<Rightarrow> 'e slab_world \<Rightarrow> 'e slab_world" where
  "set_link (SlabChunks s) a w = upd_slab s (\<lambda>b. b\<lparr>sl_chunks := a\<rparr>) w"
| "set_link (ChunkNext c) a w = upd_chunk c (\<lambda>b. b\<lparr>ch_next := a\<rparr>) w"

fun slab_init_chunks ::
  "u32 \<Rightarrow> u32 \<Rightarrow> u32 \<Rightarrow> u32 \<Rightarrow> u32 \<Rightarrow> nat list \<Rightarrow> chunk_link \<Rightarrow> u32 \<Rightarrow> 'e slab_world \<Rightarrow> 'e slab_world"
where
  "slab_init_chunks align chunks_addr slab_data meta new_slab [] cur_chunk prev_chunk w = w"
| "slab_init_chunks align chunks_addr slab_data meta new_slab (i # is) cur_chunk prev_chunk w =
     (if align \<noteq> 0
      then let chunk_addr = chunks_addr + word_of_nat i * CHUNK_SIZEOF;
               w1 = set_link cur_chunk chunk_addr w;
               ch = get_link cur_chunk w1;
               w2 = upd_chunk ch (\<lambda>b. b\<lparr>ch_data_addr := slab_data + word_of_nat i * meta,
                      ch_next := chunk_addr + CHUNK_SIZEOF,
                      ch_next_free := chunk_addr + CHUNK_SIZEOF,
                      ch_prev_free := prev_chunk, ch_slab := new_slab\<rparr>) w1
           in slab_init_chunks align chunks_addr slab_data meta new_slab is (ChunkNext ch)
                (get_link cur_chunk w2) w2
      else let chunk_addr = chunks_addr + word_of_nat i * meta;
               w1 = (if get_link cur_chunk w = 0 then set_link cur_chunk chunk_addr w else w);
               ch = get_link cur_chunk w1;
               w2 = upd_chunk ch (\<lambda>b. b\<lparr>ch_data_addr := chunk_addr + CHUNK_SIZEOF,
                      ch_next := chunk_addr + meta, ch_next_free := chunk_addr + meta,
                      ch_prev_free := prev_chunk, ch_slab := new_slab\<rparr>) w1
           in slab_init_chunks align chunks_addr slab_data meta new_slab is (ChunkNext ch)
                (get_link cur_chunk w2) w2)"

text \<open>What follows the two allocations: fill in the new slab and put it on the list of free slabs.\<close>

definition slab_setup :: "u32 \<Rightarrow> u32 \<Rightarrow> u32 \<Rightarrow> u32 \<Rightarrow> u32 \<Rightarrow> 'e slab_world \<Rightarrow> 'e slab_world" where
  "slab_setup cache align new_slab slab_data chunk_meta_size w =
     (let slab_chunks_addr = new_slab + SLAB_SIZEOF;
          w1 = upd_slab new_slab (\<lambda>b. b\<lparr>sl_chunks := slab_chunks_addr\<rparr>) w;
          w2 = slab_init_chunks align slab_chunks_addr slab_data chunk_meta_size new_slab [0..<16]
                 (SlabChunks new_slab) (base_chunk new_slab) w1;
          w3 = upd_slab new_slab (\<lambda>b. b\<lparr>sl_size := chunk_meta_size, sl_num_free := SLAB_CAPACITY,
                 sl_next := 0, sl_prev := 0\<rparr>) w2;
          chunks = sl_chunks (sw_slab w3 new_slab);
          w4 = upd_chunk (base_chunk new_slab) (\<lambda>b. b\<lparr>ch_data_addr := 0, ch_slab := new_slab,
                 ch_next := chunks, ch_next_free := chunks, ch_prev_free := 0\<rparr>) w3
      in snd (slab_insert_in_cache (slabs_free cache) new_slab w4))"

definition slab_alloc_slab_align ::
  "'e mapper \<Rightarrow> u32 \<Rightarrow> u32 \<Rightarrow> 'e slab_world \<Rightarrow> fault + int \<times> 'e slab_world" where
  "slab_alloc_slab_align mm cache align w =
     (let csize = sc_size (sw_cache w cache) in
      if align \<noteq> 0
      then bindE (kmalloc mm (SLAB_SIZEOF + (SLAB_CAPACITY + 1) * CHUNK_SIZEOF) (sw_heap w))
        (\<lambda>(new_slab, h1). bindE (kmalloc_align mm (SLAB_CAPACITY * csize) align h1)
        (\<lambda>(slab_data, h2).
           if new_slab = 0 then Inl NullDeref
           else Inr (0, slab_setup cache align new_slab slab_data csize (w\<lparr>sw_heap := h2\<rparr>))))
      else let meta = csize + CHUNK_SIZEOF in
        bindE (kmalloc mm (SLAB_SIZEOF + ((SLAB_CAPACITY + 1) * meta - csize)) (sw_heap w))
        (\<lambda>(new_slab, h1).
           if new_slab = 0 then Inl NullDeref
           else Inr (0, slab_setup cache align new_slab 0 meta (w\<lparr>sw_heap := h1\<rparr>))))"

section \<open>Caches\<close>

definition zero_chunk :: slab_chunk where
  "zero_chunk = \<lparr>ch_next = 0, ch_next_free = 0, ch_prev_free = 0, ch_slab = 0, ch_data_addr = 0\<rparr>"

definition zero_slab :: slab where
  "zero_slab = \<lparr>sl_size = 0, sl_num_free = 0, sl_next = 0, sl_prev = 0, sl_chunks = 0\<rparr>"

text \<open>\<open>kzalloc(0, sizeof(*caches))\<close> leaves the cache and the three embedded slabs zeroed.\<close>

definition zero_cache_at :: "u32 \<Rightarrow> 'e slab_world \<Rightarrow> 'e slab_world" where
  "zero_cache_at c w =
     fold (\<lambda>s w. upd_chunk (base_chunk s) (\<lambda>_. zero_chunk) (upd_slab s (\<lambda>_. zero_slab) w))
       [slabs_free c, slabs_full c, slabs_partial c]
       (upd_cache c (\<lambda>_. \<lparr>sc_next = 0, sc_prev = 0, sc_size = 0, sc_alignment = 0\<rparr>) w)"

definition slab_cache_create_align ::
  "'e mapper \<Rightarrow> u32 \<Rightarrow> u32 \<Rightarrow> 'e slab_world \<Rightarrow> fault + u32 \<times> 'e slab_world" where
  "slab_cache_create_align mm siz alignment w =
     (let next_cache = sw_caches w in
      bindE (kzalloc mm 0 CACHE_SIZEOF (sw_heap w))
      (\<lambda>(c, h1). if c = 0 then Inl NullDeref else
        let w1 = (zero_cache_at c (w\<lparr>sw_heap := h1\<rparr>))\<lparr>sw_caches := c\<rparr>;
            w2 = upd_cache c (\<lambda>b. b\<lparr>sc_next := next_cache\<rparr>) w1;
            w3 = (if next_cache \<noteq> 0 then upd_cache next_cache (\<lambda>b. b\<lparr>sc_prev := c\<rparr>) w2 else w2);
            w4 = upd_cache c (\<lambda>b. b\<lparr>sc_size := (if alignment \<noteq> 0 then align_up siz alignment else siz),
                   sc_alignment := alignment\<rparr>) w3
        in bindE (slab_alloc_slab_align mm c alignment w4) (\<lambda>(_, w5). Inr (sw_caches w5, w5))))"

definition slab_cache_create ::
  "'e mapper \<Rightarrow> u32 \<Rightarrow> 'e slab_world \<Rightarrow> fault + u32 \<times> 'e slab_world" where
  "slab_cache_create mm siz w = slab_cache_create_align mm siz 0 w"

text \<open>
  \<open>slab_destroy_slab\<close> reads the chunk pointer of a slab after the slab was freed; \<open>kfree\<close> changes
  block headers only, so the old value is read. \<open>None\<close>: the list of slabs is a cycle.
\<close>

partial_function (option) slab_destroy_slab ::
  "u32 \<Rightarrow> u32 \<Rightarrow> 'e slab_world \<Rightarrow> (fault + 'e slab_world) option" where
  "slab_destroy_slab cache slabs w =
     (if slabs = 0 then Some (Inr w)
      else let nxt = sl_next (sw_slab w slabs) in
        case kfree slabs (sw_heap w) of
          Inl f \<Rightarrow> Some (Inl f)
        | Inr h1 \<Rightarrow>
            if sc_alignment (sw_cache w cache) \<noteq> 0
            then case kfree (ch_data_addr (sw_chunk w (sl_chunks (sw_slab w slabs)))) h1 of
                Inl f \<Rightarrow> Some (Inl f)
              | Inr h2 \<Rightarrow> slab_destroy_slab cache nxt (w\<lparr>sw_heap := h2\<rparr>)
            else slab_destroy_slab cache nxt (w\<lparr>sw_heap := h1\<rparr>))"

definition slab_destroy ::
  "u32 \<Rightarrow> u32 \<Rightarrow> 'e slab_world \<Rightarrow> fault + 'e slab_world" where
  "slab_destroy cache slabs w =
     (case slab_destroy_slab cache slabs w of None \<Rightarrow> Inl Diverges | Some r \<Rightarrow> r)"

definition slab_cache_destroy :: "u32 \<Rightarrow> 'e slab_world \<Rightarrow> fault + 'e slab_world" where
  "slab_cache_destroy cache w =
     (let c = sw_cache w cache;
          w1 = (if sc_prev c \<noteq> 0 then upd_cache (sc_prev c) (\<lambda>b. b\<lparr>sc_next := sc_next c\<rparr>) w else w);
          w2 = (if sc_next c \<noteq> 0 then upd_cache (sc_next c) (\<lambda>b. b\<lparr>sc_prev := sc_prev c\<rparr>) w1 else w1)
      in bindE (slab_destroy cache (sl_next (sw_slab w2 (slabs_free cache))) w2)
         (\<lambda>w3. bindE (slab_destroy cache (sl_next (sw_slab w3 (slabs_partial cache))) w3)
         (\<lambda>w4. bindE (slab_destroy cache (sl_next (sw_slab w4 (slabs_full cache))) w4)
         (\<lambda>w5. bindE (kfree cache (sw_heap w5)) (\<lambda>h. Inr (w5\<lparr>sw_heap := h\<rparr>))))))"

section \<open>Objects\<close>

text \<open>Take the first free chunk of the slab \<open>s\<close>; the result is its object.\<close>

definition slab_take :: "u32 \<Rightarrow> 'e slab_world \<Rightarrow> u32 \<times> 'e slab_world" where
  "slab_take s w =
     (let free_chunk = ch_next_free (sw_chunk w (base_chunk s));
          free_addr = ch_data_addr (sw_chunk w free_chunk);
          nxt = ch_next_free (sw_chunk w free_chunk);
          w1 = (if nxt \<noteq> 0
                then upd_chunk nxt (\<lambda>b. b\<lparr>ch_prev_free := ch_prev_free (sw_chunk w free_chunk)\<rparr>) w
                else w);
          w2 = upd_chunk (base_chunk s) (\<lambda>b. b\<lparr>ch_next_free := ch_next_free (sw_chunk w1 free_chunk)\<rparr>) w1;
          w3 = upd_slab s (\<lambda>b. b\<lparr>sl_num_free := sl_num_free b - 1\<rparr>) w2
      in (free_addr, w3))"

definition slab_alloc_from_cache ::
  "'e mapper \<Rightarrow> u32 \<Rightarrow> 'e slab_world \<Rightarrow> fault + u32 \<times> 'e slab_world" where
  "slab_alloc_from_cache mm cache w =
     (if cache = 0 then Inr (0, w)
      else let part = sl_next (sw_slab w (slabs_partial cache));
               non_full = (if part = 0 then sl_next (sw_slab w (slabs_free cache)) else part)
      in bindE (if non_full \<noteq> 0 then Inr (non_full, w)
                else bindE (slab_alloc_slab_align mm cache (sc_alignment (sw_cache w cache)) w)
                       (\<lambda>(_, w1). Inr (sl_next (sw_slab w1 (slabs_free cache)), w1)))
         (\<lambda>(s, w1). if s = 0 then Inl NullDeref else
            let (free_addr, w2) = slab_take s w1 in
            if sl_num_free (sw_slab w2 s) = 0
            then bindE (slab_remove_from_cache (sl_next (sw_slab w2 (slabs_partial cache))) w2)
                   (\<lambda>(_, w3). Inr (free_addr, snd (slab_insert_in_cache (slabs_full cache) s w3)))
            else if sl_num_free (sw_slab w2 s) = SLAB_CAPACITY - 1
            then bindE (slab_remove_from_cache (sl_next (sw_slab w2 (slabs_free cache))) w2)
                   (\<lambda>(_, w3). Inr (free_addr, snd (slab_insert_in_cache (slabs_partial cache) s w3)))
            else Inr (free_addr, w2)))"

definition addr_within_slab :: "u32 \<Rightarrow> u32 \<Rightarrow> 'e slab_world \<Rightarrow> bool" where
  "addr_within_slab s addr w =
     (let slab_data_addr = ch_data_addr (sw_chunk w (ch_next (sw_chunk w (base_chunk s))))
      in slab_data_addr \<le> addr \<and> slab_data_addr + sl_size (sw_slab w s) * SLAB_CAPACITY > addr)"

partial_function (option) find_chunk_in_slab :: "u32 \<Rightarrow> u32 \<Rightarrow> 'e slab_world \<Rightarrow> u32 option" where
  "find_chunk_in_slab chunk seek_addr w =
     (if chunk = 0 then Some 0
      else if ch_data_addr (sw_chunk w chunk) = seek_addr then Some chunk
      else find_chunk_in_slab (ch_next (sw_chunk w chunk)) seek_addr w)"

partial_function (option) slab_find_chunk :: "u32 \<Rightarrow> u32 \<Rightarrow> 'e slab_world \<Rightarrow> u32 option" where
  "slab_find_chunk s seek_addr w =
     (if s = 0 then Some 0
      else if addr_within_slab s seek_addr w
      then case find_chunk_in_slab (ch_next (sw_chunk w (sl_chunks (sw_slab w s)))) seek_addr w of
          None \<Rightarrow> None
        | Some c \<Rightarrow> if c \<noteq> 0 then Some c else slab_find_chunk (sl_next (sw_slab w s)) seek_addr w
      else slab_find_chunk (sl_next (sw_slab w s)) seek_addr w)"

text \<open>The chunk of an object: \<open>None\<close> when a search does not end, 0 when there is none.\<close>

definition slab_obj_chunk :: "u32 \<Rightarrow> u32 \<Rightarrow> 'e slab_world \<Rightarrow> u32 option" where
  "slab_obj_chunk cache obj w =
     (if sc_alignment (sw_cache w cache) = 0 then Some (obj - CHUNK_SIZEOF)
      else case slab_find_chunk (sl_next (sw_slab w (slabs_partial cache))) obj w of
          None \<Rightarrow> None
        | Some c \<Rightarrow> if c \<noteq> 0 then Some c
                    else slab_find_chunk (sl_next (sw_slab w (slabs_full cache))) obj w)"

partial_function (option) find_prev_free :: "u32 \<Rightarrow> u32 \<Rightarrow> 'e slab_world \<Rightarrow> (fault + u32) option" where
  "find_prev_free prev_free chunk w =
     (if prev_free = 0 then Some (Inl NullDeref)
      else if ch_next_free (sw_chunk w prev_free) < chunk
      then find_prev_free (ch_next_free (sw_chunk w prev_free)) chunk w
      else Some (Inr prev_free))"

text \<open>Link the chunk into the free list of its slab, which is sorted by address.\<close>

definition slab_put :: "u32 \<Rightarrow> u32 \<Rightarrow> 'e slab_world \<Rightarrow> fault + 'e slab_world" where
  "slab_put first_chunk chunk w =
     (let fst_free = ch_next_free (sw_chunk w first_chunk) in
      if fst_free = 0 \<or> fst_free > chunk
      then Inr (upd_chunk first_chunk (\<lambda>b. b\<lparr>ch_next_free := chunk\<rparr>)
             (upd_chunk chunk (\<lambda>b. b\<lparr>ch_next_free := fst_free\<rparr>) w))
      else case find_prev_free fst_free chunk w of
          None \<Rightarrow> Inl Diverges
        | Some (Inl f) \<Rightarrow> Inl f
        | Some (Inr prv) \<Rightarrow>
            (let w1 = upd_chunk chunk (\<lambda>b. b\<lparr>ch_next_free := ch_next_free (sw_chunk w prv)\<rparr>) w
             in Inr (upd_chunk prv (\<lambda>b. b\<lparr>ch_next_free := chunk\<rparr>) w1)))"

definition slab_free :: "u32 \<Rightarrow> u32 \<Rightarrow> 'e slab_world \<Rightarrow> fault + 'e slab_world" where
  "slab_free cache obj w =
     (if obj = 0 then Inr w
      else case slab_obj_chunk cache obj w of
          None \<Rightarrow> Inl Diverges
        | Some chunk \<Rightarrow>
          if sc_alignment (sw_cache w cache) \<noteq> 0 \<and> chunk = 0 then Inr w
          else let s = ch_slab (sw_chunk w chunk);
                   w1 = upd_slab s (\<lambda>b. b\<lparr>sl_num_free := sl_num_free b + 1\<rparr>) w;
                   n = sl_num_free (sw_slab w1 s)
               in bindE
                    (if n = 1
                     then bindE (slab_remove_from_cache s w1)
                            (\<lambda>(_, w2). Inr (snd (slab_insert_in_cache (slabs_partial cache) s w2)))
                     else if n = SLAB_CAPACITY
                     then bindE (slab_remove_from_cache s w1)
                            (\<lambda>(_, w2). Inr (snd (slab_insert_in_cache (slabs_free cache) s w2)))
                     else Inr w1)
                    (slab_put (base_chunk s) chunk))"

partial_function (option) find_cache :: "u32 \<Rightarrow> u32 \<Rightarrow> 'e slab_world \<Rightarrow> u32 option" where
  "find_cache cache siz w =
     (if cache \<noteq> 0 \<and> sc_size (sw_cache w cache) \<noteq> siz
      then find_cache (sc_next (sw_cache w cache)) siz w else Some cache)"

definition slab_alloc :: "'e mapper \<Rightarrow> u32 \<Rightarrow> 'e slab_world \<Rightarrow> fault + u32 \<times> 'e slab_world" where
  "slab_alloc mm siz w =
     (case find_cache (sw_caches w) siz w of
        None \<Rightarrow> Inl Diverges
      | Some cache \<Rightarrow> if cache = 0 then Inr (0, w) else slab_alloc_from_cache mm cache w)"

definition slab_alloc_init :: "u32 \<Rightarrow> int" where
  "slab_alloc_init base = 0"

declare slab_destroy_slab.simps [code] find_chunk_in_slab.simps [code] slab_find_chunk.simps [code]
  find_prev_free.simps [code] find_cache.simps [code]

section \<open>The store\<close>

lemma upd_slab_simps [simp]:
  "sw_slab (upd_slab a f w) x = (if x = a then f (sw_slab w a) else sw_slab w x)"
  "sw_chunk (upd_slab a f w) = sw_chunk w" "sw_cache (upd_slab a f w) = sw_cache w"
  "sw_heap (upd_slab a f w) = sw_heap w" "sw_caches (upd_slab a f w) = sw_caches w"
  by (simp_all add: upd_slab_def)

lemma upd_chunk_simps [simp]:
  "sw_chunk (upd_chunk a f w) x = (if x = a then f (sw_chunk w a) else sw_chunk w x)"
  "sw_slab (upd_chunk a f w) = sw_slab w" "sw_cache (upd_chunk a f w) = sw_cache w"
  "sw_heap (upd_chunk a f w) = sw_heap w" "sw_caches (upd_chunk a f w) = sw_caches w"
  by (simp_all add: upd_chunk_def)

lemma upd_cache_simps [simp]:
  "sw_cache (upd_cache a f w) x = (if x = a then f (sw_cache w a) else sw_cache w x)"
  "sw_slab (upd_cache a f w) = sw_slab w" "sw_chunk (upd_cache a f w) = sw_chunk w"
  "sw_heap (upd_cache a f w) = sw_heap w" "sw_caches (upd_cache a f w) = sw_caches w"
  by (simp_all add: upd_cache_def)

section \<open>Doubly linked lists of slabs\<close>

lemma distinct_perm: "distinct xs \<Longrightarrow> mset xs = mset ys \<Longrightarrow> distinct ys"
  by (metis mset_eq_imp_distinct_iff)

text \<open>
  \<open>dll w h xs z\<close>: following \<open>next\<close> from the head \<open>h\<close> gives the slabs \<open>xs\<close> and then \<open>z\<close> (\<open>NULL\<close> for
  a whole list), and the \<open>prev\<close> links of \<open>xs\<close> lead back.
\<close>

fun dll :: "'e slab_world \<Rightarrow> u32 \<Rightarrow> u32 list \<Rightarrow> u32 \<Rightarrow> bool" where
  "dll w h [] z \<longleftrightarrow> sl_next (sw_slab w h) = z"
| "dll w h (x # xs) z \<longleftrightarrow>
     sl_next (sw_slab w h) = x \<and> x \<noteq> 0 \<and> sl_prev (sw_slab w x) = h \<and> dll w x xs z"

definition slab_frame :: "u32 set \<Rightarrow> 'e slab_world \<Rightarrow> 'e slab_world \<Rightarrow> bool" where
  "slab_frame A w w' \<longleftrightarrow> (\<forall>x. x \<notin> A \<longrightarrow> sw_slab w' x = sw_slab w x) \<and>
     (\<forall>x. sl_num_free (sw_slab w' x) = sl_num_free (sw_slab w x)) \<and>
     sw_chunk w' = sw_chunk w \<and> sw_cache w' = sw_cache w \<and> sw_caches w' = sw_caches w \<and>
     sw_heap w' = sw_heap w"

lemma slab_frame_trans:
  "slab_frame A w w' \<Longrightarrow> slab_frame B w' w'' \<Longrightarrow> slab_frame (A \<union> B) w w''"
  by (auto simp: slab_frame_def)

lemma dll_cong:
  assumes "sl_next (sw_slab w' h) = sl_next (sw_slab w h)"
    and "\<forall>x \<in> set xs. sl_next (sw_slab w' x) = sl_next (sw_slab w x) \<and>
      sl_prev (sw_slab w' x) = sl_prev (sw_slab w x)"
  shows "dll w' h xs z = dll w h xs z"
  using assms by (induction xs arbitrary: h) auto

lemma dll_frame:
  assumes "slab_frame A w w'" and "A \<inter> set (h # xs) = {}" and "dll w h xs z"
  shows "dll w' h xs z"
proof -
  have "sw_slab w' x = sw_slab w x" if "x \<in> set (h # xs)" for x
    using assms(1,2) that by (auto simp: slab_frame_def)
  then show ?thesis using assms(3) dll_cong [of w' h w xs z] by simp
qed

lemma dll_append:
  "dll w h (xs @ y # ys) z \<longleftrightarrow>
     dll w h xs y \<and> y \<noteq> 0 \<and> sl_prev (sw_slab w y) = last (h # xs) \<and> dll w y ys z"
  by (induction xs arbitrary: h) auto

lemma dll_first: "dll w h xs 0 \<Longrightarrow> sl_next (sw_slab w h) = (if xs = [] then 0 else hd xs)"
  by (cases xs) auto

lemma dll_set_next:
  assumes "dll w h xs y" and "distinct (h # xs)"
    and "\<And>x. x \<noteq> last (h # xs) \<Longrightarrow> x \<in> set (h # xs) \<Longrightarrow> sl_next (sw_slab w' x) = sl_next (sw_slab w x)"
    and "\<And>x. x \<in> set xs \<Longrightarrow> sl_prev (sw_slab w' x) = sl_prev (sw_slab w x)"
    and "sl_next (sw_slab w' (last (h # xs))) = z"
  shows "dll w' h xs z"
  using assms
proof (induction xs arbitrary: h)
  case (Cons x xs)
  have "h \<noteq> last (x # xs)" using Cons.prems(2) last_in_set [of "x # xs"] by auto
  then have "sl_next (sw_slab w' h) = x" using Cons.prems(1) Cons.prems(3) [of h] by simp
  moreover have "dll w' x xs z"
    using Cons.prems by (intro Cons.IH) (auto split: if_splits)
  ultimately show ?case using Cons.prems(1,4) by simp
qed simp

lemma slab_remove_dll:
  assumes d: "dll w h (xs @ y # ys) 0" and dist: "distinct (h # xs @ y # ys)" and "h \<noteq> 0"
  shows "\<exists>w'. slab_remove_from_cache y w = Inr (0, w') \<and> dll w' h (xs @ ys) 0 \<and>
    slab_frame (set (h # xs @ ys)) w w'"
proof -
  let ?p = "last (h # xs)" and ?n = "sl_next (sw_slab w y)"
  have x: "dll w h xs y" "y \<noteq> 0" "sl_prev (sw_slab w y) = ?p" "dll w y ys 0"
    using d by (simp_all add: dll_append)
  have px: "?p \<in> set (h # xs)" by (rule last_in_set) simp
  have p0: "?p \<noteq> 0"
  proof (cases xs rule: rev_cases)
    case (snoc zs z)
    with x(1) show ?thesis by (simp add: dll_append)
  qed (use assms(3) in simp)
  have n: "?n = (if ys = [] then 0 else hd ys)" using x(4) by (rule dll_first)
  define w' where "w' = upd_slab ?p (\<lambda>b. b\<lparr>sl_next := ?n\<rparr>)
    (if ?n \<noteq> 0 then upd_slab ?n (\<lambda>b. b\<lparr>sl_prev := ?p\<rparr>) w else w)"
  have r: "slab_remove_from_cache y w = Inr (0, w')"
    using x(2,3) p0 by (simp add: slab_remove_from_cache_def w'_def Let_def)
  have nys: "?n \<noteq> 0 \<Longrightarrow> ?n \<in> set ys" using n by (auto split: if_splits)
  have fr: "slab_frame (set (h # xs @ ys)) w w'"
    using px nys by (auto simp: slab_frame_def w'_def)
  have pn: "?p \<noteq> ?n" using px nys dist p0 by auto
  have one: "dll w' h xs ?n"
    by (rule dll_set_next [OF x(1)]) (use dist nys px in \<open>auto simp: w'_def\<close>)
  moreover have "dll w' ?n (tl ys) 0" "?n = hd ys" "sl_prev (sw_slab w' ?n) = ?p" "?n \<noteq> 0"
    if "ys \<noteq> []"
  proof -
    show "?n = hd ys" using n that by simp
    show "?n \<noteq> 0" using x(4) that n by (cases ys) auto
    then show "sl_prev (sw_slab w' ?n) = ?p" using pn by (simp add: w'_def)
    have "dll w ?n (tl ys) 0" using x(4) that n by (cases ys) auto
    then show "dll w' ?n (tl ys) 0"
      using dist px n that pn
      by (subst dll_cong [of _ _ w]) (cases ys; auto simp: w'_def)+
  qed
  ultimately have "dll w' h (xs @ ys) 0" using n by (cases ys) (auto simp: dll_append)
  with r fr show ?thesis by blast
qed

lemma slab_insert_dll:
  assumes d: "dll w h xs 0" and dist: "distinct (h # y # xs)" and "h \<noteq> 0" and "y \<noteq> 0"
  shows "\<exists>w'. slab_insert_in_cache h y w = (0, w') \<and> dll w' h (y # xs) 0 \<and>
    slab_frame (set (h # y # xs)) w w'"
proof -
  let ?n = "sl_next (sw_slab w h)"
  define w' where "w' = snd (slab_insert_in_cache h y w)"
  have n: "?n = (if xs = [] then 0 else hd xs)" using d by (rule dll_first)
  have r: "slab_insert_in_cache h y w = (0, w')"
    using assms(3) by (simp add: slab_insert_in_cache_def w'_def Let_def)
  have nx: "?n \<noteq> 0 \<Longrightarrow> ?n \<in> set xs" using n by (auto split: if_splits)
  have fr: "slab_frame (set (h # y # xs)) w w'"
    using nx assms(3) by (auto simp: slab_frame_def w'_def slab_insert_in_cache_def Let_def)
  have "dll w' y xs 0"
  proof (cases xs)
    case Nil
    then show ?thesis using n dist assms(3) by (simp add: w'_def slab_insert_in_cache_def Let_def)
  next
    case (Cons x xs')
    then have "dll w x xs' 0" "x \<noteq> 0" "?n = x" using d n by auto
    moreover from this have "dll w' x xs' 0"
      using dist Cons assms(3)
      by (subst dll_cong [of _ _ w]) (auto simp: w'_def slab_insert_in_cache_def Let_def)
    ultimately show ?thesis
      using Cons dist assms(3) by (auto simp: w'_def slab_insert_in_cache_def Let_def)
  qed
  moreover have "sl_next (sw_slab w' h) = y" "sl_prev (sw_slab w' y) = h"
    using nx dist assms(3) by (auto simp: w'_def slab_insert_in_cache_def Let_def)
  ultimately show ?thesis using r fr assms(4) by auto
qed

section \<open>The free list of one slab\<close>

text \<open>
  The 16 chunks of a slab of an unaligned cache lie \<open>st = size + 20\<close> bytes apart behind the slab; a
  17th header follows them and ends every free list. A slab is viewed as its address and the
  increasing list of the indices of its free chunks.
\<close>

type_synonym slab_view = "u32 \<times> nat list"

definition chunk_of :: "u32 \<Rightarrow> u32 \<Rightarrow> nat \<Rightarrow> u32" where
  "chunk_of st s i = s + 40 + word_of_nat i * st"

definition slab_cells :: "u32 \<Rightarrow> u32 \<Rightarrow> u32 set" where
  "slab_cells st s = insert (base_chunk s) (chunk_of st s ` {..16})"

definition slab_fits :: "u32 \<Rightarrow> u32 \<Rightarrow> bool" where
  "slab_fits st s \<longleftrightarrow> s \<noteq> 0 \<and> 20 \<le> unat st \<and> unat s + 60 + 16 * unat st < 4294967296"

fun free_chain :: "'e slab_world \<Rightarrow> u32 \<Rightarrow> u32 list \<Rightarrow> u32 \<Rightarrow> bool" where
  "free_chain w a [] z \<longleftrightarrow> a = z"
| "free_chain w a (x # xs) z \<longleftrightarrow> a = x \<and> free_chain w (ch_next_free (sw_chunk w x)) xs z"

definition slab_ok :: "u32 \<Rightarrow> 'e slab_world \<Rightarrow> slab_view \<Rightarrow> bool" where
  "slab_ok st w v \<longleftrightarrow>
     slab_fits st (fst v) \<and> sorted_wrt (<) (snd v) \<and> set (snd v) \<subseteq> {..<16} \<and>
     (\<forall>i < 16. ch_slab (sw_chunk w (chunk_of st (fst v) i)) = fst v \<and>
        ch_data_addr (sw_chunk w (chunk_of st (fst v) i)) = chunk_of st (fst v) i + CHUNK_SIZEOF) \<and>
     free_chain w (ch_next_free (sw_chunk w (base_chunk (fst v))))
       (map (chunk_of st (fst v)) (snd v)) (chunk_of st (fst v) 16) \<and>
     sl_num_free (sw_slab w (fst v)) = word_of_nat (length (snd v))"

lemma unat_chunk_of:
  assumes "slab_fits st s" and "i \<le> 16"
  shows "unat (chunk_of st s i) = unat s + 40 + i * unat st"
proof -
  have b: "i * unat st \<le> 16 * unat st" using assms(2) by simp
  with assms(1) have lt: "unat s + 40 + i * unat st < 4294967296"
    unfolding slab_fits_def by linarith
  have i: "unat (word_of_nat i :: u32) = i" using assms(2) by (simp add: unat_u32_of_nat)
  have m: "unat (word_of_nat i * st) = i * unat st"
    using lt by (subst unat_u32_mult) (simp_all add: i)
  have a: "unat (s + 40) = unat s + 40" using assms by (simp add: unat_u32_add slab_fits_def)
  show ?thesis
    unfolding chunk_of_def using lt by (subst unat_u32_add) (simp_all add: m a)
qed

lemma unat_base_chunk: "slab_fits st s \<Longrightarrow> unat (base_chunk s) = unat s + 16"
  by (simp add: slab_fits_def unat_u32_add)

lemma chunk_of_less:
  assumes "slab_fits st s" and "i \<le> 16" and "j \<le> 16"
  shows "chunk_of st s i < chunk_of st s j \<longleftrightarrow> i < j"
  using assms by (simp add: word_less_nat_alt unat_chunk_of) (simp add: slab_fits_def)

lemma chunk_of_eq:
  assumes "slab_fits st s" and "i \<le> 16" and "j \<le> 16"
  shows "chunk_of st s i = chunk_of st s j \<longleftrightarrow> i = j"
  using chunk_of_less [OF assms] chunk_of_less [OF assms(1,3,2)] by (metis linorder_cases less_irrefl)

lemma chunk_of_neq_base:
  assumes "slab_fits st s" and "i \<le> 16"
  shows "chunk_of st s i \<noteq> base_chunk s" and "chunk_of st s i \<noteq> 0"
proof -
  show "chunk_of st s i \<noteq> base_chunk s"
    using unat_chunk_of [OF assms] unat_base_chunk [OF assms(1)] by force
  show "chunk_of st s i \<noteq> 0"
    using unat_chunk_of [OF assms] by force
qed

lemma free_chain_cong:
  "\<forall>x \<in> set xs. ch_next_free (sw_chunk w' x) = ch_next_free (sw_chunk w x) \<Longrightarrow>
   free_chain w' a xs z = free_chain w a xs z"
  by (induction xs arbitrary: a) auto

lemma free_chain_append:
  "free_chain w a (xs @ ys) z \<longleftrightarrow> (\<exists>m. free_chain w a xs m \<and> free_chain w m ys z)"
  by (induction xs arbitrary: a) auto

lemma slab_ok_cong:
  assumes "\<forall>x \<in> slab_cells st (fst v). sw_chunk w' x = sw_chunk w x"
    and "sl_num_free (sw_slab w' (fst v)) = sl_num_free (sw_slab w (fst v))"
  shows "slab_ok st w' v = slab_ok st w v"
proof (cases "set (snd v) \<subseteq> {..<16}")
  case True
  then have c: "\<forall>x \<in> set (map (chunk_of st (fst v)) (snd v)). sw_chunk w' x = sw_chunk w x"
    using assms(1) by (force simp: slab_cells_def)
  have i: "\<forall>i < 16. sw_chunk w' (chunk_of st (fst v) i) = sw_chunk w (chunk_of st (fst v) i)"
    "sw_chunk w' (base_chunk (fst v)) = sw_chunk w (base_chunk (fst v))"
    using assms(1) by (auto simp: slab_cells_def)
  then show ?thesis
    unfolding slab_ok_def using assms(2) free_chain_cong [of _ w' w] c by simp
qed (simp add: slab_ok_def)

lemma slab_take_ok:
  assumes ok: "slab_ok st w (s, i # is)"
  defines "w' \<equiv> snd (slab_take s w)"
  shows "fst (slab_take s w) = chunk_of st s i + 20" and "slab_ok st w' (s, is)"
    and "x \<notin> slab_cells st s \<Longrightarrow> sw_chunk w' x = sw_chunk w x"
    and "sw_slab w' x = (if x = s then (sw_slab w s)\<lparr>sl_num_free := word_of_nat (length is)\<rparr>
      else sw_slab w x)"
    and "sw_heap w' = sw_heap w" and "sw_cache w' = sw_cache w"
proof -
  note o = ok [unfolded slab_ok_def fst_conv snd_conv]
  have fit: "slab_fits st s" and i: "i < 16" "\<forall>j \<in> set is. i < j \<and> j < 16"
    using o by auto
  let ?c = "chunk_of st s"
  have hd: "ch_next_free (sw_chunk w (base_chunk s)) = ?c i" using o by simp
  let ?n = "ch_next_free (sw_chunk w (?c i))"
  have n: "?n = ?c (case is of [] \<Rightarrow> 16 | j # _ \<Rightarrow> j)" using o by (cases "is") auto
  obtain j where j: "?n = ?c j" "j \<le> 16" "i < j"
    using n i by (cases "is") (auto intro: that)
  have neq: "?c k \<noteq> base_chunk s" "?c k \<noteq> 0" if "k \<le> 16" for k
    using chunk_of_neq_base [OF fit that] .
  have w': "w' = upd_slab s (\<lambda>b. b\<lparr>sl_num_free := sl_num_free b - 1\<rparr>)
    (upd_chunk (base_chunk s) (\<lambda>b. b\<lparr>ch_next_free := ?n\<rparr>)
      (upd_chunk ?n (\<lambda>b. b\<lparr>ch_prev_free := ch_prev_free (sw_chunk w (?c i))\<rparr>) w))"
    using neq(2) j i chunk_of_eq [OF fit, of i j] by (simp add: w'_def slab_take_def hd Let_def)
  show "fst (slab_take s w) = ?c i + 20" using o i by (simp add: slab_take_def hd Let_def)
  have num: "sl_num_free (sw_slab w s) - 1 = word_of_nat (length is)" using o by simp
  show "sw_slab w' x = (if x = s then (sw_slab w s)\<lparr>sl_num_free := word_of_nat (length is)\<rparr>
      else sw_slab w x)" for x
    using num by (simp add: w')
  show "x \<notin> slab_cells st s \<Longrightarrow> sw_chunk w' x = sw_chunk w x" for x
    using j by (auto simp: w' slab_cells_def)
  show "sw_heap w' = sw_heap w" "sw_cache w' = sw_cache w" by (simp_all add: w')
  have nf: "ch_next_free (sw_chunk w' x) = ch_next_free (sw_chunk w x)" if "x \<noteq> base_chunk s" for x
    using that by (simp add: w')
  have "free_chain w' ?n (map ?c is) (?c 16)"
    using o i neq(1) by (subst free_chain_cong [of _ _ w]) (auto simp: nf)
  moreover have "ch_next_free (sw_chunk w' (base_chunk s)) = ?n" by (simp add: w')
  moreover have "ch_slab (sw_chunk w' (?c k)) = s \<and> ch_data_addr (sw_chunk w' (?c k)) = ?c k + 20"
    if "k < 16" for k using o that neq(1) [of k] by (auto simp: w')
  ultimately show "slab_ok st w' (s, is)"
    using o num by (simp add: slab_ok_def w')
qed

lemma find_prev_free_chain:
  assumes fit: "slab_fits st s" and "i \<le> 16" and "i < k" and "k \<le> 16"
    and "free_chain w a (map (chunk_of st s) (as @ [j])) (chunk_of st s k)"
    and "\<forall>x \<in> set (as @ [j]). x < i"
  shows "find_prev_free a (chunk_of st s i) w = Some (Inr (chunk_of st s j))"
  using assms(5,6)
proof (induction "as" arbitrary: a)
  case Nil
  then show ?case
    using assms(2-4) chunk_of_neq_base(2) [OF fit, of j] chunk_of_less [OF fit, of k i]
    by (subst find_prev_free.simps) auto
next
  case (Cons x as)
  let ?n = "ch_next_free (sw_chunk w a)"
  have x: "a = chunk_of st s x" "x < i" using Cons.prems by auto
  have "?n = chunk_of st s (hd (as @ [j]))"
    using Cons.prems(1) by (cases "as") auto
  moreover have "hd (as @ [j]) < i" using Cons.prems(2) by (cases "as") auto
  ultimately have "?n < chunk_of st s i"
    using chunk_of_less [OF fit, of "hd (as @ [j])" i] assms(2) by simp
  moreover have "find_prev_free ?n (chunk_of st s i) w = Some (Inr (chunk_of st s j))"
    using Cons.prems by (intro Cons.IH) auto
  moreover have "a \<noteq> 0" using x chunk_of_neq_base(2) [OF fit, of x] assms(2) by simp
  ultimately show ?case by (subst find_prev_free.simps) simp
qed

lemma slab_put_chain:
  assumes fit: "slab_fits st s" and srt: "sorted_wrt (<) (as @ i # bs)"
    and rng: "set (as @ i # bs) \<subseteq> {..<16}"
    and ch: "free_chain w (ch_next_free (sw_chunk w (base_chunk s))) (map (chunk_of st s) (as @ bs))
      (chunk_of st s 16)"
  shows "\<exists>w'. slab_put (base_chunk s) (chunk_of st s i) w = Inr w' \<and>
    free_chain w' (ch_next_free (sw_chunk w' (base_chunk s))) (map (chunk_of st s) (as @ i # bs))
      (chunk_of st s 16) \<and>
    (\<forall>x. x \<notin> slab_cells st s \<longrightarrow> sw_chunk w' x = sw_chunk w x) \<and>
    (\<forall>x. ch_slab (sw_chunk w' x) = ch_slab (sw_chunk w x) \<and>
       ch_data_addr (sw_chunk w' x) = ch_data_addr (sw_chunk w x)) \<and>
    sw_slab w' = sw_slab w \<and> sw_heap w' = sw_heap w \<and> sw_cache w' = sw_cache w"
proof -
  let ?c = "chunk_of st s" and ?b = "base_chunk s"
  obtain k where k: "i < k" "k \<le> 16" "k = (case bs of [] \<Rightarrow> 16 | x # _ \<Rightarrow> x)"
    using srt rng by (cases bs) (auto simp: sorted_wrt_append)
  from ch obtain m where m: "free_chain w (ch_next_free (sw_chunk w ?b)) (map ?c as) m"
    "free_chain w m (map ?c bs) (?c 16)" by (auto simp: free_chain_append)
  have mk: "m = ?c k" using m(2) k(3) by (cases bs) auto
  have i16: "i < 16" and lt: "\<forall>x \<in> set as. x < i" "\<forall>x \<in> set bs. i < x \<and> x < 16"
    using srt rng by (auto simp: sorted_wrt_append)
  have neq: "?c x \<noteq> ?b" "?c x \<noteq> 0" if "x \<le> 16" for x using chunk_of_neq_base [OF fit that] .
  have eqi: "?c x = ?c y \<longleftrightarrow> x = y" if "x \<le> 16" "y \<le> 16" for x y using chunk_of_eq [OF fit that] .
  show ?thesis
  proof (cases "as" rule: rev_cases)
    case Nil
    let ?w = "upd_chunk ?b (\<lambda>b. b\<lparr>ch_next_free := ?c i\<rparr>) (upd_chunk (?c i) (\<lambda>b. b\<lparr>ch_next_free := ?c k\<rparr>) w)"
    have "slab_put ?b (?c i) w = Inr ?w"
      using Nil m(1) mk k chunk_of_less [OF fit, of i k] by (simp add: slab_put_def)
    moreover have "free_chain ?w (?c k) (map ?c bs) (?c 16)"
      using m(2) mk lt(2) neq(1) eqi i16 by (subst free_chain_cong [of _ _ w]) auto
    ultimately show ?thesis using Nil neq(1) [of i] i16 by (intro exI [of _ ?w]) (auto simp: slab_cells_def)
  next
    case (snoc as' j)
    have jl: "j < i" using snoc lt by auto
    let ?w = "upd_chunk (?c j) (\<lambda>b. b\<lparr>ch_next_free := ?c i\<rparr>) (upd_chunk (?c i) (\<lambda>b. b\<lparr>ch_next_free := ?c k\<rparr>) w)"
    let ?f = "ch_next_free (sw_chunk w ?b)"
    have "?f = ?c (hd as)" "hd as \<in> set as" using m(1) snoc by (cases as'; auto)+
    then have "?f < ?c i" "?f \<noteq> 0"
      using lt(1) chunk_of_less [OF fit, of "hd as" i] neq(2) [of "hd as"] i16 by auto
    moreover have "find_prev_free ?f (?c i) w = Some (Inr (?c j))"
      using find_prev_free_chain [OF fit _ k(1,2) m(1) [unfolded mk snoc]] lt(1) snoc i16 by auto
    moreover have nj: "ch_next_free (sw_chunk w (?c j)) = ?c k"
      using m(1) snoc mk by (auto simp: free_chain_append)
    ultimately have put: "slab_put ?b (?c i) w = Inr ?w" by (simp add: slab_put_def Let_def)
    have "free_chain w ?f (map ?c as') (?c j)" using m(1) snoc by (auto simp: free_chain_append)
    moreover have "x \<noteq> j" "x \<le> 16" "x \<noteq> i" if "x \<in> set as'" for x
      using that srt lt(1) snoc i16 by (force simp: sorted_wrt_append)+
    ultimately have "free_chain ?w ?f (map ?c as') (?c j)"
      using eqi jl i16 by (subst free_chain_cong [of _ _ w]) auto
    moreover have "free_chain ?w (?c k) (map ?c bs) (?c 16)"
      using m(2) mk lt(2) jl eqi i16 by (subst free_chain_cong [of _ _ w]) auto
    moreover have "ch_next_free (sw_chunk ?w ?b) = ?f" using neq(1) jl i16 by (simp add: eq_commute)
    ultimately have "free_chain ?w (ch_next_free (sw_chunk ?w ?b)) (map ?c (as @ i # bs)) (?c 16)"
      using snoc eqi [of i j] jl i16 by (auto simp: free_chain_append)
    with put show ?thesis
      using jl i16 by (intro exI [of _ ?w]) (auto simp: slab_cells_def)
  qed
qed

lemma slab_move:
  assumes "dll w h (xs @ y # ys) 0" and "dll w g zs 0" and "dll w f us 0"
    and dist: "distinct (h # g # f # xs @ y # ys @ zs @ us)" and "h \<noteq> 0" and "g \<noteq> 0"
  shows "\<exists>w1 w2. slab_remove_from_cache y w = Inr (0, w1) \<and> slab_insert_in_cache g y w1 = (0, w2) \<and>
    dll w2 h (xs @ ys) 0 \<and> dll w2 g (y # zs) 0 \<and> dll w2 f us 0 \<and> slab_frame UNIV w w2"
proof -
  have "y \<noteq> 0" using assms(1) by (simp add: dll_append)
  obtain w1 where r: "slab_remove_from_cache y w = Inr (0, w1)" "dll w1 h (xs @ ys) 0"
    "slab_frame (set (h # xs @ ys)) w w1"
    using slab_remove_dll [OF assms(1) _ assms(5)] dist by auto
  have "dll w1 g zs 0" "dll w1 f us 0"
    using dist assms(2,3) by (auto intro!: dll_frame [OF r(3)])
  from slab_insert_dll [OF this(1) _ assms(6) \<open>y \<noteq> 0\<close>] dist obtain w2 where
    i: "slab_insert_in_cache g y w1 = (0, w2)" "dll w2 g (y # zs) 0" "slab_frame (set (g # y # zs)) w1 w2"
    by auto
  have "dll w2 h (xs @ ys) 0" "dll w2 f us 0"
    using dist r(2) \<open>dll w1 f us 0\<close> by (auto intro!: dll_frame [OF i(3)])
  moreover have "slab_frame UNIV w w2" using r(3) i(3) by (auto simp: slab_frame_def)
  ultimately show ?thesis using r(1) i(1,2) by blast
qed

section \<open>A new slab\<close>

lemma slab_init_chunks_spec:
  fixes d prv :: u32
  assumes fit: "slab_fits st s" and "k \<le> 16" and "get_link cur w = chunk_of st s k"
  defines "w' \<equiv> slab_init_chunks 0 (s + 40) d st s [k..<16] cur prv w"
  shows "(\<forall>i. k \<le> i \<and> i < 16 \<longrightarrow> ch_next_free (sw_chunk w' (chunk_of st s i)) = chunk_of st s (Suc i) \<and>
      ch_slab (sw_chunk w' (chunk_of st s i)) = s \<and>
      ch_data_addr (sw_chunk w' (chunk_of st s i)) = chunk_of st s i + 20) \<and>
    (\<forall>x. x \<notin> chunk_of st s ` {k..<16} \<longrightarrow> sw_chunk w' x = sw_chunk w x) \<and>
    sw_slab w' = sw_slab w \<and> sw_heap w' = sw_heap w \<and> sw_cache w' = sw_cache w"
  using assms(2,3) unfolding w'_def
proof (induction "16 - k" arbitrary: k cur prv w)
  case (Suc n)
  let ?c = "chunk_of st s"
  have k: "k < 16" using Suc(2) by simp
  have nz: "?c k \<noteq> 0" using chunk_of_neq_base(2) [OF fit, of k] k by simp
  have sc: "?c k + st = ?c (Suc k)" by (simp add: chunk_of_def algebra_simps)
  let ?w2 = "upd_chunk (?c k) (\<lambda>b. b\<lparr>ch_data_addr := ?c k + 20, ch_next := ?c (Suc k),
      ch_next_free := ?c (Suc k), ch_prev_free := prv, ch_slab := s\<rparr>) w"
  have step: "slab_init_chunks 0 (s + 40) d st s [k..<16] cur prv w =
      slab_init_chunks 0 (s + 40) d st s [Suc k..<16] (ChunkNext (?c k)) (get_link cur ?w2) ?w2"
    using k nz Suc.prems(2) sc by (simp add: upt_conv_Cons Let_def flip: chunk_of_def)
  have "n = 16 - Suc k" "Suc k \<le> 16" "get_link (ChunkNext (?c k)) ?w2 = ?c (Suc k)"
    using Suc(2) by auto
  note IH = Suc(1) [OF this, of "get_link cur ?w2"]
  have ki: "?c k \<notin> ?c ` {Suc k..<16}" using chunk_of_eq [OF fit] k by auto
  show ?case
    unfolding step
  proof (intro conjI allI impI)
    fix i assume i: "k \<le> i \<and> i < 16"
    show "ch_next_free (sw_chunk (slab_init_chunks 0 (s + 40) d st s [Suc k..<16] (ChunkNext (?c k))
        (get_link cur ?w2) ?w2) (?c i)) = ?c (Suc i)"
      "ch_slab (sw_chunk (slab_init_chunks 0 (s + 40) d st s [Suc k..<16] (ChunkNext (?c k))
        (get_link cur ?w2) ?w2) (?c i)) = s"
      "ch_data_addr (sw_chunk (slab_init_chunks 0 (s + 40) d st s [Suc k..<16] (ChunkNext (?c k))
        (get_link cur ?w2) ?w2) (?c i)) = ?c i + 20"
      using IH i ki by (cases "i = k"; simp)+
  next
    fix x assume "x \<notin> ?c ` {k..<16}"
    moreover have "{k..<16} = insert k {Suc k..<16}" using k by auto
    ultimately show "sw_chunk (slab_init_chunks 0 (s + 40) d st s [Suc k..<16] (ChunkNext (?c k))
        (get_link cur ?w2) ?w2) x = sw_chunk w x"
      using IH by simp
  qed (use IH in simp_all)
qed auto

lemma free_chain_upt:
  assumes "\<forall>i. k \<le> i \<and> i < n \<longrightarrow> ch_next_free (sw_chunk w (f i)) = f (Suc i)" and "k \<le> n"
  shows "free_chain w (f k) (map f [k..<n]) (f n)"
  using assms(2,1)
proof (induction "n - k" arbitrary: k)
  case (Suc m)
  then show ?case by (simp add: upt_conv_Cons)
qed simp

lemma slab_setup_ok:
  fixes dat :: u32
  assumes fit: "slab_fits st s" and d: "dll w (slabs_free c) xs 0"
    and dist: "distinct (slabs_free c # s # xs)" and "slabs_free c \<noteq> 0"
  defines "w' \<equiv> slab_setup c 0 s dat st w"
  shows "slab_ok st w' (s, [0..<16])" and "dll w' (slabs_free c) (s # xs) 0"
    and "x \<notin> slab_cells st s \<Longrightarrow> sw_chunk w' x = sw_chunk w x"
    and "x \<noteq> s \<Longrightarrow> sl_num_free (sw_slab w' x) = sl_num_free (sw_slab w x)"
    and "x \<notin> set (slabs_free c # s # xs) \<Longrightarrow> sw_slab w' x = sw_slab w x"
    and "sw_heap w' = sw_heap w" and "sw_cache w' = sw_cache w"
proof -
  let ?c = "chunk_of st s"
  let ?w1 = "upd_slab s (\<lambda>b. b\<lparr>sl_chunks := s + 40\<rparr>) w"
  define w2 where "w2 = slab_init_chunks 0 (s + 40) dat st s [0..<16] (SlabChunks s) (base_chunk s) ?w1"
  have c0: "get_link (SlabChunks s) ?w1 = ?c 0" by (simp add: chunk_of_def)
  note i = slab_init_chunks_spec [OF fit _ c0, of dat "base_chunk s", folded w2_def]
  define w4 where "w4 = upd_chunk (base_chunk s) (\<lambda>b. b\<lparr>ch_data_addr := 0, ch_slab := s,
      ch_next := s + 40, ch_next_free := s + 40, ch_prev_free := 0\<rparr>)
    (upd_slab s (\<lambda>b. b\<lparr>sl_size := st, sl_num_free := SLAB_CAPACITY, sl_next := 0, sl_prev := 0\<rparr>) w2)"
  have w': "w' = snd (slab_insert_in_cache (slabs_free c) s w4)"
    unfolding w'_def slab_setup_def Let_def w4_def using i
    by (simp flip: w2_def)
  have "dll w4 (slabs_free c) xs 0"
    using d dist i by (subst dll_cong [of _ _ w]) (auto simp: w4_def)
  moreover have "s \<noteq> 0" using fit by (simp add: slab_fits_def)
  ultimately obtain u where u: "slab_insert_in_cache (slabs_free c) s w4 = (0, u)"
    "dll u (slabs_free c) (s # xs) 0" "slab_frame (set (slabs_free c # s # xs)) w4 u"
    using slab_insert_dll [of w4 "slabs_free c" xs s] dist assms(4) by blast
  then have wu: "w' = u" using w' by simp
  then show "dll w' (slabs_free c) (s # xs) 0" using u by simp
  have f: "sw_chunk w' = sw_chunk w4" "sl_num_free (sw_slab w' x) = sl_num_free (sw_slab w4 x)"
    "x \<notin> set (slabs_free c # s # xs) \<Longrightarrow> sw_slab w' x = sw_slab w4 x"
    "sw_heap w' = sw_heap w4" "sw_cache w' = sw_cache w4" for x
    using u(3) by (auto simp: wu slab_frame_def)
  show "sw_heap w' = sw_heap w" "sw_cache w' = sw_cache w" using f(4,5) i by (simp_all add: w4_def)
  show "x \<noteq> s \<Longrightarrow> sl_num_free (sw_slab w' x) = sl_num_free (sw_slab w x)"
    using f(2) i by (simp add: w4_def)
  show "x \<notin> set (slabs_free c # s # xs) \<Longrightarrow> sw_slab w' x = sw_slab w x"
    using f(3) i by (simp add: w4_def)
  have "chunk_of st s ` {0..<16} \<subseteq> slab_cells st s" by (auto simp: slab_cells_def)
  moreover have "base_chunk s \<in> slab_cells st s" by (simp add: slab_cells_def)
  ultimately have "x \<notin> slab_cells st s \<Longrightarrow> x \<notin> chunk_of st s ` {0..<16} \<and> x \<noteq> base_chunk s"
    by blast
  with i show "x \<notin> slab_cells st s \<Longrightarrow> sw_chunk w' x = sw_chunk w x"
    by (simp add: f(1) w4_def)
  have nb: "?c k \<noteq> base_chunk s" if "k \<le> 16" for k using chunk_of_neq_base(1) [OF fit that] .
  have ch: "ch_next_free (sw_chunk w' (?c k)) = ?c (Suc k)" "ch_slab (sw_chunk w' (?c k)) = s"
    "ch_data_addr (sw_chunk w' (?c k)) = ?c k + 20" if "k < 16" for k
    using i that nb [of k] by (simp_all add: f(1) w4_def)
  moreover have "ch_next_free (sw_chunk w' (base_chunk s)) = ?c 0"
    by (simp add: f(1) w4_def chunk_of_def)
  moreover have "free_chain w' (?c 0) (map ?c [0..<16]) (?c 16)"
    using ch(1) by (intro free_chain_upt) auto
  moreover have "sl_num_free (sw_slab w' s) = 16" using f(2) by (simp add: w4_def)
  ultimately show "slab_ok st w' (s, [0..<16])" using fit by (auto simp: slab_ok_def)
qed

section \<open>Caches and their objects\<close>

text \<open>
  A cache without alignment, viewed as its partial, free and full slabs. Everything lies below the
  last hole of the kernel heap, so a new slab cannot overlap it.
\<close>

definition cache_stride :: "'e slab_world \<Rightarrow> u32 \<Rightarrow> u32" where
  "cache_stride w c = sc_size (sw_cache w c) + CHUNK_SIZEOF"

definition slabs_sep :: "u32 \<Rightarrow> u32 set \<Rightarrow> bool" where
  "slabs_sep st A \<longleftrightarrow>
     (\<forall>s \<in> A. \<forall>s' \<in> A. s \<noteq> s' \<longrightarrow>
        unat s + 60 + 16 * unat st \<le> unat s' \<or> unat s' + 60 + 16 * unat st \<le> unat s)"

lemma slabs_sep_mono: "slabs_sep st A \<Longrightarrow> B \<subseteq> A \<Longrightarrow> slabs_sep st B"
  unfolding slabs_sep_def by blast

definition cache_rep ::
  "u32 \<Rightarrow> slab_view list \<Rightarrow> slab_view list \<Rightarrow> slab_view list \<Rightarrow> 'e slab_world \<Rightarrow> bool" where
  "cache_rep c P F U w \<longleftrightarrow>
     (let st = cache_stride w c; vs = P @ F @ U in
      c \<noteq> 0 \<and> sc_alignment (sw_cache w c) = 0 \<and> unat (sc_size (sw_cache w c)) < 0x1000000 \<and>
      open_heap (sw_heap w) \<and> unat c + 136 \<le> heap_low (sw_heap w) \<and>
      dll w (slabs_partial c) (map fst P) 0 \<and> dll w (slabs_free c) (map fst F) 0 \<and>
      dll w (slabs_full c) (map fst U) 0 \<and>
      distinct ([slabs_partial c, slabs_free c, slabs_full c] @ map fst vs) \<and>
      (\<forall>v \<in> set vs. slab_ok st w v \<and> unat (fst v) + 60 + 16 * unat st \<le> heap_low (sw_heap w)) \<and>
      slabs_sep st (fst ` set vs) \<and>
      (\<forall>v \<in> set P. 0 < length (snd v) \<and> length (snd v) < 16) \<and>
      (\<forall>v \<in> set F. snd v = [0..<16]) \<and> (\<forall>v \<in> set U. snd v = []))"

lemma slab_cells_bound:
  assumes "slab_fits st s" and "x \<in> slab_cells st s"
  shows "unat s < unat x" and "unat x < unat s + 60 + 16 * unat st"
proof -
  consider "x = base_chunk s" | i where "x = chunk_of st s i" "i \<le> 16"
    using assms(2) by (auto simp: slab_cells_def)
  then have "unat s < unat x \<and> unat x < unat s + 60 + 16 * unat st"
  proof cases
    case 1
    then show ?thesis using unat_base_chunk [OF assms(1)] by simp
  next
    case (2 i)
    then have "i * unat st \<le> 16 * unat st" by simp
    then show ?thesis using unat_chunk_of [OF assms(1) 2(2)] unfolding 2(1) by linarith
  qed
  then show "unat s < unat x" "unat x < unat s + 60 + 16 * unat st" by simp_all
qed

lemma slabs_sep_cells:
  assumes "slabs_sep st A" and "s \<in> A" and "s' \<in> A" and "s \<noteq> s'" and "slab_fits st s" and "slab_fits st s'"
  shows "slab_cells st s \<inter> slab_cells st s' = {}"
proof -
  have "unat s + 60 + 16 * unat st \<le> unat s' \<or> unat s' + 60 + 16 * unat st \<le> unat s"
    using assms(1-4) unfolding slabs_sep_def by blast
  moreover have "unat s < unat x \<and> unat x < unat s + 60 + 16 * unat st" if "x \<in> slab_cells st s" for x
    using slab_cells_bound [OF assms(5) that] by simp
  moreover have "unat s' < unat x \<and> unat x < unat s' + 60 + 16 * unat st" if "x \<in> slab_cells st s'" for x
    using slab_cells_bound [OF assms(6) that] by simp
  ultimately show ?thesis by fastforce
qed

lemma heads_distinct:
  fixes c :: u32
  assumes "unat c + 136 < 4294967296"
  shows "distinct [slabs_partial c, slabs_free c, slabs_full c]" and "slabs_partial c \<noteq> 0"
    and "slabs_free c \<noteq> 0" and "slabs_full c \<noteq> 0"
    and "unat (slabs_partial c) = unat c + 88" and "unat (slabs_free c) = unat c + 8"
    and "unat (slabs_full c) = unat c + 48"
proof -
  show u: "unat (slabs_partial c) = unat c + 88" "unat (slabs_free c) = unat c + 8"
    "unat (slabs_full c) = unat c + 48" using assms by (simp_all add: unat_u32_add)
  show "distinct [slabs_partial c, slabs_free c, slabs_full c]" by simp
  show "slabs_partial c \<noteq> 0" "slabs_free c \<noteq> 0" "slabs_full c \<noteq> 0" using u by auto
qed

lemma slabs_ok_other:
  assumes ok: "\<forall>v \<in> set vs. slab_ok st w v" and fit: "slab_fits st (fst v)" and sep: "slabs_sep st (fst ` set (v # vs))"
    and dist: "fst v \<notin> fst ` set vs"
    and ch: "\<And>x. x \<notin> slab_cells st (fst v) \<Longrightarrow> sw_chunk w' x = sw_chunk w x"
    and num: "\<And>x. x \<noteq> fst v \<Longrightarrow> sl_num_free (sw_slab w' x) = sl_num_free (sw_slab w x)"
  shows "\<forall>v \<in> set vs. slab_ok st w' v"
proof
  fix v' assume v': "v' \<in> set vs"
  then have ne: "fst v' \<noteq> fst v" using dist by (metis imageI)
  have "slab_cells st (fst v') \<inter> slab_cells st (fst v) = {}"
    using slabs_sep_cells [OF sep _ _ ne] fit ok v' by (auto simp: slab_ok_def)
  then have "\<forall>x \<in> slab_cells st (fst v'). sw_chunk w' x = sw_chunk w x" using ch by blast
  with slab_ok_cong [OF this num] ok v' ne show "slab_ok st w' v'" by auto
qed

text \<open>Taking an object off the first free list of a cache that has a slab with free chunks.\<close>

lemma slab_alloc_partial:
  assumes rep: "cache_rep c ((s, i # is) # P) F U w"
  shows "\<exists>w' P' U'. slab_alloc_from_cache mm c w = Inr (chunk_of (cache_stride w c) s i + 20, w') \<and>
    cache_rep c P' F U' w' \<and> set P' \<union> set U' = insert (s, is) (set P \<union> set U) \<and>
    sw_heap w' = sw_heap w \<and> cache_stride w' c = cache_stride w c"
proof -
  let ?st = "cache_stride w c"
  note r = rep [unfolded cache_rep_def Let_def]
  have c136: "unat c + 136 < 4294967296"
    using r unat_u32_lt [of "hole_top (sw_heap w)"] by (simp add: heap_low_def)
  note h = heads_distinct [OF this]
  have ok: "slab_ok ?st w (s, i # is)" using r by simp
  obtain p w2 where t: "slab_take s w = (p, w2)" by fastforce
  note tk = slab_take_ok [OF ok, unfolded t fst_conv snd_conv]
  have s0: "s \<noteq> 0" "sl_next (sw_slab w (slabs_partial c)) = s" using r by auto
  have np: "sl_next (sw_slab w2 x) = sl_next (sw_slab w x)" "sl_prev (sw_slab w2 x) = sl_prev (sw_slab w x)"
    for x using tk(4) by simp_all
  have d: "dll w2 (slabs_partial c) (map fst ((s, is) # P)) 0" "dll w2 (slabs_free c) (map fst F) 0"
    "dll w2 (slabs_full c) (map fst U) 0"
    using r np by (simp_all add: dll_cong [of w2 _ w])
  have len: "length is < 15" using r by simp
  have num: "sl_num_free (sw_slab w2 s) = word_of_nat (length is)" using tk(4) by simp
  have n0: "word_of_nat (length is) = (0 :: u32) \<longleftrightarrow> is = []"
    "word_of_nat (length is) \<noteq> (15 :: u32)"
    using len by (auto simp: word_unat_eq_iff unat_u32_of_nat)
  have "\<forall>v \<in> set (P @ F @ U). slab_ok ?st w2 v"
    using slabs_ok_other [of "P @ F @ U" ?st w "(s, i # is)" w2] r ok tk(3,4)
    by (simp add: image_Un slab_ok_def [of _ _ "(s, i # is)"])
  then have oks: "\<forall>v \<in> set ((s, is) # P @ F @ U). slab_ok ?st w2 v" using tk(2) by simp
  have st2: "cache_stride w2 c = ?st" using tk(6) by (simp add: cache_stride_def)
  show ?thesis
  proof (cases "is = []")
    case False
    then have "slab_alloc_from_cache mm c w = Inr (p, w2)"
      using r s0 t num n0 by (simp add: slab_alloc_from_cache_def Let_def)
    moreover have "cache_rep c ((s, is) # P) F U w2"
      using r oks d False tk(5,6) len st2 by (simp add: cache_rep_def Let_def image_Un)
    ultimately show ?thesis using tk(1,5,6) by (intro exI [of _ w2] exI [of _ "(s, is) # P"] exI [of _ U])
        (simp add: cache_stride_def)
  next
    case True
    have "distinct ([slabs_partial c, slabs_free c, slabs_full c] @ map fst (((s, i # is) # P) @ F @ U))"
      using r by blast
    then have dst: "distinct (slabs_partial c # slabs_full c # slabs_free c # [] @ s # map fst P @
        map fst U @ map fst F)" by auto
    have "dll w2 (slabs_partial c) ([] @ s # map fst P) 0" using d(1) by simp
    from slab_move [OF this d(3,2) dst h(2,4)] obtain w3 w4 where
      m: "slab_remove_from_cache s w2 = Inr (0, w3)" "slab_insert_in_cache (slabs_full c) s w3 = (0, w4)"
        "dll w4 (slabs_partial c) (map fst P) 0" "dll w4 (slabs_full c) (s # map fst U) 0"
        "dll w4 (slabs_free c) (map fst F) 0" "slab_frame UNIV w2 w4" by auto
    have al: "slab_alloc_from_cache mm c w = Inr (p, w4)"
      using r s0 t num n0 True m np by (simp add: slab_alloc_from_cache_def Let_def)
    have "slab_ok ?st w4 v = slab_ok ?st w2 v" for v
      using m(6) by (intro slab_ok_cong) (simp_all add: slab_frame_def)
    moreover have st4: "cache_stride w4 c = ?st" "sw_heap w4 = sw_heap w" "sw_cache w4 = sw_cache w"
      using m(6) st2 tk(5,6) by (simp_all add: cache_stride_def slab_frame_def)
    ultimately have "cache_rep c P F ((s, []) # U) w4"
      using r oks m(3-5) True by (simp add: cache_rep_def Let_def image_Un Un_ac)
    with al st4 tk(1) True show ?thesis
      by (intro exI [of _ w4] exI [of _ P] exI [of _ "(s, []) # U"]) simp
  qed
qed

lemma slab_alloc_free_slab:
  assumes rep: "cache_rep c [] ((s, i # is) # F) U w"
  shows "\<exists>w'. slab_alloc_from_cache mm c w = Inr (chunk_of (cache_stride w c) s i + 20, w') \<and>
    cache_rep c [(s, is)] F U w' \<and> sw_heap w' = sw_heap w \<and> cache_stride w' c = cache_stride w c"
proof -
  let ?st = "cache_stride w c"
  note r = rep [unfolded cache_rep_def Let_def]
  have c136: "unat c + 136 < 4294967296"
    using r unat_u32_lt [of "hole_top (sw_heap w)"] by (simp add: heap_low_def)
  note h = heads_distinct [OF this]
  have "\<forall>v \<in> set ((s, i # is) # F @ U). slab_ok ?st w v" using r by auto
  then have ok: "slab_ok ?st w (s, i # is)" by simp
  obtain p w2 where t: "slab_take s w = (p, w2)" by fastforce
  note tk = slab_take_ok [OF ok, unfolded t fst_conv snd_conv]
  have s0: "s \<noteq> 0" "sl_next (sw_slab w (slabs_free c)) = s" using r by auto
  have np: "sl_next (sw_slab w2 x) = sl_next (sw_slab w x)" "sl_prev (sw_slab w2 x) = sl_prev (sw_slab w x)"
    for x using tk(4) by simp_all
  have d: "dll w2 (slabs_partial c) [] 0" "dll w2 (slabs_free c) (s # map fst F) 0"
    "dll w2 (slabs_full c) (map fst U) 0"
    using r np by (simp_all add: dll_cong [of w2 _ w])
  have "length (i # is) = 16" using r by simp
  then have len: "length is = 15" by simp
  have num: "sl_num_free (sw_slab w2 s) = 15" using tk(4) len by simp
  have "\<forall>v \<in> set (F @ U). slab_ok ?st w2 v"
    using slabs_ok_other [of "F @ U" ?st w "(s, i # is)" w2] r ok tk(3,4)
    by (simp add: image_Un slab_ok_def [of _ _ "(s, i # is)"])
  then have oks: "\<forall>v \<in> set ((s, is) # F @ U). slab_ok ?st w2 v" using tk(2) by simp
  have "dll w2 (slabs_free c) ([] @ s # map fst F) 0"
    "distinct (slabs_free c # slabs_partial c # slabs_full c # [] @ s # map fst F @ [] @ map fst U)"
    using d(2) r by auto
  from slab_move [OF this(1) d(1,3) this(2) h(3,2)] obtain w3 w4 where
    m: "slab_remove_from_cache s w2 = Inr (0, w3)" "slab_insert_in_cache (slabs_partial c) s w3 = (0, w4)"
      "dll w4 (slabs_free c) (map fst F) 0" "dll w4 (slabs_partial c) [s] 0"
      "dll w4 (slabs_full c) (map fst U) 0" "slab_frame UNIV w2 w4" by auto
  have st4: "cache_stride w4 c = ?st" "sw_heap w4 = sw_heap w" "sw_cache w4 = sw_cache w"
    using m(6) tk(5,6) by (simp_all add: cache_stride_def slab_frame_def)
  have al: "slab_alloc_from_cache mm c w = Inr (p, w4)"
    using r s0 t num m np by (simp add: slab_alloc_from_cache_def Let_def)
  have "slab_ok ?st w4 v = slab_ok ?st w2 v" for v
    using m(6) by (intro slab_ok_cong) (simp_all add: slab_frame_def)
  then have "cache_rep c [(s, is)] F U w4"
    using r oks m(3-5) len st4 by (simp add: cache_rep_def Let_def image_Un Un_ac)
  with al st4 tk(1) show ?thesis by (intro exI [of _ w4]) simp
qed

text \<open>The room a cache needs of the heap for one more slab.\<close>

definition slab_cost :: "u32 \<Rightarrow> nat" where
  "slab_cost st = 16 * unat st + 124"

lemma slab_alloc_slab_rep:
  assumes rep: "cache_rep c [] [] U w" and room: "slab_cost (cache_stride w c) \<le> heap_room (sw_heap w)"
  shows "\<exists>s w'. slab_alloc_slab_align mm c 0 w = Inr (0, w') \<and> cache_rep c [] [(s, [0..<16])] U w' \<and>
    cache_stride w' c = cache_stride w c \<and> s \<notin> fst ` set U \<and>
    heap_low (sw_heap w') + heap_room (sw_heap w') = heap_low (sw_heap w) + heap_room (sw_heap w) \<and>
    heap_low (sw_heap w') \<le> heap_low (sw_heap w) + slab_cost (cache_stride w c)"
proof -
  let ?st = "cache_stride w c" and ?h = "sw_heap w"
  let ?bytes = "40 + (17 * ?st - sc_size (sw_cache w c))"
  note r = rep [unfolded cache_rep_def Let_def]
  have c136: "unat c + 136 < 4294967296"
    using r unat_u32_lt [of "hole_top ?h"] by (simp add: heap_low_def)
  note hd = heads_distinct [OF this]
  have st: "unat ?st = unat (sc_size (sw_cache w c)) + 20"
    using r by (simp add: cache_stride_def unat_u32_add)
  have "?bytes = 60 + 16 * ?st" by (simp add: cache_stride_def)
  moreover have "unat (16 * ?st) = 16 * unat ?st"
    using r st by (subst unat_u32_mult) simp_all
  then have "unat (60 + 16 * ?st) = 60 + 16 * unat ?st"
    using r st by (subst unat_u32_add) simp_all
  ultimately have b: "unat ?bytes = 60 + 16 * unat ?st" by metis
  then have b0: "?bytes \<noteq> 0" by (metis unat_0 add_is_0 zero_neq_numeral)
  have "req_valid (?bytes, 16)" using b0 by simp
  moreover have "req_cost (?bytes, 16) \<le> heap_room ?h" using room b by (simp add: slab_cost_def)
  moreover have "open_heap ?h" using r by simp
  ultimately obtain s h1 where k: "kmalloc mm ?bytes ?h = Inr (s, h1)" "open_heap h1"
    "heap_low ?h \<le> unat s" "unat s + unat ?bytes \<le> heap_low h1"
    "heap_low h1 + heap_room h1 = heap_low ?h + heap_room ?h"
    "heap_low h1 \<le> heap_low ?h + req_cost (?bytes, 16)"
    using kmalloc_req_serve [of ?h "(?bytes, 16)" mm] by (auto simp: kmalloc_req_def kmalloc_def)
  have fit: "slab_fits ?st s"
    using k(3,4) b st r unat_u32_lt [of "hole_top h1"] by (auto simp: slab_fits_def heap_low_def)
  have sU: "s \<notin> fst ` set U" using r k(3) by fastforce
  have sh: "s \<noteq> slabs_partial c" "s \<noteq> slabs_free c" "s \<noteq> slabs_full c"
    using r k(3) hd(5-7) by (auto simp: heap_low_def)
  let ?w = "w\<lparr>sw_heap := h1\<rparr>"
  have dw: "dll ?w g xs z = dll w g xs z" for g xs z by (rule dll_cong) simp_all
  have okw: "slab_ok ?st ?w v = slab_ok ?st w v" for v by (rule slab_ok_cong) simp_all
  define w' where "w' = slab_setup c 0 s 0 ?st ?w"
  note su = slab_setup_ok [where dat = 0 and w = ?w and c = c and xs = "[]", OF fit, folded w'_def]
  have d: "dll ?w (slabs_free c) [] 0" "distinct (slabs_free c # s # [])" "slabs_free c \<noteq> 0"
    using r sh hd by (auto simp: dw)
  note su = su [OF d]
  have s0: "s \<noteq> 0" using fit by (simp add: slab_fits_def)
  have a: "slab_alloc_slab_align mm c 0 w = Inr (0, w')"
    using k(1) s0 by (simp add: slab_alloc_slab_align_def w'_def cache_stride_def Let_def)
  have st': "cache_stride w' c = ?st" using su(7) by (simp add: cache_stride_def)
  have lists: "dll w' (slabs_partial c) [] 0" "dll w' (slabs_full c) (map fst U) 0"
  proof -
    have "sw_slab w' x = sw_slab w x" if "x \<in> insert (slabs_partial c) (insert (slabs_full c) (fst ` set U))" for x
    proof -
      have "slabs_free c \<notin> fst ` set U" "slabs_partial c \<noteq> slabs_free c" "slabs_full c \<noteq> slabs_free c"
        using r by auto
      with that sU sh have "x \<noteq> slabs_free c" "x \<noteq> s" by (metis insert_iff)+
      with su(5) [of x] show ?thesis by simp
    qed
    then show "dll w' (slabs_partial c) [] 0" "dll w' (slabs_full c) (map fst U) 0"
      using r by (simp_all add: dll_cong [of w' _ w])
  qed
  have sep: "slabs_sep ?st (fst ` set ((s, [0..<16]) # U))"
  proof -
    have "unat (fst v) + 60 + 16 * unat ?st \<le> unat s" if "v \<in> set U" for v
      using r that k(3) by fastforce
    then show ?thesis using r by (auto simp: slabs_sep_def)
  qed
  then have "\<forall>v \<in> set U. slab_ok ?st w' v"
    using slabs_ok_other [of U ?st ?w "(s, [0..<16])" w'] r sU fit su(3,4) okw by simp
  moreover have "heap_low (sw_heap w') = heap_low h1" "open_heap (sw_heap w')"
    using su(6) k(2) by simp_all
  moreover have "heap_low ?h \<le> heap_low h1" using k(3,4) by simp
  ultimately have "cache_rep c [] [(s, [0..<16])] U w'"
    using r su(1,2,7) lists sep sU sh hd(1) k(4) b st'
    by (auto simp: cache_rep_def Let_def intro: order_trans)
  with a st' sU su(6) k(5,6) b show ?thesis
    by (intro exI [of _ s] exI [of _ w']) (simp add: slab_cost_def)
qed

section \<open>Releasing an object\<close>

lemma sorted_split:
  fixes i :: nat
  assumes "sorted_wrt (<) is" and "i \<notin> set is"
  shows "\<exists>as bs. is = as @ bs \<and> sorted_wrt (<) (as @ i # bs)"
  using assms
proof (induction "is")
  case (Cons x xs)
  then obtain as bs where ab: "xs = as @ bs" "sorted_wrt (<) (as @ i # bs)" by auto
  show ?case
  proof (cases "x < i")
    case True
    with Cons.prems ab show ?thesis by (intro exI [of _ "x # as"] exI [of _ bs]) auto
  next
    case False
    with Cons.prems show ?thesis
      by (intro exI [of _ "[]"] exI [of _ "x # xs"]) (auto intro: less_trans)
  qed
qed auto

lemma sorted_full:
  assumes "sorted_wrt (<) (is :: nat list)" and "set is \<subseteq> {..<n}" and "length is = n"
  shows "is = [0..<n]"
proof -
  have "distinct is" and "sorted is" using assms(1) by (simp_all add: strict_sorted_iff)
  have "card (set is) = card {..<n}" using distinct_card [OF \<open>distinct is\<close>] assms(3) by simp
  then have "set is = {..<n}" by (rule card_subset_eq [OF finite_lessThan assms(2)])
  then have "set is = set [0..<n]" by (simp add: atLeast0LessThan)
  then show ?thesis
    using sorted_distinct_set_unique [OF \<open>sorted is\<close> \<open>distinct is\<close>, of "[0..<n]"] by simp
qed

lemma slab_put_ok:
  assumes ok: "slab_ok st w (s, as @ bs)" and srt: "sorted_wrt (<) (as @ i # bs)" and i: "i < 16"
    and w2: "sw_chunk w2 = sw_chunk w" "sl_num_free (sw_slab w2 s) = word_of_nat (length (as @ i # bs))"
  shows "\<exists>w'. slab_put (base_chunk s) (chunk_of st s i) w2 = Inr w' \<and> slab_ok st w' (s, as @ i # bs) \<and>
    (\<forall>x. x \<notin> slab_cells st s \<longrightarrow> sw_chunk w' x = sw_chunk w x) \<and>
    sw_slab w' = sw_slab w2 \<and> sw_heap w' = sw_heap w2 \<and> sw_cache w' = sw_cache w2"
proof -
  note o = ok [unfolded slab_ok_def fst_conv snd_conv]
  have rng: "set (as @ i # bs) \<subseteq> {..<16}" using o i by auto
  have "free_chain w2 (ch_next_free (sw_chunk w2 (base_chunk s))) (map (chunk_of st s) (as @ bs))
      (chunk_of st s 16)"
    using o by (subst free_chain_cong [of _ _ w]) (simp_all add: w2)
  from slab_put_chain [OF _ srt rng this] o obtain w' where
    p: "slab_put (base_chunk s) (chunk_of st s i) w2 = Inr w'"
      "free_chain w' (ch_next_free (sw_chunk w' (base_chunk s))) (map (chunk_of st s) (as @ i # bs))
        (chunk_of st s 16)"
      "\<forall>x. x \<notin> slab_cells st s \<longrightarrow> sw_chunk w' x = sw_chunk w2 x"
      "\<forall>x. ch_slab (sw_chunk w' x) = ch_slab (sw_chunk w2 x) \<and>
         ch_data_addr (sw_chunk w' x) = ch_data_addr (sw_chunk w2 x)"
      "sw_slab w' = sw_slab w2" "sw_heap w' = sw_heap w2" "sw_cache w' = sw_cache w2" by blast
  then have "slab_ok st w' (s, as @ i # bs)"
    using o srt rng w2 unfolding slab_ok_def fst_conv snd_conv by simp
  with p w2(1) show ?thesis by auto
qed

text \<open>The part of \<open>slab_free\<close> between the lookup of the chunk and its insertion.\<close>

lemma slab_free_unfold:
  assumes "cache_rep c P F U w" and "slab_ok (cache_stride w c) w (s, is)" and "i < 16"
  shows "slab_free c (chunk_of (cache_stride w c) s i + 20) w =
    (let w1 = upd_slab s (\<lambda>b. b\<lparr>sl_num_free := sl_num_free b + 1\<rparr>) w;
         n = word_of_nat (Suc (length is)) :: u32
     in bindE
       (if n = 1 then bindE (slab_remove_from_cache s w1)
                       (\<lambda>(_, w2). Inr (snd (slab_insert_in_cache (slabs_partial c) s w2)))
        else if n = 16 then bindE (slab_remove_from_cache s w1)
                       (\<lambda>(_, w2). Inr (snd (slab_insert_in_cache (slabs_free c) s w2)))
        else Inr w1)
       (slab_put (base_chunk s) (chunk_of (cache_stride w c) s i)))"
proof -
  let ?k = "chunk_of (cache_stride w c) s i"
  have fit: "slab_fits (cache_stride w c) s" using assms(2) by (simp add: slab_ok_def)
  have "unat ?k + 20 < 4294967296"
  proof -
    have "i * unat (cache_stride w c) \<le> 16 * unat (cache_stride w c)" using assms(3) by simp
    then show ?thesis using unat_chunk_of [OF fit, of i] assms(3) fit
      unfolding slab_fits_def by linarith
  qed
  then have "unat (?k + 20) = unat ?k + 20" by (simp add: unat_u32_add)
  then have "?k + 20 \<noteq> 0" by auto
  moreover have "ch_slab (sw_chunk w ?k) = s" "sl_num_free (sw_slab w s) = word_of_nat (length is)"
    using assms(2,3) by (simp_all add: slab_ok_def)
  moreover have "sc_alignment (sw_cache w c) = 0" using assms(1) by (simp add: cache_rep_def Let_def)
  ultimately show ?thesis
    by (simp add: slab_free_def slab_obj_chunk_def Let_def add.commute)
qed

lemma cache_rep_change:
  assumes rep: "cache_rep c P F U w" and v: "(s, is) \<in> set (P @ F @ U)"
    and ok: "slab_ok (cache_stride w c) w' (s, is')"
    and ch: "\<And>x. x \<notin> slab_cells (cache_stride w c) s \<Longrightarrow> sw_chunk w' x = sw_chunk w x"
    and num: "\<And>x. x \<noteq> s \<Longrightarrow> sl_num_free (sw_slab w' x) = sl_num_free (sw_slab w x)"
    and same: "sw_heap w' = sw_heap w" "sw_cache w' = sw_cache w"
    and d: "dll w' (slabs_partial c) (map fst P') 0" "dll w' (slabs_free c) (map fst F') 0"
      "dll w' (slabs_full c) (map fst U') 0"
    and dist: "distinct ([slabs_partial c, slabs_free c, slabs_full c] @ map fst (P' @ F' @ U'))"
    and views: "set (P' @ F' @ U') \<subseteq> insert (s, is') (set (P @ F @ U))" "(s, is') \<in> set (P' @ F' @ U')"
    and shape: "\<forall>v \<in> set P'. 0 < length (snd v) \<and> length (snd v) < 16" "\<forall>v \<in> set F'. snd v = [0..<16]"
      "\<forall>v \<in> set U'. snd v = []"
  shows "cache_rep c P' F' U' w'"
proof -
  let ?st = "cache_stride w c"
  note r = rep [unfolded cache_rep_def Let_def]
  have st: "cache_stride w' c = ?st" by (simp add: cache_stride_def same)
  have okf: "slab_fits ?st (fst u)" if "u \<in> set (P @ F @ U)" for u
  proof -
    have "slab_ok ?st w u" using r that by blast
    then show ?thesis by (simp add: slab_ok_def)
  qed
  have sub: "fst ` set (P' @ F' @ U') \<subseteq> fst ` set (P @ F @ U)"
  proof
    fix a assume "a \<in> fst ` set (P' @ F' @ U')"
    then obtain b where "(a, b) \<in> set (P' @ F' @ U')" by force
    with views(1) v have "(a, b) \<in> set (P @ F @ U) \<or> a = s" by auto
    with v show "a \<in> fst ` set (P @ F @ U)" by (metis fst_conv imageI)
  qed
  have rest: "slab_ok ?st w' u" if u: "u \<in> set (P' @ F' @ U')" for u
  proof (cases "fst u = s")
    case True
    then have "u = (s, is')"
      using u views(2) dist eq_key_imp_eq_value [of "P' @ F' @ U'" s "snd u" is'] by (cases u) auto
    with ok show ?thesis by simp
  next
    case False
    then have u': "u \<in> set (P @ F @ U)" using u views(1) by auto
    have "slabs_sep ?st (fst ` set (P @ F @ U))" using r by blast
    then have "slab_cells ?st (fst u) \<inter> slab_cells ?st s = {}"
      using False imageI [OF u', of fst] imageI [OF v, of fst] okf [OF u'] okf [OF v]
      by (intro slabs_sep_cells) simp_all
    then have "\<forall>x \<in> slab_cells ?st (fst u). sw_chunk w' x = sw_chunk w x" using ch by blast
    with slab_ok_cong [OF this num] False r u' show ?thesis by blast
  qed
  have low: "unat (fst u) + 60 + 16 * unat ?st \<le> heap_low (sw_heap w)"
    if "u \<in> set (P' @ F' @ U')" for u
  proof -
    have "fst u \<in> fst ` set (P @ F @ U)" using sub that by blast
    then obtain u' where "u' \<in> set (P @ F @ U)" "fst u' = fst u" by (metis imageE)
    then show ?thesis using r by metis
  qed
  have "slabs_sep ?st (fst ` set (P @ F @ U))" using r by blast
  then have sep: "slabs_sep ?st (fst ` set (P' @ F' @ U'))" using sub by (rule slabs_sep_mono)
  have all: "\<forall>v \<in> set (P' @ F' @ U'). slab_ok ?st w' v \<and>
      unat (fst v) + 60 + 16 * unat ?st \<le> heap_low (sw_heap w)" using rest low by blast
  have "c \<noteq> 0 \<and> sc_alignment (sw_cache w c) = 0 \<and> unat (sc_size (sw_cache w c)) < 0x1000000 \<and>
      open_heap (sw_heap w) \<and> unat c + 136 \<le> heap_low (sw_heap w)" using r by blast
  with all sep d dist shape show ?thesis unfolding cache_rep_def Let_def st same by blast
qed

definition bump_free :: "u32 \<Rightarrow> 'e slab_world \<Rightarrow> 'e slab_world" where
  "bump_free s w = upd_slab s (\<lambda>b. b\<lparr>sl_num_free := sl_num_free b + 1\<rparr>) w"

lemma dll_bump_free [simp]: "dll (bump_free s w) g xs z = dll w g xs z"
  by (rule dll_cong) (simp_all add: bump_free_def)

lemma slab_free_finish:
  assumes rep: "cache_rep c P F U w" and v: "(s, as @ bs) \<in> set (P @ F @ U)"
    and srt: "sorted_wrt (<) (as @ i # bs)" and i: "i < 16"
    and w2: "slab_frame UNIV (bump_free s w) w2"
    and d2: "dll w2 (slabs_partial c) (map fst P') 0" "dll w2 (slabs_free c) (map fst F') 0"
      "dll w2 (slabs_full c) (map fst U') 0"
    and dist': "distinct ([slabs_partial c, slabs_free c, slabs_full c] @ map fst (P' @ F' @ U'))"
    and set': "set (P' @ F' @ U') = insert (s, as @ i # bs) (set (P @ F @ U) - {(s, as @ bs)})"
    and shape': "\<forall>v \<in> set P'. 0 < length (snd v) \<and> length (snd v) < 16"
      "\<forall>v \<in> set F'. snd v = [0..<16]" "\<forall>v \<in> set U'. snd v = []"
  shows "\<exists>w'. slab_put (base_chunk s) (chunk_of (cache_stride w c) s i) w2 = Inr w' \<and>
    cache_rep c P' F' U' w' \<and> sw_heap w' = sw_heap w \<and> cache_stride w' c = cache_stride w c"
proof -
  let ?st = "cache_stride w c"
  have ok: "slab_ok ?st w (s, as @ bs)"
    using rep v unfolding cache_rep_def Let_def by blast
  have "sw_chunk w2 = sw_chunk w" "sl_num_free (sw_slab w2 s) = word_of_nat (length (as @ i # bs))"
    "sw_heap w2 = sw_heap w" "sw_cache w2 = sw_cache w"
    using w2 ok by (simp_all add: slab_frame_def bump_free_def slab_ok_def)
  with slab_put_ok [OF ok srt i, of w2] obtain w' where
    p: "slab_put (base_chunk s) (chunk_of ?st s i) w2 = Inr w'" "slab_ok ?st w' (s, as @ i # bs)"
      "\<And>x. x \<notin> slab_cells ?st s \<Longrightarrow> sw_chunk w' x = sw_chunk w x"
      "sw_slab w' = sw_slab w2" "sw_heap w' = sw_heap w" "sw_cache w' = sw_cache w" by auto
  have "sl_num_free (sw_slab w' x) = sl_num_free (sw_slab w x)" if "x \<noteq> s" for x
    using that w2 p(4) by (simp add: slab_frame_def bump_free_def)
  moreover have "dll w' g xs z = dll w2 g xs z" for g xs z
    by (rule dll_cong) (simp_all add: p(4))
  moreover have "set (P' @ F' @ U') \<subseteq> insert (s, as @ i # bs) (set (P @ F @ U))"
    "(s, as @ i # bs) \<in> set (P' @ F' @ U')" unfolding set' by blast+
  ultimately have "cache_rep c P' F' U' w'"
    using cache_rep_change [OF rep v p(2,3) _ p(5,6), where P' = P' and F' = F' and U' = U']
      d2 dist' shape' by blast
  with p show ?thesis by (auto simp: cache_stride_def)
qed

lemma slab_free_rep:
  assumes rep: "cache_rep c P F U w" and v: "(s, is) \<in> set (P @ F @ U)" and i: "i < 16" "i \<notin> set is"
  shows "\<exists>w' P' F' U' as bs. slab_free c (chunk_of (cache_stride w c) s i + 20) w = Inr w' \<and>
    cache_rep c P' F' U' w' \<and> is = as @ bs \<and>
    set (P' @ F' @ U') = insert (s, as @ i # bs) (set (P @ F @ U) - {(s, is)}) \<and>
    sw_heap w' = sw_heap w \<and> cache_stride w' c = cache_stride w c"
proof -
  let ?st = "cache_stride w c" and ?w1 = "bump_free s w"
  note r = rep [unfolded cache_rep_def Let_def]
  have c136: "unat c + 136 < 4294967296"
    using r unat_u32_lt [of "hole_top (sw_heap w)"] by (simp add: heap_low_def)
  note h = heads_distinct [OF this]
  have ok: "slab_ok ?st w (s, is)" using r v by blast
  have srt: "sorted_wrt (<) is" "set is \<subseteq> {..<16}" using ok by (simp_all add: slab_ok_def)
  obtain as bs where ab: "is = as @ bs" "sorted_wrt (<) (as @ i # bs)"
    using sorted_split [OF srt(1) i(2)] by blast
  have dst: "distinct ([slabs_partial c, slabs_free c, slabs_full c] @ map fst (P @ F @ U))"
    using r by blast
  have dl: "dll ?w1 (slabs_partial c) (map fst P) 0" "dll ?w1 (slabs_free c) (map fst F) 0"
    "dll ?w1 (slabs_full c) (map fst U) 0" using r by simp_all
  have shape: "\<forall>v \<in> set P. 0 < length (snd v) \<and> length (snd v) < 16" "\<forall>v \<in> set F. snd v = [0..<16]"
    "\<forall>v \<in> set U. snd v = []" using r by blast+
  note fr = slab_free_unfold [OF rep ok i(1), folded bump_free_def]
  note fin = slab_free_finish [OF rep v [unfolded ab(1)] ab(2) i(1)]
  have "(s, is) \<notin> set F" using shape(2) i by auto
  then consider (full) U1 U2 where "U = U1 @ (s, []) # U2" "is = []"
    | (part) P1 P2 where "P = P1 @ (s, is) # P2" "0 < length is" "length is < 16"
    using v shape(1,3) by (auto dest!: split_list)
  then show ?thesis
  proof cases
    case full
    have e: "as = []" "bs = []" using full ab by simp_all
    have d1: "dll ?w1 (slabs_full c) (map fst U1 @ s # map fst U2) 0" using dl(3) full by simp
    have "distinct (slabs_full c # slabs_partial c # slabs_free c # map fst U1 @ s # map fst U2 @
        map fst P @ map fst F)" by (rule distinct_perm [OF dst]) (simp add: full)
    from slab_move [OF d1 dl(1,2) this h(4,2)] obtain w2 w3 where
      m: "slab_remove_from_cache s ?w1 = Inr (0, w2)" "slab_insert_in_cache (slabs_partial c) s w2 = (0, w3)"
        "dll w3 (slabs_full c) (map fst (U1 @ U2)) 0" "dll w3 (slabs_partial c) (map fst ((s, [i]) # P)) 0"
        "dll w3 (slabs_free c) (map fst F) 0" "slab_frame UNIV ?w1 w3" by auto
    have "slab_free c (chunk_of ?st s i + 20) w = slab_put (base_chunk s) (chunk_of ?st s i) w3"
      using m by (simp add: fr full Let_def)
    moreover have dist': "distinct ([slabs_partial c, slabs_free c, slabs_full c] @
        map fst (((s, [i]) # P) @ F @ (U1 @ U2)))" by (rule distinct_perm [OF dst]) (simp add: full)
    moreover have set': "set (((s, [i]) # P) @ F @ (U1 @ U2)) =
        insert (s, as @ i # bs) (set (P @ F @ U) - {(s, as @ bs)})"
      using dst unfolding full e by (force simp: image_iff)
    moreover have "\<forall>v \<in> set ((s, [i]) # P). 0 < length (snd v) \<and> length (snd v) < 16"
      "\<forall>v \<in> set (U1 @ U2). snd v = []" using shape full by auto
    ultimately show ?thesis
      using fin [OF m(6,4,5,3)] shape(2) ab(1) by metis
  next
    case part
    have sp: "\<forall>v \<in> set (P1 @ P2). 0 < length (snd v) \<and> length (snd v) < 16" using shape(1) part by auto
    show ?thesis
    proof (cases "length is = 15")
      case True
      have "set (as @ i # bs) \<subseteq> {..<16}" "length (as @ i # bs) = 16"
        using ab srt(2) i True by auto
      then have e: "as @ i # bs = [0..<16]" using sorted_full [OF ab(2)] by blast
      have d1: "dll ?w1 (slabs_partial c) (map fst P1 @ s # map fst P2) 0" using dl(1) part by simp
      have "distinct (slabs_partial c # slabs_free c # slabs_full c # map fst P1 @ s # map fst P2 @
          map fst F @ map fst U)" by (rule distinct_perm [OF dst]) (simp add: part)
      from slab_move [OF d1 dl(2,3) this h(2,3)] obtain w2 w3 where
        m: "slab_remove_from_cache s ?w1 = Inr (0, w2)" "slab_insert_in_cache (slabs_free c) s w2 = (0, w3)"
          "dll w3 (slabs_partial c) (map fst (P1 @ P2)) 0"
          "dll w3 (slabs_free c) (map fst ((s, as @ i # bs) # F)) 0"
          "dll w3 (slabs_full c) (map fst U) 0" "slab_frame UNIV ?w1 w3" by auto
      have "slab_free c (chunk_of ?st s i + 20) w = slab_put (base_chunk s) (chunk_of ?st s i) w3"
        using m True by (simp add: fr Let_def)
      moreover have dist': "distinct ([slabs_partial c, slabs_free c, slabs_full c] @
          map fst ((P1 @ P2) @ ((s, as @ i # bs) # F) @ U))" by (rule distinct_perm [OF dst]) (simp add: part)
      moreover have set': "set ((P1 @ P2) @ ((s, as @ i # bs) # F) @ U) =
          insert (s, as @ i # bs) (set (P @ F @ U) - {(s, as @ bs)})"
        using dst unfolding part ab(1) by (force simp: image_iff)
      moreover have "\<forall>v \<in> set ((s, as @ i # bs) # F). snd v = [0..<16]" using shape(2) e by simp
      ultimately show ?thesis
        using fin [OF m(6,3,4,5)] sp shape(3) ab(1) by metis
    next
      case False
      have "unat (word_of_nat (Suc (length is)) :: u32) = Suc (length is)"
        using part by (intro unat_u32_of_nat) simp
      then have "word_of_nat (Suc (length is)) \<noteq> (1 :: u32)" "word_of_nat (Suc (length is)) \<noteq> (16 :: u32)"
        using part False unfolding word_unat_eq_iff by simp_all
      then have "slab_free c (chunk_of ?st s i + 20) w = slab_put (base_chunk s) (chunk_of ?st s i) ?w1"
        by (simp add: fr Let_def)
      moreover have "slab_frame UNIV ?w1 ?w1" by (simp add: slab_frame_def)
      moreover have "dll ?w1 (slabs_partial c) (map fst (P1 @ (s, as @ i # bs) # P2)) 0"
        using dl(1) part by simp
      moreover have dist': "distinct ([slabs_partial c, slabs_free c, slabs_full c] @
          map fst ((P1 @ (s, as @ i # bs) # P2) @ F @ U))" by (rule distinct_perm [OF dst]) (simp add: part)
      moreover have set': "set ((P1 @ (s, as @ i # bs) # P2) @ F @ U) =
          insert (s, as @ i # bs) (set (P @ F @ U) - {(s, as @ bs)})"
        using dst unfolding part ab(1) by (force simp: image_iff)
      moreover have "\<forall>v \<in> set (P1 @ (s, as @ i # bs) # P2). 0 < length (snd v) \<and> length (snd v) < 16"
        using sp part False ab(1) by auto
      ultimately show ?thesis
        using fin [of ?w1 "P1 @ (s, as @ i # bs) # P2" F U] dl(2,3) shape(2,3) ab(1) by metis
    qed
  qed
qed

end
