(* ===== verification/Slab_Objects.thy ===== *)
theory Slab_Objects
  imports Slab_Alloc
begin

text \<open>
  What the slab allocator promises its clients: the set of objects in use of a cache, that an
  allocation hands out an object that is not in use and overlaps none, that a release gives it
  back, and that a new cache starts with no object in use. Clients rely on the locale
  \<open>object_cache\<close> only.
\<close>

section \<open>Live objects\<close>

definition slab_live :: "u32 \<Rightarrow> slab_view \<Rightarrow> u32 set" where
  "slab_live st v = (\<lambda>i. chunk_of st (fst v) i + 20) ` ({..<16} - set (snd v))"

definition live_objs :: "u32 \<Rightarrow> slab_view set \<Rightarrow> u32 set" where
  "live_objs st V = (\<Union>v \<in> V. slab_live st v)"

text \<open>\<open>cache_live st c L w\<close>: the cache \<open>c\<close> is well formed, its objects lie \<open>st\<close> bytes apart, and the
  objects in use are \<open>L\<close>.\<close>

definition cache_live :: "u32 \<Rightarrow> u32 \<Rightarrow> u32 set \<Rightarrow> 'e slab_world \<Rightarrow> bool" where
  "cache_live st c L w \<longleftrightarrow> st = cache_stride w c \<and>
     (\<exists>P F U. cache_rep c P F U w \<and> L = live_objs st (set (P @ F @ U)))"

lemma live_objsE:
  assumes "p \<in> live_objs st V"
  obtains s "is" i where "(s, is) \<in> V" "i < 16" "i \<notin> set is" "p = chunk_of st s i + 20"
  using assms unfolding live_objs_def slab_live_def by fastforce

lemma slab_live_free [simp]: "slab_live st (s, [0..<16]) = {}"
  by (simp add: slab_live_def atLeast0LessThan)

lemma live_objs_insert [simp]: "live_objs st (insert v V) = slab_live st v \<union> live_objs st V"
  by (simp add: live_objs_def)

lemma unat_object:
  assumes "slab_fits st s" and "i < 16"
  shows "unat (chunk_of st s i + 20) = unat s + 60 + i * unat st"
proof -
  have "i * unat st \<le> 16 * unat st" using assms(2) by simp
  then have "unat (chunk_of st s i) + 20 < 4294967296"
    using unat_chunk_of [OF assms(1), of i] assms unfolding slab_fits_def by linarith
  then show ?thesis using unat_chunk_of [OF assms(1), of i] assms(2) by (simp add: unat_u32_add)
qed

text \<open>Two objects of a cache lie at least \<open>st\<close> bytes apart.\<close>

lemma objects_apart:
  assumes sep: "slabs_sep st A" and "s \<in> A" "s' \<in> A" and fit: "slab_fits st s" "slab_fits st s'"
    and i: "i < 16" "j < 16" and ne: "(s, i) \<noteq> (s', j)"
  defines "p \<equiv> chunk_of st s i + 20" and "q \<equiv> chunk_of st s' j + 20"
  shows "unat p + unat st \<le> unat q \<or> unat q + unat st \<le> unat p"
proof -
  have p: "unat p = unat s + 60 + i * unat st" and q: "unat q = unat s' + 60 + j * unat st"
    using unat_object fit i by (simp_all add: p_def q_def)
  have step: "i * unat st + unat st \<le> 16 * unat st" "j * unat st + unat st \<le> 16 * unat st"
    using i mult_le_mono1 [of "Suc i" 16 "unat st"] mult_le_mono1 [of "Suc j" 16 "unat st"] by simp_all
  show ?thesis
  proof (cases "s = s'")
    case True
    with ne have "i < j \<or> j < i" by auto
    then have "i * unat st + unat st \<le> j * unat st \<or> j * unat st + unat st \<le> i * unat st"
      using mult_le_mono1 [of "Suc i" j "unat st"] mult_le_mono1 [of "Suc j" i "unat st"] by auto
    then show ?thesis using p q True by auto
  next
    case False
    then have "unat s + 60 + 16 * unat st \<le> unat s' \<or> unat s' + 60 + 16 * unat st \<le> unat s"
      using assms(1-3) unfolding slabs_sep_def by blast
    then show ?thesis using p q step by linarith
  qed
qed

lemma rep_objects_apart:
  assumes rep: "cache_rep c P F U w" and v: "(s, is) \<in> set (P @ F @ U)" "(s', js) \<in> set (P @ F @ U)"
    and i: "i < 16" "j < 16" and ne: "(s, i) \<noteq> (s', j)"
  defines "st \<equiv> cache_stride w c"
  shows "unat (chunk_of st s i + 20) + unat st \<le> unat (chunk_of st s' j + 20) \<or>
    unat (chunk_of st s' j + 20) + unat st \<le> unat (chunk_of st s i + 20)"
proof -
  have "slabs_sep st (fst ` set (P @ F @ U))" "slab_ok st w (s, is)" "slab_ok st w (s', js)"
    using rep v unfolding cache_rep_def Let_def st_def by blast+
  moreover have "s \<in> fst ` set (P @ F @ U)" "s' \<in> fst ` set (P @ F @ U)"
    using imageI [OF v(1), of fst] imageI [OF v(2), of fst] by simp_all
  ultimately show ?thesis using i ne by (intro objects_apart) (simp_all add: slab_ok_def)
qed

text \<open>Changing the free list of one slab changes the live objects of that slab only.\<close>

lemma live_objs_split:
  assumes rep: "cache_rep c P F U w" and v: "(s, is) \<in> set (P @ F @ U)" and i: "i < 16"
  defines "st \<equiv> cache_stride w c"
  shows "chunk_of st s i + 20 \<in> live_objs st (set (P @ F @ U)) \<longleftrightarrow> i \<notin> set is"
    and "chunk_of st s i + 20 \<notin> live_objs st (set (P @ F @ U) - {(s, is)})"
proof -
  have dst: "distinct (map fst (P @ F @ U))" and fit: "20 \<le> unat st"
    using rep v unfolding cache_rep_def Let_def st_def slab_ok_def slab_fits_def by auto
  have key: "s' = s \<and> j = i" if "(s', js) \<in> set (P @ F @ U)" "j < 16"
    "chunk_of st s i + 20 = chunk_of st s' j + 20" for s' js j
    using rep_objects_apart [OF rep v that(1) i that(2)] fit that(3) unfolding st_def by force
  have val: "js = is" if "(s, js) \<in> set (P @ F @ U)" for js
    using eq_key_imp_eq_value [OF dst that v] .
  have mem: "(s, is) \<in> V \<and> i \<notin> set is"
    if V: "V \<subseteq> set (P @ F @ U)" and l: "chunk_of st s i + 20 \<in> live_objs st V" for V
  proof -
    obtain s' js j where "(s', js) \<in> V" "j < 16" "j \<notin> set js"
      "chunk_of st s i + 20 = chunk_of st s' j + 20"
      using l by (elim live_objsE)
    with V key [of s' js j] val [of js] show ?thesis by blast
  qed
  from mem [of "set (P @ F @ U) - {(s, is)}"]
  show "chunk_of st s i + 20 \<notin> live_objs st (set (P @ F @ U) - {(s, is)})" by blast
  have "chunk_of st s i + 20 \<in> live_objs st (set (P @ F @ U))" if "i \<notin> set is"
    unfolding live_objs_def slab_live_def using v i that by (intro UN_I [of "(s, is)"]) auto
  with mem [of "set (P @ F @ U)"]
  show "chunk_of st s i + 20 \<in> live_objs st (set (P @ F @ U)) \<longleftrightarrow> i \<notin> set is" by blast
qed

lemma live_objs_take:
  assumes rep: "cache_rep c P F U w" and v: "(s, i # is) \<in> set (P @ F @ U)"
    and set': "V = insert (s, is) (set (P @ F @ U) - {(s, i # is)})"
  defines "st \<equiv> cache_stride w c"
  shows "live_objs st V = insert (chunk_of st s i + 20) (live_objs st (set (P @ F @ U)))"
    and "chunk_of st s i + 20 \<notin> live_objs st (set (P @ F @ U))"
proof -
  have "slab_ok st w (s, i # is)" using rep v unfolding cache_rep_def Let_def st_def by blast
  then have i: "i < 16" "i \<notin> set is" by (auto simp: slab_ok_def)
  show "chunk_of st s i + 20 \<notin> live_objs st (set (P @ F @ U))"
    using live_objs_split(1) [OF rep v i(1)] by (simp add: st_def)
  have "slab_live st (s, is) = insert (chunk_of st s i + 20) (slab_live st (s, i # is))"
    using i by (auto simp: slab_live_def)
  moreover have "live_objs st (set (P @ F @ U)) =
      slab_live st (s, i # is) \<union> live_objs st (set (P @ F @ U) - {(s, i # is)})"
    using v by (metis insert_Diff live_objs_insert)
  ultimately show "live_objs st V = insert (chunk_of st s i + 20) (live_objs st (set (P @ F @ U)))"
    unfolding set' by simp
qed

lemma live_objs_put:
  assumes rep: "cache_rep c P F U w" and v: "(s, as @ bs) \<in> set (P @ F @ U)" and i: "i < 16"
    and set': "V = insert (s, as @ i # bs) (set (P @ F @ U) - {(s, as @ bs)})"
  defines "st \<equiv> cache_stride w c"
  shows "live_objs st V = live_objs st (set (P @ F @ U)) - {chunk_of st s i + 20}"
proof -
  have "slab_ok st w (s, as @ bs)" using rep v unfolding cache_rep_def Let_def st_def by blast
  then have fit: "slab_fits st s" by (simp add: slab_ok_def)
  have inj: "chunk_of st s j + 20 = chunk_of st s i + 20 \<longleftrightarrow> j = i" if "j < 16" for j
    using chunk_of_eq [OF fit, of j i] that i by simp
  have "slab_live st (s, as @ i # bs) = slab_live st (s, as @ bs) - {chunk_of st s i + 20}"
    using inj by (auto simp: slab_live_def)
  moreover have "live_objs st (set (P @ F @ U)) =
      slab_live st (s, as @ bs) \<union> live_objs st (set (P @ F @ U) - {(s, as @ bs)})"
    using v by (metis insert_Diff live_objs_insert)
  moreover have "chunk_of st s i + 20 \<notin> live_objs st (set (P @ F @ U) - {(s, as @ bs)})"
    using live_objs_split(2) [OF rep v i] by (simp add: st_def)
  ultimately show ?thesis unfolding set' by auto
qed

lemma live_objs_apart:
  assumes rep: "cache_rep c P F U w" and v: "(s, i # is) \<in> set (P @ F @ U)"
    and q: "q \<in> live_objs (cache_stride w c) (set (P @ F @ U))"
  defines "st \<equiv> cache_stride w c"
  shows "unat (chunk_of st s i + 20) + unat st \<le> unat q \<or> unat q + unat st \<le> unat (chunk_of st s i + 20)"
proof -
  obtain s' js j where j: "(s', js) \<in> set (P @ F @ U)" "j < 16" "q = chunk_of st s' j + 20"
    using q unfolding st_def by (elim live_objsE)
  have "slab_ok st w (s, i # is)" using rep v unfolding cache_rep_def Let_def st_def by blast
  then have i: "i < 16" by (auto simp: slab_ok_def)
  have "(s, i) \<noteq> (s', j)"
    using live_objs_take(2) [OF rep v refl] q j(3) by (auto simp: st_def)
  then show ?thesis using rep_objects_apart [OF rep v j(1) i j(2)] j(3) by (simp add: st_def)
qed

text \<open>What one allocation from a cache with a free chunk does, in terms of its views.\<close>

lemma slab_alloc_view:
  assumes rep: "cache_rep c P F U w" and ne: "P \<noteq> [] \<or> F \<noteq> []"
  shows "\<exists>s i is w' P' F' U'. (s, i # is) \<in> set (P @ F @ U) \<and>
    slab_alloc_from_cache mm c w = Inr (chunk_of (cache_stride w c) s i + 20, w') \<and>
    cache_rep c P' F' U' w' \<and> set (P' @ F' @ U') = insert (s, is) (set (P @ F @ U) - {(s, i # is)}) \<and>
    sw_heap w' = sw_heap w \<and> cache_stride w' c = cache_stride w c"
proof -
  have dst: "distinct (map fst (P @ F @ U))" using rep by (auto simp: cache_rep_def Let_def)
  show ?thesis
  proof (cases P)
    case (Cons v P0)
    moreover have "snd v \<noteq> []" using rep Cons by (auto simp: cache_rep_def Let_def)
    then obtain s i "is" where v: "v = (s, i # is)" by (cases v; cases "snd v") auto
    ultimately obtain w' P' U' where a:
      "slab_alloc_from_cache mm c w = Inr (chunk_of (cache_stride w c) s i + 20, w')"
      "cache_rep c P' F U' w'" "set P' \<union> set U' = insert (s, is) (set P0 \<union> set U)"
      "sw_heap w' = sw_heap w" "cache_stride w' c = cache_stride w c"
      using slab_alloc_partial rep by blast
    moreover have "s \<notin> fst ` set (P0 @ F @ U)" using dst by (simp add: Cons v image_Un)
    then have "(s, i # is) \<notin> set (P0 @ F @ U)" by (metis fst_conv imageI)
    then have "set (P @ F @ U) - {(s, i # is)} = set (P0 @ F @ U)" by (simp add: Cons v)
    then have "set (P' @ F @ U') = insert (s, is) (set (P @ F @ U) - {(s, i # is)})"
      using a(3) by auto
    moreover have "(s, i # is) \<in> set (P @ F @ U)" using Cons v by simp
    ultimately show ?thesis by blast
  next
    case Nil
    with ne obtain v F0 where F: "F = v # F0" by (cases F) auto
    have "snd v = 0 # [1..<16]" using rep F by (simp add: cache_rep_def Let_def upt_rec)
    then obtain s "is" where v: "v = (s, 0 # is)" by (cases v) auto
    obtain w' where a: "slab_alloc_from_cache mm c w = Inr (chunk_of (cache_stride w c) s 0 + 20, w')"
      "cache_rep c [(s, is)] F0 U w'" "sw_heap w' = sw_heap w" "cache_stride w' c = cache_stride w c"
      using slab_alloc_free_slab rep unfolding Nil F v by blast
    moreover have "s \<notin> fst ` set (F0 @ U)" using dst by (simp add: Nil F v image_Un)
    then have "(s, 0 # is) \<notin> set (F0 @ U)" by (metis fst_conv imageI)
    then have "set (P @ F @ U) - {(s, 0 # is)} = set (F0 @ U)" by (simp add: Nil F v)
    then have "set ([(s, is)] @ F0 @ U) = insert (s, is) (set (P @ F @ U) - {(s, 0 # is)})" by auto
    moreover have "(s, 0 # is) \<in> set (P @ F @ U)" using F v by simp
    ultimately show ?thesis by blast
  qed
qed

lemma slab_alloc_live:
  assumes live: "cache_live st c L w" and room: "slab_cost st \<le> heap_room (sw_heap w)"
  shows "\<exists>p w'. slab_alloc_from_cache mm c w = Inr (p, w') \<and> p \<notin> L \<and> p \<noteq> 0 \<and>
    (\<forall>q \<in> L. unat p + unat st \<le> unat q \<or> unat q + unat st \<le> unat p) \<and>
    cache_live st c (insert p L) w' \<and> heap_room (sw_heap w) \<le> heap_room (sw_heap w') + slab_cost st"
proof -
  obtain P F U where rep: "cache_rep c P F U w" and L: "L = live_objs st (set (P @ F @ U))"
    and st: "st = cache_stride w c" using live by (auto simp: cache_live_def)
  obtain w1 F1 where r1: "cache_rep c P F1 U w1" "P \<noteq> [] \<or> F1 \<noteq> []" "cache_stride w1 c = st"
    "L = live_objs st (set (P @ F1 @ U))"
    "slab_alloc_from_cache mm c w = slab_alloc_from_cache mm c w1"
    "heap_room (sw_heap w) \<le> heap_room (sw_heap w1) + slab_cost st"
  proof (cases "P = [] \<and> F = []")
    case True
    from slab_alloc_slab_rep [of c U w mm] rep room st True obtain s w1 where
      a: "slab_alloc_slab_align mm c 0 w = Inr (0, w1)" "cache_rep c [] [(s, [0..<16])] U w1"
        "cache_stride w1 c = st" "s \<notin> fst ` set U"
        "heap_low (sw_heap w1) + heap_room (sw_heap w1) = heap_low (sw_heap w) + heap_room (sw_heap w)"
        "heap_low (sw_heap w1) \<le> heap_low (sw_heap w) + slab_cost st" by auto
    have "L = live_objs st (set (P @ [(s, [0..<16])] @ U))"
      using L True by simp
    moreover have "slab_alloc_from_cache mm c w = slab_alloc_from_cache mm c w1"
      using a(1,2) rep True
      by (simp add: slab_alloc_from_cache_def cache_rep_def Let_def)
    ultimately show thesis using that [of "[(s, [0..<16])]" w1] a True by simp
  next
    case False
    with that [of F w] rep L st show thesis by simp
  qed
  from slab_alloc_view [OF r1(1,2), of mm] obtain s i "is" w' P' F' U' where
    v: "(s, i # is) \<in> set (P @ F1 @ U)"
      "slab_alloc_from_cache mm c w1 = Inr (chunk_of st s i + 20, w')" "cache_rep c P' F' U' w'"
      "set (P' @ F' @ U') = insert (s, is) (set (P @ F1 @ U) - {(s, i # is)})"
      "sw_heap w' = sw_heap w1" "cache_stride w' c = st" unfolding r1(3) by blast
  have "slab_ok st w1 (s, i # is)" using r1(1) v(1) r1(3) unfolding cache_rep_def Let_def by blast
  then have "unat (chunk_of st s i + 20) = unat s + 60 + i * unat st"
    by (intro unat_object) (auto simp: slab_ok_def)
  then have "chunk_of st s i + 20 \<noteq> 0" by (metis add_is_0 unat_0 zero_neq_numeral)
  moreover have "cache_live st c (insert (chunk_of st s i + 20) L) w'"
    unfolding cache_live_def using v(3,6) live_objs_take(1) [OF r1(1) v(1,4)] r1(3,4) by auto
  moreover have "chunk_of st s i + 20 \<notin> L"
    using live_objs_take(2) [OF r1(1) v(1) refl] r1(3,4) by simp
  ultimately show ?thesis
    using v(2,5) r1(3-6) live_objs_apart [OF r1(1) v(1)] by auto
qed

lemma slab_free_live:
  assumes live: "cache_live st c L w" and p: "p \<in> L"
  shows "\<exists>w'. slab_free c p w = Inr w' \<and> cache_live st c (L - {p}) w' \<and> sw_heap w' = sw_heap w"
proof -
  obtain P F U where rep: "cache_rep c P F U w" and L: "L = live_objs st (set (P @ F @ U))"
    and st: "st = cache_stride w c" using live by (auto simp: cache_live_def)
  obtain s "is" i where i: "(s, is) \<in> set (P @ F @ U)" "i < 16" "i \<notin> set is" "p = chunk_of st s i + 20"
    using p unfolding L by (elim live_objsE)
  obtain w' P' F' U' as bs where f: "slab_free c p w = Inr w'" "cache_rep c P' F' U' w'" "is = as @ bs"
    "set (P' @ F' @ U') = insert (s, as @ i # bs) (set (P @ F @ U) - {(s, is)})"
    "sw_heap w' = sw_heap w" "cache_stride w' c = st"
    using slab_free_rep [OF rep i(1-3)] i(4) st by auto
  have "live_objs st (set (P' @ F' @ U')) = L - {p}"
    using live_objs_put [OF rep i(1) [unfolded f(3)] i(2) f(4) [unfolded f(3)]] st L i(4) by simp
  then have "cache_live st c (L - {p}) w'" using f(2,6) unfolding cache_live_def by metis
  then show ?thesis using f by blast
qed

section \<open>Creating a cache\<close>

lemma set_link_caches [simp]: "sw_caches (set_link l a w) = sw_caches w"
  by (cases l) simp_all

lemma slab_init_chunks_caches [simp]:
  "sw_caches (slab_init_chunks al ca d m s is cur prv w) = sw_caches w"
  by (cases "al = 0"; induction "is" arbitrary: cur prv w) (simp_all add: Let_def)

lemma slab_setup_caches [simp]: "sw_caches (slab_setup c al s d m w) = sw_caches w"
  by (simp add: slab_setup_def slab_insert_in_cache_def Let_def)

lemma slab_alloc_slab_caches:
  "slab_alloc_slab_align mm c al w = Inr (r, w') \<Longrightarrow> sw_caches w' = sw_caches w"
  by (auto simp: slab_alloc_slab_align_def Let_def bindE_Inr_iff split: if_splits)

lemma slab_cache_create_live:
  assumes op: "open_heap (sw_heap w)" and siz: "unat siz < 0x1000000"
    and room: "200 + slab_cost (siz + 20) \<le> heap_room (sw_heap w)"
    and old: "unat (sw_caches w) < heap_low (sw_heap w)"
  shows "\<exists>c w'. slab_cache_create mm siz w = Inr (c, w') \<and> cache_live (siz + 20) c {} w' \<and>
    heap_low (sw_heap w') + heap_room (sw_heap w') = heap_low (sw_heap w) + heap_room (sw_heap w) \<and>
    heap_low (sw_heap w') \<le> heap_low (sw_heap w) + 200 + slab_cost (siz + 20)"
proof -
  let ?h = "sw_heap w"
  have "req_valid (136, 16)" "req_cost (136, 16) = 200" by simp_all
  with kmalloc_req_serve [OF op, of "(136, 16)" mm] room obtain c h1 where
    k: "kmalloc mm 136 ?h = Inr (c, h1)" "open_heap h1" "heap_low ?h \<le> unat c"
      "unat c + 136 \<le> heap_low h1" "heap_low h1 + heap_room h1 = heap_low ?h + heap_room ?h"
      "heap_low h1 \<le> heap_low ?h + 200"
    by (auto simp: kmalloc_req_def kmalloc_def)
  have c0: "c \<noteq> 0" using k(3) old by auto
  have cn: "sw_caches w \<noteq> c" using k(3) old by auto
  define h2 where "h2 = memset_data c 0 136 h1"
  define w4 where "w4 = upd_cache c (\<lambda>b. b\<lparr>sc_size := siz, sc_alignment := 0\<rparr>)
    (let w2 = upd_cache c (\<lambda>b. b\<lparr>sc_next := sw_caches w\<rparr>)
                ((zero_cache_at c (w\<lparr>sw_heap := h2\<rparr>))\<lparr>sw_caches := c\<rparr>)
     in if sw_caches w \<noteq> 0 then upd_cache (sw_caches w) (\<lambda>b. b\<lparr>sc_prev := c\<rparr>) w2 else w2)"
  have create: "slab_cache_create mm siz w =
      bindE (slab_alloc_slab_align mm c 0 w4) (\<lambda>(_, w5). Inr (sw_caches w5, w5))"
    using k(1) c0
    by (simp add: slab_cache_create_def slab_cache_create_align_def kzalloc_def w4_def h2_def Let_def)
  have w4: "sc_size (sw_cache w4 c) = siz" "sc_alignment (sw_cache w4 c) = 0" "sw_heap w4 = h2"
    "sw_caches w4 = c"
    by (simp_all add: w4_def zero_cache_at_def Let_def)
  have "sl_next (sw_slab w4 (slabs_partial c)) = 0" "sl_next (sw_slab w4 (slabs_free c)) = 0"
    "sl_next (sw_slab w4 (slabs_full c)) = 0"
    by (simp_all add: w4_def zero_cache_at_def zero_slab_def Let_def)
  then have rep: "cache_rep c [] [] [] w4"
    using c0 w4 siz k(2,4) by (simp add: cache_rep_def Let_def slabs_sep_def h2_def)
  have st: "cache_stride w4 c = siz + 20" by (simp add: cache_stride_def w4)
  have "slab_cost (cache_stride w4 c) \<le> heap_room (sw_heap w4)"
    using room k(5,6) st w4(3) by (simp add: h2_def)
  from slab_alloc_slab_rep [OF rep this, of mm] obtain s w5 where
    a: "slab_alloc_slab_align mm c 0 w4 = Inr (0, w5)" "cache_rep c [] [(s, [0..<16])] [] w5"
      "cache_stride w5 c = siz + 20"
      "heap_low (sw_heap w5) + heap_room (sw_heap w5) = heap_low h1 + heap_room h1"
      "heap_low (sw_heap w5) \<le> heap_low h1 + slab_cost (siz + 20)"
    unfolding st w4(3) by (auto simp: h2_def)
  have "cache_live (siz + 20) c {} w5"
    unfolding cache_live_def using a(2,3) by (force simp: live_objs_def)
  moreover have "slab_cache_create mm siz w = Inr (c, w5)"
    using create a(1) slab_alloc_slab_caches [OF a(1)] w4(4) by simp
  ultimately show ?thesis using a(4,5) k(5,6) by auto
qed

section \<open>The interface of a cache\<close>

locale object_cache =
  fixes alloc :: "'w \<Rightarrow> fault + u32 \<times> 'w"
    and release :: "u32 \<Rightarrow> 'w \<Rightarrow> fault + 'w"
    and live :: "u32 set \<Rightarrow> 'w \<Rightarrow> bool"
    and room :: "'w \<Rightarrow> nat"
    and cost :: nat
    and apart :: "u32 \<Rightarrow> u32 \<Rightarrow> bool"
  assumes alloc_live: "live L w \<Longrightarrow> cost \<le> room w \<Longrightarrow>
      \<exists>p w'. alloc w = Inr (p, w') \<and> p \<notin> L \<and> p \<noteq> 0 \<and> (\<forall>q \<in> L. apart p q) \<and>
        live (insert p L) w' \<and> room w \<le> room w' + cost"
    and release_live: "live L w \<Longrightarrow> p \<in> L \<Longrightarrow>
      \<exists>w'. release p w = Inr w' \<and> live (L - {p}) w' \<and> room w' = room w"
begin

lemma alloc_many:
  assumes "live L w" and "n * cost \<le> room w"
  shows "\<exists>ps w'. alloc_seq (\<lambda>_. alloc) (replicate n ()) w = Inr (ps, w') \<and> length ps = n \<and>
    distinct ps \<and> 0 \<notin> set ps \<and> set ps \<inter> L = {} \<and> live (L \<union> set ps) w' \<and>
    sorted_wrt (\<lambda>p q. apart q p) ps \<and> (\<forall>p \<in> set ps. \<forall>q \<in> L. apart p q)"
  using assms
proof (induction n arbitrary: L w)
  case (Suc n)
  then obtain p w1 where a: "alloc w = Inr (p, w1)" "p \<notin> L" "p \<noteq> 0" "\<forall>q \<in> L. apart p q"
    "live (insert p L) w1" "room w \<le> room w1 + cost" using alloc_live [of L w] by auto
  have "n * cost \<le> room w1" using a(6) Suc.prems(2) by simp
  from Suc.IH [OF a(5) this] obtain ps w2 where b: "alloc_seq (\<lambda>_. alloc) (replicate n ()) w1 = Inr (ps, w2)"
    "length ps = n" "distinct ps" "0 \<notin> set ps" "set ps \<inter> insert p L = {}"
    "live (insert p L \<union> set ps) w2" "sorted_wrt (\<lambda>p q. apart q p) ps"
    "\<forall>x \<in> set ps. \<forall>q \<in> insert p L. apart x q" by blast
  have "live (L \<union> set (p # ps)) w2" using b(6) by simp
  with a b show ?case by (intro exI [of _ "p # ps"] exI [of _ w2]) auto
qed simp

lemma release_many:
  assumes "live L w" and "set ps \<subseteq> L" and "distinct ps"
  shows "\<exists>w'. foldl (\<lambda>r p. bindE r (release p)) (Inr w) ps = Inr w' \<and> live (L - set ps) w' \<and>
    room w' = room w"
  using assms
proof (induction ps arbitrary: L w)
  case (Cons p ps)
  then obtain w1 where a: "release p w = Inr w1" "live (L - {p}) w1" "room w1 = room w"
    using release_live [of L w p] by auto
  have "set ps \<subseteq> L - {p}" using Cons.prems by auto
  moreover have "distinct ps" using Cons.prems(3) by simp
  ultimately obtain w2 where "foldl (\<lambda>r p. bindE r (release p)) (Inr w1) ps = Inr w2"
    "live (L - {p} - set ps) w2" "room w2 = room w1" using Cons.IH [OF a(2)] by blast
  moreover have "L - {p} - set ps = L - set (p # ps)" by auto
  ultimately show ?case using a(1,3) by (intro exI [of _ w2]) simp
qed simp

end

interpretation slab: object_cache "slab_alloc_from_cache mm c" "slab_free c" "cache_live st c"
  "\<lambda>w. heap_room (sw_heap w)" "slab_cost st"
  "\<lambda>p q. unat p + unat st \<le> unat q \<or> unat q + unat st \<le> unat p" for mm :: "'e mapper" and c st
proof unfold_locales
  fix L and w :: "'e slab_world"
  assume "cache_live st c L w" and "slab_cost st \<le> heap_room (sw_heap w)"
  from slab_alloc_live [OF this, of mm]
  show "\<exists>p w'. slab_alloc_from_cache mm c w = Inr (p, w') \<and> p \<notin> L \<and> p \<noteq> 0 \<and>
      (\<forall>q \<in> L. unat p + unat st \<le> unat q \<or> unat q + unat st \<le> unat p) \<and>
      cache_live st c (insert p L) w' \<and> heap_room (sw_heap w) \<le> heap_room (sw_heap w') + slab_cost st" .
next
  fix L p and w :: "'e slab_world"
  assume "cache_live st c L w" and "p \<in> L"
  from slab_free_live [OF this]
  show "\<exists>w'. slab_free c p w = Inr w' \<and> cache_live st c (L - {p}) w' \<and>
      heap_room (sw_heap w') = heap_room (sw_heap w)" by auto
qed

section \<open>Properties\<close>

text \<open>Concrete worlds: an empty one over the heap of 4 MB, and one with a cache of 8-byte objects.\<close>

definition slab_world_4mb :: "unit slab_world" where
  "slab_world_4mb = \<lparr>sw_chunk = (\<lambda>_. zero_chunk), sw_slab = (\<lambda>_. zero_slab),
     sw_cache = (\<lambda>_. \<lparr>sc_next = 0, sc_prev = 0, sc_size = 0, sc_alignment = 0\<rparr>), sw_caches = 0,
     sw_heap = heap_4mb\<rparr>"

lemma slab_world_4mb_heap:
  "open_heap (sw_heap slab_world_4mb)" "heap_room (sw_heap slab_world_4mb) = 0x300000"
  "unat (sw_caches slab_world_4mb) < heap_low (sw_heap slab_world_4mb)"
  using heap_4mb_open heap_init_bump(2) [of "0xC0800000" "0xC0C00000" blank_heap]
  by (simp_all add: slab_world_4mb_def heap_low_def heap_4mb_def word_le_nat_alt)

lemma cache_8_live:
  "\<exists>c w. slab_cache_create mm_ok 8 slab_world_4mb = Inr (c, w) \<and> cache_live 28 c {} w \<and>
     slab_cost 28 \<le> heap_room (sw_heap w)"
proof -
  from slab_cache_create_live [OF slab_world_4mb_heap(1) _ _ slab_world_4mb_heap(3), of 8 mm_ok]
  obtain c w where "slab_cache_create mm_ok 8 slab_world_4mb = Inr (c, w)" "cache_live 28 c {} w"
    "heap_low (sw_heap w) + heap_room (sw_heap w) =
       heap_low (sw_heap slab_world_4mb) + heap_room (sw_heap slab_world_4mb)"
    "heap_low (sw_heap w) \<le> heap_low (sw_heap slab_world_4mb) + 200 + slab_cost 28"
    by (auto simp: slab_world_4mb_heap(2) slab_cost_def)
  then show ?thesis by (intro exI [of _ c] exI [of _ w]) (simp add: slab_world_4mb_heap(2) slab_cost_def)
qed

text \<open>
  C3. A slab cache never hands out an object in use: an allocation from a well-formed cache (without
  alignment, with room for one more slab in the heap) returns a non-null object that is not in use
  and lies at least an object and its header away from every object in use, the object counts as used
  afterwards, and the cache stays well formed, whichever of the three slab lists it came from.
\<close>

theorem slab_alloc_fresh_object:
  assumes "cache_live st c L w" and "slab_cost st \<le> heap_room (sw_heap w)"
  shows "\<exists>p w'. slab_alloc_from_cache mm c w = Inr (p, w') \<and> p \<notin> L \<and> p \<noteq> 0 \<and>
    (\<forall>q \<in> L. unat p + unat st \<le> unat q \<or> unat q + unat st \<le> unat p) \<and> cache_live st c (insert p L) w'"
  using slab.alloc_live [OF assms, of mm] by blast

theorem slab_alloc_fresh_object_witness:
  "\<exists>c w p w'. slab_cache_create mm_ok 8 slab_world_4mb = Inr (c, w) \<and>
     slab_alloc_from_cache mm_ok c w = Inr (p, w') \<and> cache_live 28 c {p} w'"
proof -
  obtain c w where "slab_cache_create mm_ok 8 slab_world_4mb = Inr (c, w)" "cache_live 28 c {} w"
    "slab_cost 28 \<le> heap_room (sw_heap w)" using cache_8_live by blast
  with slab_alloc_fresh_object [OF this(2,3), of mm_ok] show ?thesis by blast
qed

text \<open>
  C13. \<open>slab_free\<close> of an object in use terminates, removes exactly that object from the objects in use
  and keeps the cache well formed: the chunk goes back to its place in the sorted free list and the
  slab moves between the full, partial and free lists as its count of free chunks requires.
\<close>

theorem slab_free_releases_object:
  assumes "cache_live st c L w" and "p \<in> L"
  shows "\<exists>w'. slab_free c p w = Inr w' \<and> cache_live st c (L - {p}) w'"
  using slab.release_live [OF assms] by blast

theorem slab_free_releases_object_witness:
  "\<exists>c w p w' w''. slab_cache_create mm_ok 8 slab_world_4mb = Inr (c, w) \<and>
     slab_alloc_from_cache mm_ok c w = Inr (p, w') \<and> slab_free c p w' = Inr w'' \<and> cache_live 28 c {} w''"
proof -
  obtain c w where c: "slab_cache_create mm_ok 8 slab_world_4mb = Inr (c, w)" "cache_live 28 c {} w"
    "slab_cost 28 \<le> heap_room (sw_heap w)" using cache_8_live by blast
  from slab_alloc_live [OF this(2,3), of mm_ok] obtain p w' where
    "slab_alloc_from_cache mm_ok c w = Inr (p, w')" "cache_live 28 c {p} w'" by blast
  with c slab_free_releases_object [of 28 c "{p}" w' p] show ?thesis by auto
qed

text \<open>
  C25. From creation to release: on a heap with enough room, \<open>slab_cache_create\<close> succeeds, any number
  \<open>n\<close> of allocations then returns \<open>n\<close> different non-null objects whose \<open>siz\<close> bytes do not overlap, and
  releasing all of them leaves a well-formed cache with nothing in use.
\<close>

theorem slab_cache_lifecycle:
  assumes "open_heap (sw_heap w)" and "unat siz < 0x1000000"
    and "unat (sw_caches w) < heap_low (sw_heap w)"
    and "200 + (n + 1) * slab_cost (siz + 20) \<le> heap_room (sw_heap w)"
  shows "\<exists>c w1 ps w2 w3. slab_cache_create mm siz w = Inr (c, w1) \<and>
    alloc_seq (\<lambda>_. slab_alloc_from_cache mm c) (replicate n ()) w1 = Inr (ps, w2) \<and>
    length ps = n \<and> distinct ps \<and> 0 \<notin> set ps \<and>
    sorted_wrt (\<lambda>p q. unat q + unat siz \<le> unat p \<or> unat p + unat siz \<le> unat q) ps \<and>
    foldl (\<lambda>r p. bindE r (slab_free c p)) (Inr w2) ps = Inr w3 \<and> cache_live (siz + 20) c {} w3"
proof -
  let ?st = "siz + 20"
  have "200 + slab_cost ?st \<le> heap_room (sw_heap w)" using assms(4) by simp
  from slab_cache_create_live [OF assms(1,2) this assms(3), of mm] obtain c w1 where
    c: "slab_cache_create mm siz w = Inr (c, w1)" "cache_live ?st c {} w1"
      "heap_low (sw_heap w1) + heap_room (sw_heap w1) = heap_low (sw_heap w) + heap_room (sw_heap w)"
      "heap_low (sw_heap w1) \<le> heap_low (sw_heap w) + 200 + slab_cost ?st" by blast
  have "n * slab_cost ?st \<le> heap_room (sw_heap w1)" using c(3,4) assms(4) by simp
  from slab.alloc_many [OF c(2) this, of mm] obtain ps w2 where
    a: "alloc_seq (\<lambda>_. slab_alloc_from_cache mm c) (replicate n ()) w1 = Inr (ps, w2)" "length ps = n"
      "distinct ps" "0 \<notin> set ps" "cache_live ?st c (set ps) w2"
      "sorted_wrt (\<lambda>p q. unat q + unat ?st \<le> unat p \<or> unat p + unat ?st \<le> unat q) ps" by auto
  from slab.release_many [OF a(5) subset_refl a(3)] obtain w3 where
    "foldl (\<lambda>r p. bindE r (slab_free c p)) (Inr w2) ps = Inr w3" "cache_live ?st c {} w3" by auto
  moreover have "unat siz \<le> unat ?st" using assms(2) by (simp add: unat_u32_add)
  then have "sorted_wrt (\<lambda>p q. unat q + unat siz \<le> unat p \<or> unat p + unat siz \<le> unat q) ps"
    using a(6) by (elim sorted_wrt_mono_rel [rotated]) auto
  ultimately show ?thesis using c(1) a by blast
qed

theorem slab_cache_lifecycle_witness:
  "\<exists>c w1 ps w2. slab_cache_create mm_ok 8 slab_world_4mb = Inr (c, w1) \<and>
     alloc_seq (\<lambda>_. slab_alloc_from_cache mm_ok c) (replicate 40 ()) w1 = Inr (ps, w2) \<and>
     length ps = 40 \<and> distinct ps"
  using slab_cache_lifecycle [OF slab_world_4mb_heap(1) _ slab_world_4mb_heap(3), of 8 40 mm_ok]
  by (auto simp: slab_world_4mb_heap(2) slab_cost_def)

end
