(* ===== verification/Buddy_Alloc.thy ===== *)
theory Buddy_Alloc
  imports Frame_Alloc Slab_Objects
begin

text \<open>
  The buddy allocator, \<open>src/mem/buddy_frame_alloc.c\<close>. A buddy allocator keeps, for each of the eleven
  orders, a singly linked list of free blocks and a bitmap of the used ones. The list nodes are
  objects of a slab cache: they are a store (\<open>bd_next\<close>, \<open>bd_addr\<close>) addressed by the node pointer, the
  list heads are the array \<open>free_area\<close> (\<open>bd_head\<close>, \<open>bd_num\<close>). The bitmaps are the words at \<open>map_data\<close>
  (\<open>bd_data\<close>); \<open>maps[i]\<close> points \<open>bd_maps i\<close> words into them.

  The heap and the slab caches are reached through the operations of the record \<open>mem_ops\<close>, with the
  memory state \<open>'w\<close> they work on; \<open>slab_ops\<close> are the operations of the components below.
\<close>

section \<open>State\<close>

record 'w mem_ops =
  mo_kmalloc :: "u32 \<Rightarrow> 'w \<Rightarrow> fault + u32 \<times> 'w"
  mo_kfree :: "u32 \<Rightarrow> 'w \<Rightarrow> fault + 'w"
  mo_cache_create :: "u32 \<Rightarrow> 'w \<Rightarrow> fault + u32 \<times> 'w"
  mo_cache_destroy :: "u32 \<Rightarrow> 'w \<Rightarrow> fault + 'w"
  mo_slab_alloc :: "u32 \<Rightarrow> 'w \<Rightarrow> fault + u32 \<times> 'w"
  mo_slab_free :: "u32 \<Rightarrow> u32 \<Rightarrow> 'w \<Rightarrow> fault + 'w"

definition slab_ops :: "'e mapper \<Rightarrow> 'e slab_world mem_ops" where
  "slab_ops mm =
     \<lparr>mo_kmalloc = (\<lambda>n w. bindE (kmalloc mm n (sw_heap w)) (\<lambda>(p, h). Inr (p, w\<lparr>sw_heap := h\<rparr>))),
      mo_kfree = (\<lambda>p w. bindE (kfree p (sw_heap w)) (\<lambda>h. Inr (w\<lparr>sw_heap := h\<rparr>))),
      mo_cache_create = slab_cache_create mm,
      mo_cache_destroy = slab_cache_destroy,
      mo_slab_alloc = slab_alloc_from_cache mm,
      mo_slab_free = slab_free\<rparr>"

record 'w buddy_state =
  bd_mem_size :: u32
  bd_mem_start :: u32
  bd_fl_slab :: u32
  bd_maps_ptr :: u32
  bd_data_ptr :: u32
  bd_area_ptr :: u32
  bd_maps :: "nat \<Rightarrow> nat"
  bd_data :: "nat \<Rightarrow> u32"
  bd_head :: "nat \<Rightarrow> u32"
  bd_num :: "nat \<Rightarrow> u32"
  bd_next :: "u32 \<Rightarrow> u32"
  bd_addr :: "u32 \<Rightarrow> u32"
  bd_mem :: 'w

abbreviation MAX_ORDER :: nat where "MAX_ORDER \<equiv> 11"
abbreviation MAX_BUDDY_BYTES :: u32 where "MAX_BUDDY_BYTES \<equiv> 0x400000"
abbreviation MAP_SIZE :: u32 where "MAP_SIZE \<equiv> 32"
abbreviation MAX_BUDDY_NFRAMES :: u32 where "MAX_BUDDY_NFRAMES \<equiv> 1024"

definition order_pages :: "nat \<Rightarrow> u32" where
  "order_pages order = push_bit order 1"

section \<open>Orders and bitmaps\<close>

fun get_buddy_order_loop :: "nat list \<Rightarrow> u32 \<Rightarrow> nat" where
  "get_buddy_order_loop [] nframes = MAX_ORDER - 1"
| "get_buddy_order_loop (order # os) nframes =
     (if nframes \<le> order_pages order then order else get_buddy_order_loop os nframes)"

definition get_buddy_order :: "u32 \<Rightarrow> nat" where
  "get_buddy_order nframes =
     (if nframes > MAX_BUDDY_NFRAMES then MAX_ORDER - 1
      else get_buddy_order_loop [0..<MAX_ORDER] nframes)"

definition buddy_is_frame_free :: "u32 \<Rightarrow> u32 \<Rightarrow> bool" where
  "buddy_is_frame_free bitmap frame \<longleftrightarrow> bitmap AND shl32 1 frame = 0"

definition addr_to_map_id :: "nat \<Rightarrow> u32 \<Rightarrow> frame_map_addr" where
  "addr_to_map_id order addr =
     (let fm = addr div (PAGE_SIZE * MAP_SIZE * order_pages order)
      in \<lparr>fma_map = fm,
          fma_frame = (addr - fm * (PAGE_SIZE * MAP_SIZE * order_pages order))
            div (order_pages order * PAGE_SIZE)\<rparr>)"

definition map_to_addr :: "nat \<Rightarrow> frame_map_addr \<Rightarrow> u32" where
  "map_to_addr order m =
     fma_map m * MAP_SIZE * PAGE_SIZE * order_pages order + fma_frame m * PAGE_SIZE * order_pages order"

definition map_word :: "nat \<Rightarrow> frame_map_addr \<Rightarrow> 'w buddy_state \<Rightarrow> nat" where
  "map_word order m b = bd_maps b order + unat (fma_map m)"

definition buddy_set_frame_unused :: "nat \<Rightarrow> u32 \<Rightarrow> 'w buddy_state \<Rightarrow> 'w buddy_state" where
  "buddy_set_frame_unused order addr b =
     (let m = addr_to_map_id order addr; i = map_word order m b
      in b\<lparr>bd_data := (bd_data b)(i := bd_data b i AND NOT (shl32 1 (fma_frame m)))\<rparr>)"

definition buddy_set_frame_used :: "nat \<Rightarrow> u32 \<Rightarrow> 'w buddy_state \<Rightarrow> 'w buddy_state" where
  "buddy_set_frame_used order addr b =
     (let m = addr_to_map_id order addr; i = map_word order m b
      in b\<lparr>bd_data := (bd_data b)(i := bd_data b i OR shl32 1 (fma_frame m))\<rparr>)"

definition set_map_used :: "nat \<Rightarrow> u32 \<Rightarrow> u32 \<Rightarrow> 'w buddy_state \<Rightarrow> 'w buddy_state" where
  "set_map_used order addr nframes b =
     (let m = addr_to_map_id order addr; i = map_word order m b
      in b\<lparr>bd_data := (bd_data b)(i :=
             fold (\<lambda>k w. w OR shl32 1 (fma_frame m + word_of_nat k)) [0..<unat nframes] (bd_data b i))\<rparr>)"

section \<open>Free lists\<close>

text \<open>
  \<open>insert_buddy\<close> gets the list head to insert at as \<open>fl\<close>, an entry of \<open>free_area\<close> or \<open>NULL\<close>
  (\<open>None\<close>). When the slab cache has no object left, the old list is already unlinked.
\<close>

definition insert_buddy ::
  "'w mem_ops \<Rightarrow> nat option \<Rightarrow> nat \<Rightarrow> u32 \<Rightarrow> 'w buddy_state \<Rightarrow> fault + int \<times> 'w buddy_state" where
  "insert_buddy ops fl order addr b =
     (case fl of
        None \<Rightarrow> Inr (EINVAL, b)
      | Some k \<Rightarrow>
          let old_head = bd_head b k in
          bindE (mo_slab_alloc ops (bd_fl_slab b) (bd_mem b))
          (\<lambda>(n, w).
             let b1 = b\<lparr>bd_mem := w, bd_head := (bd_head b)(k := n)\<rparr> in
             if n = 0 then Inr (ENOMEM, b1)
             else Inr (0, b1\<lparr>bd_next := (bd_next b)(n := old_head), bd_addr := (bd_addr b)(n := addr),
                             bd_num := (bd_num b)(order := bd_num b order + 1)\<rparr>)))"

text \<open>
  The walk of \<open>remove_free_frame\<close>: the predecessor of the block that holds \<open>addr\<close> (\<open>None\<close> for the list
  head) and its node, 0 when there is none.
\<close>

partial_function (option) find_free_node ::
  "nat \<Rightarrow> u32 \<Rightarrow> u32 option \<Rightarrow> u32 \<Rightarrow> 'w buddy_state \<Rightarrow> (u32 option \<times> u32) option" where
  "find_free_node order addr prv cur b =
     (if cur = 0 then Some (prv, 0)
      else if bd_addr b cur + PAGE_SIZE * order_pages order > addr \<and> bd_addr b cur \<le> addr
      then Some (prv, cur)
      else find_free_node order addr (Some cur) (bd_next b cur) b)"

definition remove_free_frame ::
  "'w mem_ops \<Rightarrow> nat \<Rightarrow> u32 \<Rightarrow> 'w buddy_state \<Rightarrow> fault + 'w buddy_state" where
  "remove_free_frame ops order addr b =
     (if bd_num b order = 0 then Inr b
      else case find_free_node order addr None (bd_head b order) b of
          None \<Rightarrow> Inl Diverges
        | Some (prv, cur) \<Rightarrow>
            if cur = 0 then Inl NullDeref
            else let new_next = bd_next b cur in
              bindE (mo_slab_free ops (bd_fl_slab b) cur (bd_mem b))
              (\<lambda>w. let b1 = b\<lparr>bd_mem := w, bd_num := (bd_num b)(order := bd_num b order - 1)\<rparr> in
                 Inr (case prv of
                        None \<Rightarrow> b1\<lparr>bd_head := (bd_head b)(order := new_next)\<rparr>
                      | Some p \<Rightarrow> b1\<lparr>bd_next := (bd_next b)(p := new_next)\<rparr>)))"

definition remove_free_head ::
  "'w mem_ops \<Rightarrow> nat \<Rightarrow> 'w buddy_state \<Rightarrow> fault + 'w buddy_state" where
  "remove_free_head ops order b =
     (if bd_num b order = 0 then Inr b
      else let h = bd_head b order; new_next = (if h \<noteq> 0 then bd_next b h else 0) in
        bindE (mo_slab_free ops (bd_fl_slab b) h (bd_mem b))
        (\<lambda>w. Inr (b\<lparr>bd_mem := w, bd_head := (bd_head b)(order := new_next),
                    bd_num := (bd_num b)(order := bd_num b order - 1)\<rparr>)))"

section \<open>Allocation\<close>

text \<open>
  Split the block \<open>addr\<close> of order \<open>start\<close> down to \<open>target\<close>, keeping the upper halves; it is called with
  \<open>start > target\<close> only. The result is the return code, \<open>*res\<close> and the state.
\<close>

fun buddy_slice ::
  "'w mem_ops \<Rightarrow> u32 \<Rightarrow> nat \<Rightarrow> nat \<Rightarrow> 'w buddy_state \<Rightarrow> fault + int \<times> u32 \<times> 'w buddy_state" where
  "buddy_slice ops addr 0 target b = Inl OutOfBounds"
| "buddy_slice ops addr (Suc s) target b =
     (let b1 = buddy_set_frame_used (Suc s) addr b;
          sec_buddy_addr = addr + PAGE_SIZE * order_pages (Suc s) div 2
      in bindE (insert_buddy ops (Some s) s sec_buddy_addr b1)
         (\<lambda>(ret, b2).
            if ret \<noteq> 0 then Inr (1, 0, b2)
            else if s > target then buddy_slice ops addr s target b2
            else Inr (0, addr, buddy_set_frame_used target addr b2)))"

fun buddy_alloc_upper ::
  "'w mem_ops \<Rightarrow> nat \<Rightarrow> nat list \<Rightarrow> 'w buddy_state \<Rightarrow> fault + int \<times> u32 list \<times> 'w buddy_state" where
  "buddy_alloc_upper ops order [] b = Inr (ENOMEM, [], b)"
| "buddy_alloc_upper ops order (i # is) b =
     (let upper_fl = bd_head b i in
      if bd_num b i \<noteq> 0
      then if upper_fl = 0
           then buddy_alloc_upper ops order is (b\<lparr>bd_num := (bd_num b)(i := 0)\<rparr>)
           else bindE (remove_free_head ops i b)
             (\<lambda>b1. bindE (buddy_slice ops (bd_addr b1 upper_fl) i order b1)
             (\<lambda>(ret, addr, b2). if ret \<noteq> 0 then Inr (1, [], b2) else Inr (0, [addr], b2)))
      else buddy_alloc_upper ops order is b)"

definition buddy_alloc_frames_max_order ::
  "'w mem_ops \<Rightarrow> u32 \<Rightarrow> 'w buddy_state \<Rightarrow> fault + int \<times> u32 list \<times> 'w buddy_state" where
  "buddy_alloc_frames_max_order ops nframes b =
     (let order = get_buddy_order nframes; fr = bd_head b order in
      if bd_num b order \<noteq> 0
      then bindE (remove_free_head ops order b)
        (\<lambda>b1. if fr = 0 then Inl NullDeref
               else Inr (0, [bd_addr b1 fr], buddy_set_frame_used order (bd_addr b1 fr) b1))
      else buddy_alloc_upper ops order [order + 1..<MAX_ORDER] b)"

text \<open>
  The loop over chunks of 1024 frames. The stored words are given with their index in \<open>addrs\<close>.
\<close>

fun buddy_alloc_frames_loop ::
  "'w mem_ops \<Rightarrow> u32 \<Rightarrow> nat list \<Rightarrow> (nat \<times> u32) list \<Rightarrow> 'w buddy_state \<Rightarrow>
     fault + int \<times> (nat \<times> u32) list \<times> 'w buddy_state" where
  "buddy_alloc_frames_loop ops nframes [] out b = Inr (0, out, b)"
| "buddy_alloc_frames_loop ops nframes (i # is) out b =
     (let rest = nframes - word_of_nat i * MAX_BUDDY_NFRAMES;
          cur = (if rest > MAX_BUDDY_NFRAMES then MAX_BUDDY_NFRAMES else rest)
      in bindE (buddy_alloc_frames_max_order ops cur b)
         (\<lambda>(ret, stored, b1).
            let out1 = out @ map (\<lambda>a. (i * 1024, a)) stored in
            if ret \<noteq> 0 then Inr (ret, out1, b1)
            else buddy_alloc_frames_loop ops nframes is out1 b1))"

definition buddy_alloc_frames ::
  "'w mem_ops \<Rightarrow> u32 \<Rightarrow> u32 \<Rightarrow> 'w buddy_state \<Rightarrow> fault + int \<times> (nat \<times> u32) list \<times> 'w buddy_state" where
  "buddy_alloc_frames ops addrs nframes b =
     (if addrs = 0 then Inr (EINVAL, [], b)
      else let rep_limit = nframes div MAX_BUDDY_NFRAMES +
                 (if nframes mod MAX_BUDDY_NFRAMES \<noteq> 0 then 1 else 0)
           in buddy_alloc_frames_loop ops nframes [0..<unat rep_limit] [] b)"

definition buddy_alloc_frame ::
  "'w mem_ops \<Rightarrow> u32 \<Rightarrow> 'w buddy_state \<Rightarrow> fault + int \<times> (nat \<times> u32) list \<times> 'w buddy_state" where
  "buddy_alloc_frame ops addr b = buddy_alloc_frames ops addr 1 b"

section \<open>Release\<close>

function buddy_coalesce ::
  "'w mem_ops \<Rightarrow> nat \<Rightarrow> u32 \<Rightarrow> 'w buddy_state \<Rightarrow> fault + 'w buddy_state" where
  "buddy_coalesce ops order addr b =
     (let m = addr_to_map_id order addr;
          buddy_frame = (if fma_frame m mod 2 \<noteq> 0 then fma_frame m - 1 else fma_frame m + 1);
          buddy_map = m\<lparr>fma_frame := buddy_frame\<rparr>;
          b1 = buddy_set_frame_unused order addr b
      in if order < MAX_ORDER - 1 \<and> buddy_is_frame_free (bd_data b1 (map_word order m b1)) buddy_frame
         then bindE (remove_free_frame ops order (map_to_addr order buddy_map) b1)
                (buddy_coalesce ops (order + 1) addr)
         else bindE (insert_buddy ops (Some order) order addr b1) (\<lambda>(_, b2). Inr b2))"
  by pat_completeness auto
termination by (relation "measure (\<lambda>(ops, order, addr, b). 11 - order)") auto

text \<open>\<open>maps\<close> has 11 entries: a search that passes the last order reads behind it.\<close>

function buddy_free_frames_rec ::
  "'w mem_ops \<Rightarrow> nat \<Rightarrow> u32 \<Rightarrow> 'w buddy_state \<Rightarrow> fault + 'w buddy_state" where
  "buddy_free_frames_rec ops order addr b =
     (if order \<ge> MAX_ORDER then Inl OutOfBounds
      else let m = addr_to_map_id order addr in
        if \<not> buddy_is_frame_free (bd_data b (map_word order m b)) (fma_frame m)
        then buddy_coalesce ops order addr b
        else buddy_free_frames_rec ops (order + 1) addr b)"
  by pat_completeness auto
termination by (relation "measure (\<lambda>(ops, order, addr, b). 11 - order)") auto

definition buddy_free_frames ::
  "'w mem_ops \<Rightarrow> u32 \<Rightarrow> u32 \<Rightarrow> 'w buddy_state \<Rightarrow> fault + 'w buddy_state" where
  "buddy_free_frames ops addr nframes b = buddy_free_frames_rec ops (get_buddy_order nframes) addr b"

definition buddy_free_frame :: "'w mem_ops \<Rightarrow> u32 \<Rightarrow> 'w buddy_state \<Rightarrow> fault + 'w buddy_state" where
  "buddy_free_frame ops addr b = buddy_free_frames ops addr 1 b"

section \<open>Creation, copies and destruction\<close>

definition get_buddy_map_size :: "u32 \<Rightarrow> u32" where
  "get_buddy_map_size mem_size =
     fold (\<lambda>i map_size. let map_factor = PAGE_SIZE * MAP_SIZE * order_pages i in
             map_size + mem_size div map_factor + (if mem_size mod map_factor \<noteq> 0 then 1 else 0))
       [0..<MAX_ORDER] 0"

text \<open>The offset of \<open>maps[i]\<close> from \<open>map_data\<close>, in words: \<open>sizeof(map_data)\<close> is 4.\<close>

definition buddy_map_offset :: "u32 \<Rightarrow> nat \<Rightarrow> nat" where
  "buddy_map_offset mem_size i =
     unat (fold (\<lambda>k off. off + mem_size div (PAGE_SIZE * MAP_SIZE * order_pages k * 4)) [0..<i] 0)"

definition alloc_buddy_maps ::
  "'w mem_ops \<Rightarrow> u32 \<Rightarrow> 'w buddy_state \<Rightarrow> fault + int \<times> 'w buddy_state" where
  "alloc_buddy_maps ops map_size b =
     bindE (mo_kmalloc ops (4 * 11) (bd_mem b))
     (\<lambda>(maps, w1). bindE (mo_kmalloc ops map_size w1)
     (\<lambda>(map_data, w2).
        let b1 = b\<lparr>bd_mem := w2, bd_maps_ptr := maps, bd_data_ptr := map_data,
                   bd_data := (if map_data \<noteq> 0 then memset0_words (unat map_size) (bd_data b)
                               else bd_data b)\<rparr>
        in if maps = 0 then Inr (ENOMEM, b1)
           else Inr (0, b1\<lparr>bd_maps := (\<lambda>i. if i < MAX_ORDER then buddy_map_offset (bd_mem_size b1) i
                                           else bd_maps b i)\<rparr>)))"

text \<open>
  Appending nodes to a list through \<open>cur_free\<close>: first the list head of an order, then the \<open>next\<close> field
  of the node before. The \<open>next\<close> field of the last node is not written.
\<close>

definition link_node :: "nat \<Rightarrow> u32 option \<Rightarrow> u32 \<Rightarrow> 'w buddy_state \<Rightarrow> 'w buddy_state" where
  "link_node order loc n b =
     (case loc of None \<Rightarrow> b\<lparr>bd_head := (bd_head b)(order := n)\<rparr>
      | Some p \<Rightarrow> b\<lparr>bd_next := (bd_next b)(p := n)\<rparr>)"

fun buddy_fill ::
  "'w mem_ops \<Rightarrow> nat list \<Rightarrow> u32 option \<Rightarrow> 'w buddy_state \<Rightarrow> fault + bool \<times> 'w buddy_state" where
  "buddy_fill ops [] loc b = Inr (True, b)"
| "buddy_fill ops (i # is) loc b =
     bindE (mo_slab_alloc ops (bd_fl_slab b) (bd_mem b))
     (\<lambda>(n, w).
        let b1 = link_node (MAX_ORDER - 1) loc n (b\<lparr>bd_mem := w\<rparr>) in
        if n = 0 then Inr (False, b1)
        else buddy_fill ops is (Some n)
               (b1\<lparr>bd_addr := (bd_addr b1)(n := bd_mem_start b + word_of_nat i * MAX_BUDDY_BYTES)\<rparr>))"

text \<open>The memory before the creation is the state \<open>b0\<close>; the result is the pointer and the state.\<close>

definition buddy_alloc_create ::
  "'w mem_ops \<Rightarrow> u32 \<Rightarrow> u32 \<Rightarrow> 'w buddy_state \<Rightarrow> fault + u32 \<times> 'w buddy_state" where
  "buddy_alloc_create ops mem_start mem_limit b0 =
     (if mem_limit = 0 then Inr (0, b0)
      else let mem_size = mem_limit - mem_start in
        bindE (mo_kmalloc ops 20 (bd_mem b0))
        (\<lambda>(buddy, w1). if buddy = 0 then Inl NullDeref else
         bindE (mo_cache_create ops 8 w1)
        (\<lambda>(c, w2).
         let b1 = b0\<lparr>bd_mem := w2, bd_fl_slab := c, bd_mem_size := mem_size, bd_mem_start := mem_start\<rparr>;
             map_size = get_buddy_map_size mem_size * 4
         in bindE (alloc_buddy_maps ops map_size b1)
        (\<lambda>(_, b2). bindE (mo_kmalloc ops (12 * 11) (bd_mem b2))
        (\<lambda>(fa, w3). if fa = 0 then Inl NullDeref else
           let max_map_size = mem_size div MAX_BUDDY_BYTES;
               b3 = b2\<lparr>bd_mem := w3, bd_area_ptr := fa, bd_head := (\<lambda>_. 0),
                       bd_num := (\<lambda>_. 0)(MAX_ORDER - 1 := max_map_size)\<rparr>
           in bindE (buddy_fill ops [0..<unat max_map_size] None b3)
              (\<lambda>(ok, b4). Inr (if ok then buddy else 0, b4)))))))"

text \<open>
  The copy of one list: walk the nodes of \<open>src\<close> and append a node with the same address. \<open>src\<close> keeps
  its own nodes; \<open>None\<close> when its list does not end.
\<close>

partial_function (option) clone_list ::
  "'w mem_ops \<Rightarrow> nat \<Rightarrow> 'w buddy_state \<Rightarrow> u32 \<Rightarrow> u32 option \<Rightarrow> 'w buddy_state \<Rightarrow>
     (fault + 'w buddy_state) option" where
  "clone_list ops order src cur loc b =
     (if cur = 0 then Some (Inr b)
      else case mo_slab_alloc ops (bd_fl_slab b) (bd_mem b) of
          Inl f \<Rightarrow> Some (Inl f)
        | Inr (n, w) \<Rightarrow>
            if n = 0 then Some (Inl NullDeref)
            else let b1 = link_node order loc n (b\<lparr>bd_mem := w\<rparr>) in
              clone_list ops order src (bd_next src cur) (Some n)
                (b1\<lparr>bd_addr := (bd_addr b1)(n := bd_addr src cur)\<rparr>))"

fun clone_lists ::
  "'w mem_ops \<Rightarrow> nat list \<Rightarrow> 'w buddy_state \<Rightarrow> 'w buddy_state \<Rightarrow> fault + 'w buddy_state" where
  "clone_lists ops [] src b = Inr b"
| "clone_lists ops (i # is) src b =
     (case clone_list ops i src (bd_head src i) None (b\<lparr>bd_num := (bd_num b)(i := bd_num src i)\<rparr>) of
        None \<Rightarrow> Inl Diverges
      | Some r \<Rightarrow> bindE r (clone_lists ops is src))"

text \<open>\<open>memcpy\<close> of \<open>bytes\<close> bytes seen on the words of the two bitmaps.\<close>

definition memcpy_words :: "nat \<Rightarrow> (nat \<Rightarrow> u32) \<Rightarrow> (nat \<Rightarrow> u32) \<Rightarrow> nat \<Rightarrow> u32" where
  "memcpy_words bytes src dst i =
     (if 4 * i + 4 \<le> bytes then src i
      else if 4 * i < bytes
      then (src i AND mask (8 * (bytes - 4 * i))) OR (dst i AND NOT (mask (8 * (bytes - 4 * i))))
      else dst i)"

text \<open>\<open>b0\<close> is the memory of the copy before the call; it shares the memory state with \<open>copy\<close>.\<close>

definition buddy_alloc_clone ::
  "'w mem_ops \<Rightarrow> 'w buddy_state \<Rightarrow> 'w buddy_state \<Rightarrow> fault + u32 \<times> 'w buddy_state" where
  "buddy_alloc_clone ops copy b0 =
     bindE (mo_kmalloc ops 20 (bd_mem b0))
     (\<lambda>(buddy, w1). if buddy = 0 then Inl NullDeref else
      bindE (mo_cache_create ops 8 w1)
     (\<lambda>(c, w2).
      let b1 = b0\<lparr>bd_mem := w2, bd_fl_slab := c, bd_mem_size := bd_mem_size copy,
                  bd_mem_start := bd_mem_start copy\<rparr>;
          map_size = get_buddy_map_size (bd_mem_size copy) * 4
      in bindE (alloc_buddy_maps ops map_size b1)
     (\<lambda>(_, b2). if bd_maps_ptr b2 = 0 then Inl NullDeref else
      let b3 = b2\<lparr>bd_data := memcpy_words (unat map_size) (bd_data copy) (bd_data b2)\<rparr> in
      bindE (mo_kmalloc ops (12 * 11) (bd_mem b3))
     (\<lambda>(fa, w3). if fa = 0 then Inl NullDeref else
        let b4 = b3\<lparr>bd_mem := w3, bd_area_ptr := fa, bd_head := (\<lambda>_. 0),
                    bd_num := (\<lambda>_. 0)(MAX_ORDER - 1 := bd_mem_size copy div MAX_BUDDY_BYTES)\<rparr>
        in bindE (clone_lists ops [0..<MAX_ORDER] copy b4) (\<lambda>b5. Inr (buddy, b5))))))"

text \<open>
  The release of the nodes of one list: every node except the last one. \<open>None\<close> when the list does not
  end.
\<close>

partial_function (option) free_nodes ::
  "'w mem_ops \<Rightarrow> u32 \<Rightarrow> u32 \<Rightarrow> 'w buddy_state \<Rightarrow> (fault + 'w buddy_state) option" where
  "free_nodes ops fl_to_free fl b =
     (if fl = 0 then Some (Inr b)
      else case mo_slab_free ops (bd_fl_slab b) fl_to_free (bd_mem b) of
          Inl f \<Rightarrow> Some (Inl f)
        | Inr w \<Rightarrow> free_nodes ops fl (bd_next b fl) (b\<lparr>bd_mem := w\<rparr>))"

definition free_area_nodes ::
  "'w mem_ops \<Rightarrow> nat \<Rightarrow> 'w buddy_state \<Rightarrow> fault + 'w buddy_state" where
  "free_area_nodes ops i b =
     (if bd_num b i = 0 then Inr b
      else if bd_head b i = 0 then Inl NullDeref
      else case free_nodes ops (bd_head b i) (bd_next b (bd_head b i)) b of
          None \<Rightarrow> Inl Diverges | Some r \<Rightarrow> r)"

text \<open>
  \<open>memset\<close> of bytes of the bitmap given by addresses: the bytes of the word at \<open>base + 4 * i\<close> that lie in
  \<open>[from, from + len)\<close> are cleared.
\<close>

definition clear_bytes :: "nat \<Rightarrow> nat \<Rightarrow> nat \<Rightarrow> (nat \<Rightarrow> u32) \<Rightarrow> nat \<Rightarrow> u32" where
  "clear_bytes from len base m i =
     fold (\<lambda>k w. if from \<le> base + 4 * i + k \<and> base + 4 * i + k < from + len
                 then w AND NOT (push_bit (8 * k) 0xFF) else w) [0..<4] (m i)"

text \<open>
  \<open>buddy->maps + map_base_off\<close> moves a pointer to pointers by 44 elements, so the cleared bytes start
  176 bytes behind the array \<open>maps\<close>, wherever the bitmap is.
\<close>

definition buddy_alloc_clean ::
  "'w mem_ops \<Rightarrow> 'w buddy_state \<Rightarrow> fault + 'w buddy_state" where
  "buddy_alloc_clean ops b =
     (let map_size = get_buddy_map_size (bd_mem_size b);
          b1 = b\<lparr>bd_data := clear_bytes (unat (bd_maps_ptr b) + 176) (unat map_size)
                  (unat (bd_data_ptr b)) (bd_data b)\<rparr>;
          max_map_size = bd_mem_size b div MAX_BUDDY_BYTES
      in bindE (foldl (\<lambda>r i. bindE r (\<lambda>b. bindE (free_area_nodes ops i b)
                  (\<lambda>b. Inr (b\<lparr>bd_num := (bd_num b)(i := 0)\<rparr>)))) (Inr b1) [0..<MAX_ORDER])
         (\<lambda>b2. bindE (buddy_fill ops [0..<unat max_map_size] None
                   (b2\<lparr>bd_num := (bd_num b2)(MAX_ORDER - 1 := max_map_size)\<rparr>))
         (\<lambda>(_, b3). Inr b3)))"

text \<open>The buddy allocator at the address \<open>buddy\<close>.\<close>

definition buddy_alloc_destroy ::
  "'w mem_ops \<Rightarrow> u32 \<Rightarrow> 'w buddy_state \<Rightarrow> fault + 'w buddy_state" where
  "buddy_alloc_destroy ops buddy b =
     (if buddy = 0 then Inr b
      else bindE (mo_kfree ops (bd_maps_ptr b) (bd_mem b))
        (\<lambda>w. bindE (foldl (\<lambda>r i. bindE r (free_area_nodes ops i)) (Inr (b\<lparr>bd_mem := w\<rparr>)) [0..<MAX_ORDER])
        (\<lambda>b1. bindE (mo_cache_destroy ops (bd_fl_slab b1) (bd_mem b1))
        (\<lambda>w. bindE (mo_kfree ops (bd_area_ptr b1) w)
        (\<lambda>w. bindE (mo_kfree ops buddy w) (\<lambda>w. Inr (b1\<lparr>bd_mem := w\<rparr>)))))))"

definition set_addrs :: "u32 \<Rightarrow> u32 \<Rightarrow> u16 \<Rightarrow> u32 list" where
  "set_addrs base sz flags =
     map (\<lambda>i. (base + word_of_nat i * PAGE_SIZE) OR ucast flags) [0..<unat sz]"

declare find_free_node.simps [code] clone_list.simps [code] free_nodes.simps [code]

end
