(* ===== verification/Buddy_Blocks.thy ===== *)
theory Buddy_Blocks
  imports Buddy_Alloc
begin

text \<open>
  The free blocks of a buddy allocator as a set of pages: an allocation takes its pages out of that
  set, whether it finds a block of the right order or splits a larger one. The list nodes come from
  an object cache, so the proofs are in the locale \<open>buddy_nodes\<close> over the interface of
  \<open>Slab_Objects\<close>; it is interpreted on the slab allocator.
\<close>

section \<open>Orders\<close>

lemma unat_order_pages:
  assumes "k < 32"
  shows "unat (order_pages k) = 2 ^ k"
proof -
  have "(2 :: nat) ^ k < 2 ^ 32" using assms by (rule power_strict_increasing) simp
  then have lt: "(2 :: nat) ^ k < 4294967296" by simp
  have o: "order_pages k = word_of_nat (2 ^ k)" by (simp add: order_pages_def)
  show ?thesis unfolding o using lt by (rule unat_u32_of_nat)
qed

lemma get_buddy_order_loop_least:
  assumes "\<forall>k < i. 2 ^ k < unat n" and "unat n \<le> 1024" and "i \<le> 11"
  shows "let k = get_buddy_order_loop [i..<11] n in
    k < 11 \<and> unat n \<le> 2 ^ k \<and> (\<forall>j < k. 2 ^ j < unat n)"
  using assms
proof (induction "11 - i" arbitrary: i)
  case 0
  then have "i = 11" by simp
  with 0 have "10 < (11 :: nat) \<longrightarrow> 2 ^ 10 < unat n" by blast
  then have "2 ^ 10 < unat n" by simp
  with 0 show ?case by simp
next
  case (Suc m)
  then have i: "i < 11" by simp
  then have u: "[i..<11] = i # [Suc i..<11]" by (simp add: upt_conv_Cons)
  show ?case
  proof (cases "n \<le> order_pages i")
    case True
    then have "unat n \<le> 2 ^ i" using i by (simp add: word_le_nat_alt unat_order_pages)
    with True i Suc.prems show ?thesis by (simp add: u Let_def)
  next
    case False
    then have "2 ^ i < unat n" using i by (simp add: word_le_nat_alt unat_order_pages)
    then have "\<forall>k < Suc i. 2 ^ k < unat n" using Suc.prems(1) by (auto simp: less_Suc_eq)
    moreover have "m = 11 - Suc i" using Suc(2) by simp
    ultimately show ?thesis using Suc.hyps(1) [of "Suc i"] Suc.prems i False by (simp add: u)
  qed
qed

lemma get_buddy_order_spec:
  "unat n \<le> 1024 \<Longrightarrow> get_buddy_order n < 11 \<and> unat n \<le> 2 ^ get_buddy_order n \<and>
    (\<forall>j < get_buddy_order n. 2 ^ j < unat n)"
  using get_buddy_order_loop_least [of 0 n]
  by (simp add: get_buddy_order_def word_less_nat_alt Let_def)

lemma get_buddy_order_lt: "get_buddy_order n < 11"
  using get_buddy_order_spec [of n] by (cases "unat n \<le> 1024") (simp_all add: get_buddy_order_def word_less_nat_alt)

section \<open>Free lists and the pages they hold\<close>

fun fl_chain :: "'w buddy_state \<Rightarrow> u32 \<Rightarrow> u32 list \<Rightarrow> bool" where
  "fl_chain b n [] \<longleftrightarrow> n = 0"
| "fl_chain b n (x # xs) \<longleftrightarrow> n = x \<and> x \<noteq> 0 \<and> fl_chain b (bd_next b x) xs"

definition run_pages :: "u32 \<Rightarrow> nat \<Rightarrow> nat set" where
  "run_pages addr k = {unat addr div 4096 ..< unat addr div 4096 + 2 ^ k}"

text \<open>The nodes of all lists, each with the order of its list.\<close>

definition blocks :: "(nat \<Rightarrow> u32 list) \<Rightarrow> (nat \<times> u32) set" where
  "blocks L = {(k, x). k < 11 \<and> x \<in> set (L k)}"

definition free_pages :: "'w buddy_state \<Rightarrow> (nat \<Rightarrow> u32 list) \<Rightarrow> nat set" where
  "free_pages b L = (\<Union>(k, x) \<in> blocks L. run_pages (bd_addr b x) k)"

text \<open>A block of order \<open>k\<close> at \<open>addr\<close>: page aligned and below 4 GB.\<close>

definition block_ok :: "u32 \<Rightarrow> nat \<Rightarrow> bool" where
  "block_ok addr k \<longleftrightarrow> unat addr mod 4096 = 0 \<and> unat addr + 4096 * 2 ^ k \<le> 4294967296"

definition blocks_sep :: "(u32 \<Rightarrow> u32) \<Rightarrow> (nat \<times> u32) set \<Rightarrow> bool" where
  "blocks_sep addr B \<longleftrightarrow> (\<forall>u \<in> B. block_ok (addr (snd u)) (fst u)) \<and>
     (\<forall>u \<in> B. \<forall>v \<in> B. u \<noteq> v \<longrightarrow>
        snd u \<noteq> snd v \<and> run_pages (addr (snd u)) (fst u) \<inter> run_pages (addr (snd v)) (fst v) = {})"

lemma blocks_sep_mono: "blocks_sep addr B \<Longrightarrow> A \<subseteq> B \<Longrightarrow> blocks_sep addr A"
  unfolding blocks_sep_def by blast

lemma blocks_sep_insert:
  assumes "blocks_sep addr B" and "\<forall>u \<in> B. addr' (snd u) = addr (snd u) \<and> snd u \<noteq> n"
    and "block_ok (addr' n) k" and "\<forall>u \<in> B. run_pages (addr (snd u)) (fst u) \<inter> run_pages (addr' n) k = {}"
  shows "blocks_sep addr' (insert (k, n) B)"
  using assms unfolding blocks_sep_def by (auto simp: Int_commute)

lemma blocks_sepD:
  assumes "blocks_sep addr B"
  shows "(j, x) \<in> B \<Longrightarrow> block_ok (addr x) j"
    and "(j, x) \<in> B \<Longrightarrow> (k, y) \<in> B \<Longrightarrow> j \<noteq> k \<or> x \<noteq> y \<Longrightarrow> x \<noteq> y \<and> run_pages (addr x) j \<inter> run_pages (addr y) k = {}"
proof -
  show "block_ok (addr x) j" if "(j, x) \<in> B" using assms that unfolding blocks_sep_def by (metis fst_conv snd_conv)
  show "x \<noteq> y \<and> run_pages (addr x) j \<inter> run_pages (addr y) k = {}" if "(j, x) \<in> B" "(k, y) \<in> B" "j \<noteq> k \<or> x \<noteq> y"
  proof -
    have "(j, x) \<noteq> (k, y)" using that(3) by blast
    then show ?thesis using assms that(1,2) unfolding blocks_sep_def by (metis fst_conv snd_conv)
  qed
qed

definition buddy_rep :: "(u32 set \<Rightarrow> 'w \<Rightarrow> bool) \<Rightarrow> 'w buddy_state \<Rightarrow> (nat \<Rightarrow> u32 list) \<Rightarrow> bool" where
  "buddy_rep live b L \<longleftrightarrow>
     live (snd ` blocks L) (bd_mem b) \<and>
     (\<forall>k < 11. fl_chain b (bd_head b k) (L k) \<and> bd_num b k = word_of_nat (length (L k)) \<and>
        distinct (L k)) \<and>
     blocks_sep (bd_addr b) (blocks L)"

lemma blocks_tail:
  "k < 11 \<Longrightarrow> L k = x # xs \<Longrightarrow> distinct (L k) \<Longrightarrow> blocks (L(k := xs)) = blocks L - {(k, x)}"
  by (auto simp: blocks_def split: if_splits)

lemma blocks_cons: "k < 11 \<Longrightarrow> blocks (L(k := n # L k)) = insert (k, n) (blocks L)"
  by (auto simp: blocks_def split: if_splits)

lemma fl_chain_cong:
  "\<forall>x \<in> set xs. bd_next b' x = bd_next b x \<Longrightarrow> fl_chain b' n xs = fl_chain b n xs"
  by (induction xs arbitrary: n) auto

lemma fl_chain_nonzero: "fl_chain b n xs \<Longrightarrow> 0 \<notin> set xs"
  by (induction xs arbitrary: n) auto

lemma fl_chain_head: "fl_chain b n xs \<Longrightarrow> n = (case xs of [] \<Rightarrow> 0 | x # _ \<Rightarrow> x)"
  by (cases xs) auto

text \<open>Marking bitmaps does not touch the lists.\<close>

lemma buddy_set_frame_used_lists [simp]:
  "bd_head (buddy_set_frame_used k a b) = bd_head b" "bd_num (buddy_set_frame_used k a b) = bd_num b"
  "bd_next (buddy_set_frame_used k a b) = bd_next b" "bd_addr (buddy_set_frame_used k a b) = bd_addr b"
  "bd_mem (buddy_set_frame_used k a b) = bd_mem b" "bd_fl_slab (buddy_set_frame_used k a b) = bd_fl_slab b"
  "bd_mem_start (buddy_set_frame_used k a b) = bd_mem_start b"
  "bd_mem_size (buddy_set_frame_used k a b) = bd_mem_size b"
  by (simp_all add: buddy_set_frame_used_def Let_def)

lemma fl_chain_used [simp]: "fl_chain (buddy_set_frame_used k a b) n xs = fl_chain b n xs"
  by (rule fl_chain_cong) simp

lemma buddy_rep_used [simp]: "buddy_rep live (buddy_set_frame_used k a b) L = buddy_rep live b L"
  by (simp add: buddy_rep_def)

lemma free_pages_used [simp]: "free_pages (buddy_set_frame_used k a b) L = free_pages b L"
  by (simp add: free_pages_def)

lemma run_pages_split:
  assumes "block_ok addr (Suc k)" and "k < 11"
  defines "up \<equiv> addr + PAGE_SIZE * order_pages (Suc k) div 2"
  shows "run_pages addr (Suc k) = run_pages addr k \<union> run_pages up k"
    and "run_pages addr k \<inter> run_pages up k = {}" and "block_ok addr k" and "block_ok up k"
proof -
  have p: "unat (order_pages (Suc k)) = 2 * 2 ^ k" using assms(2) by (simp add: unat_order_pages)
  have b: "(2 :: nat) ^ k \<le> 1024" using assms(2) power_increasing [of k 10 "2 :: nat"] by simp
  have "unat (PAGE_SIZE * order_pages (Suc k)) = 4096 * (2 * 2 ^ k)"
    using b by (subst unat_u32_mult) (simp_all add: p)
  then have h: "unat (PAGE_SIZE * order_pages (Suc k) div 2) = 4096 * 2 ^ k"
    by (simp add: unat_u32_div)
  have lim: "unat addr + 4096 * (2 * 2 ^ k) \<le> 4294967296" and m: "unat addr mod 4096 = 0"
    using assms(1) by (simp_all add: block_ok_def)
  have u: "unat up = unat addr + 4096 * 2 ^ k"
  proof -
    have "unat addr + 4096 * 2 ^ k < 4294967296"
      using lim zero_less_power [of "2 :: nat" k] by linarith
    then show ?thesis unfolding up_def using h by (subst unat_u32_add) simp_all
  qed
  have ud: "unat up div 4096 = unat addr div 4096 + 2 ^ k" by (simp add: u)
  show "run_pages addr (Suc k) = run_pages addr k \<union> run_pages up k"
    "run_pages addr k \<inter> run_pages up k = {}"
    by (auto simp: run_pages_def ud)
  show "block_ok addr k" "block_ok up k" using lim m u by (simp_all add: block_ok_def)
qed

definition right_half :: "u32 \<Rightarrow> nat \<Rightarrow> u32" where
  "right_half a k = a + PAGE_SIZE * order_pages (Suc k) div 2"

lemma run_pages_mono: "k \<le> j \<Longrightarrow> run_pages a k \<subseteq> run_pages a j"
  using power_increasing [of k j "2 :: nat"] by (auto simp: run_pages_def)

text \<open>A list without one of its nodes: the pages of that node are no longer free.\<close>

lemma rep_drop:
  assumes rep: "buddy_rep live b L" and k: "k < 11" and x: "L k = xs @ x # ys"
    and live: "live (snd ` blocks L - {x}) (bd_mem b')" and addr: "bd_addr b' = bd_addr b"
    and chain: "\<forall>j < 11. fl_chain b' (bd_head b' j) ((L(k := xs @ ys)) j)" and num: "bd_num b' = (bd_num b)(k := bd_num b k - 1)"
  shows "buddy_rep live b' (L(k := xs @ ys))"
    and "free_pages b' (L(k := xs @ ys)) = free_pages b L - run_pages (bd_addr b x) k"
    and "run_pages (bd_addr b x) k \<subseteq> free_pages b L" and "block_ok (bd_addr b x) k"
proof -
  note r = rep [unfolded buddy_rep_def]
  have S: "blocks_sep (bd_addr b) (blocks L)" using r by blast
  have d: "distinct (L k)" "bd_num b k = word_of_nat (length (L k))" using r k by blast+
  have B: "blocks (L(k := xs @ ys)) = blocks L - {(k, x)}"
    using k x d(1) by (auto simp: blocks_def split: if_splits)
  have xb: "(k, x) \<in> blocks L" using k x by (simp add: blocks_def)
  have sep: "y \<noteq> x \<and> run_pages (bd_addr b y) j \<inter> run_pages (bd_addr b x) k = {}"
    if "(j, y) \<in> blocks L - {(k, x)}" for j y using blocks_sepD(2) [OF S _ xb, of j y] that by blast
  then have nodes: "snd ` blocks (L(k := xs @ ys)) = snd ` blocks L - {x}" unfolding B by force
  have "bd_num b' j = word_of_nat (length ((L(k := xs @ ys)) j)) \<and> distinct ((L(k := xs @ ys)) j)" if "j < 11" for j
    using r that d num x by (cases "j = k") auto
  moreover have s: "blocks_sep (bd_addr b) (blocks (L(k := xs @ ys)))" unfolding B using S by (auto intro: blocks_sep_mono)
  ultimately show "buddy_rep live b' (L(k := xs @ ys))"
    using chain live s unfolding buddy_rep_def nodes addr by blast
  have u: "free_pages b L = run_pages (bd_addr b x) k \<union> free_pages b' (L(k := xs @ ys))"
    using xb unfolding free_pages_def B addr by force
  have "run_pages (bd_addr b x) k \<inter> free_pages b' (L(k := xs @ ys)) = {}"
    using sep unfolding free_pages_def B addr by fastforce
  then show "free_pages b' (L(k := xs @ ys)) = free_pages b L - run_pages (bd_addr b x) k"
    "run_pages (bd_addr b x) k \<subseteq> free_pages b L" using u by auto
  show "block_ok (bd_addr b x) k" using blocks_sepD(1) [OF S xb] .
qed

section \<open>Blocks of an allocation\<close>

text \<open>The number of frames that the chunk at word \<open>j\<close> of \<open>addrs\<close> asks for.\<close>

definition chunk_frames :: "u32 \<Rightarrow> nat \<Rightarrow> u32" where
  "chunk_frames nframes j =
     (let rest = nframes - word_of_nat j in if rest > MAX_BUDDY_NFRAMES then MAX_BUDDY_NFRAMES else rest)"

text \<open>The blocks of an allocation are taken one by one out of the free pages.\<close>

fun taken_blocks :: "u32 \<Rightarrow> (nat \<times> u32) list \<Rightarrow> nat set \<Rightarrow> nat set \<Rightarrow> bool" where
  "taken_blocks nframes [] F F' \<longleftrightarrow> F' = F"
| "taken_blocks nframes ((j, a) # out) F F' \<longleftrightarrow>
     (let R = run_pages a (get_buddy_order (chunk_frames nframes j))
      in R \<subseteq> F \<and> taken_blocks nframes out (F - R) F')"

section \<open>Allocation over any object cache\<close>

locale buddy_nodes = object_cache "mo_slab_alloc ops c" "mo_slab_free ops c" live room cost apart
  for ops :: "'w mem_ops" and c :: u32 and live :: "u32 set \<Rightarrow> 'w \<Rightarrow> bool" and room :: "'w \<Rightarrow> nat"
    and cost :: nat and apart :: "u32 \<Rightarrow> u32 \<Rightarrow> bool"
begin

lemma remove_head:
  assumes rep: "buddy_rep live b L" and c: "bd_fl_slab b = c" and k: "k < 11" and x: "L k = x # xs"
    and n0: "bd_num b k \<noteq> 0"
  shows "\<exists>b'. remove_free_head ops k b = Inr b' \<and> buddy_rep live b' (L(k := xs)) \<and>
    bd_fl_slab b' = c \<and> bd_addr b' = bd_addr b \<and> room (bd_mem b') = room (bd_mem b) \<and>
    free_pages b' (L(k := xs)) = free_pages b L - run_pages (bd_addr b x) k \<and>
    run_pages (bd_addr b x) k \<subseteq> free_pages b L \<and> block_ok (bd_addr b x) k \<and>
    bd_data b' = bd_data b \<and> bd_maps b' = bd_maps b"
proof -
  note r = rep [unfolded buddy_rep_def]
  have lists: "fl_chain b (bd_head b j) (L j)" if "j < 11" for j using r that by blast
  have ch: "bd_head b k = x" "x \<noteq> 0" "fl_chain b (bd_next b x) xs" using lists [OF k] x by auto
  have "x \<in> snd ` blocks L" using k x by (force simp: blocks_def)
  from release_live [of "snd ` blocks L" "bd_mem b" x] r this obtain w where
    f: "mo_slab_free ops c x (bd_mem b) = Inr w" "live (snd ` blocks L - {x}) w" "room w = room (bd_mem b)" by auto
  define b' where "b' = b\<lparr>bd_mem := w, bd_head := (bd_head b)(k := bd_next b x),
    bd_num := (bd_num b)(k := bd_num b k - 1)\<rparr>"
  have rm: "remove_free_head ops k b = Inr b'"
    using n0 ch(1,2) f(1) c by (simp add: remove_free_head_def b'_def Let_def)
  have chn: "fl_chain b' n ys = fl_chain b n ys" for n ys by (rule fl_chain_cong) (simp add: b'_def)
  have chain: "\<forall>j < 11. fl_chain b' (bd_head b' j) ((L(k := [] @ xs)) j)"
  proof (intro allI impI)
    fix j :: nat assume "j < 11"
    then show "fl_chain b' (bd_head b' j) ((L(k := [] @ xs)) j)"
      using lists ch(3) by (cases "j = k") (simp_all add: chn, simp_all add: b'_def)
  qed
  have L: "L k = [] @ x # xs" using x by simp
  have lv: "live (snd ` blocks L - {x}) (bd_mem b')" "bd_addr b' = bd_addr b" "bd_num b' = (bd_num b)(k := bd_num b k - 1)"
    using f(2) by (simp_all add: b'_def)
  note d = rep_drop [OF rep k L lv(1,2) chain lv(3), unfolded append_Nil]
  show ?thesis using rm c f(3) d lv(2) by (intro exI [of _ b'] conjI) (simp_all add: b'_def)
qed

lemma insert_block_at:
  assumes rep: "buddy_rep live b L" and c: "bd_fl_slab b = c" and k: "k < 11"
    and rm: "cost \<le> room (bd_mem b)" and ok: "block_ok a k" and dis: "run_pages a k \<inter> free_pages b L = {}"
  shows "\<exists>b' n. insert_buddy ops (Some k) k a b = Inr (0, b') \<and> buddy_rep live b' (L(k := n # L k)) \<and>
    bd_fl_slab b' = c \<and> room (bd_mem b) \<le> room (bd_mem b') + cost \<and>
    free_pages b' (L(k := n # L k)) = free_pages b L \<union> run_pages a k \<and>
    bd_addr b' = (bd_addr b)(n := a) \<and> n \<notin> snd ` blocks L \<and> bd_data b' = bd_data b \<and> bd_maps b' = bd_maps b"
proof -
  note r = rep [unfolded buddy_rep_def]
  have lists: "fl_chain b (bd_head b j) (L j)" "bd_num b j = word_of_nat (length (L j))" "distinct (L j)"
    if "j < 11" for j using r that by blast+
  from alloc_live [of "snd ` blocks L" "bd_mem b"] r rm obtain n w where
    a: "mo_slab_alloc ops c (bd_mem b) = Inr (n, w)" "n \<notin> snd ` blocks L" "n \<noteq> 0"
      "live (insert n (snd ` blocks L)) w" "room (bd_mem b) \<le> room w + cost" by blast
  define b' where "b' = b\<lparr>bd_mem := w, bd_head := (bd_head b)(k := n),
    bd_next := (bd_next b)(n := bd_head b k), bd_addr := (bd_addr b)(n := a),
    bd_num := (bd_num b)(k := bd_num b k + 1)\<rparr>"
  let ?L = "L(k := n # L k)"
  note B = blocks_cons [OF k, of L n]
  have ins: "insert_buddy ops (Some k) k a b = Inr (0, b')"
    using a(1,3) c by (simp add: insert_buddy_def b'_def Let_def)
  have notin: "n \<notin> set (L j)" if "j < 11" for j using a(2) that by (force simp: blocks_def)
  have chn: "fl_chain b' m (L j) = fl_chain b m (L j)" if "j < 11" for m j
    using notin [OF that] by (intro fl_chain_cong) (auto simp: b'_def)
  have "fl_chain b' (bd_head b' j) (?L j) \<and> bd_num b' j = word_of_nat (length (?L j)) \<and> distinct (?L j)"
    if "j < 11" for j
    using lists [OF that] chn [OF that] a(3) notin [OF that]
    by (cases "j = k") (simp_all add: b'_def)
  moreover have "live (snd ` blocks ?L) (bd_mem b')" using a(4) by (simp add: B b'_def)
  moreover have old: "\<forall>u \<in> blocks L. bd_addr b' (snd u) = bd_addr b (snd u) \<and> snd u \<noteq> n"
    using a(2) by (auto simp: b'_def)
  moreover have new: "bd_addr b' n = a" by (simp add: b'_def)
  moreover have sep: "\<forall>u \<in> blocks L. run_pages (bd_addr b (snd u)) (fst u) \<inter> run_pages a k = {}"
    using dis unfolding free_pages_def by fastforce
  ultimately have "buddy_rep live b' ?L"
    using r ok blocks_sep_insert [of "bd_addr b" "blocks L" "bd_addr b'" n k]
    unfolding buddy_rep_def B by simp
  moreover have "free_pages b' ?L = free_pages b L \<union> run_pages a k"
    using old new unfolding free_pages_def B by fastforce
  ultimately show ?thesis using ins a(2,5) c by (intro exI [of _ b'] exI [of _ n]) (simp add: b'_def)
qed

lemma insert_block:
  assumes rep: "buddy_rep live b L" and c: "bd_fl_slab b = c" and k: "k < 11"
    and rm: "cost \<le> room (bd_mem b)" and ok: "block_ok a k" and dis: "run_pages a k \<inter> free_pages b L = {}"
  shows "\<exists>b' L'. insert_buddy ops (Some k) k a b = Inr (0, b') \<and> buddy_rep live b' L' \<and>
    bd_fl_slab b' = c \<and> room (bd_mem b) \<le> room (bd_mem b') + cost \<and>
    free_pages b' L' = free_pages b L \<union> run_pages a k"
  using insert_block_at [OF assms] by blast

text \<open>Splitting a block puts one right half into the list of every order from the target on.\<close>

lemma slice_halves:
  assumes "buddy_rep live b L" and "bd_fl_slab b = c" and "s < 11" and "target < s"
    and "(s - target) * cost \<le> room (bd_mem b)" and "block_ok a s"
    and "run_pages a s \<inter> free_pages b L = {}"
  shows "\<exists>b' L'. buddy_slice ops a s target b = Inr (0, a, b') \<and> buddy_rep live b' L' \<and>
    bd_fl_slab b' = c \<and> room (bd_mem b) \<le> room (bd_mem b') + (s - target) * cost \<and>
    free_pages b' L' = free_pages b L \<union> (run_pages a s - run_pages a target) \<and>
    (\<forall>j. target \<le> j \<and> j < s \<longrightarrow> (\<exists>n. L' j = n # L j \<and> bd_addr b' n = right_half a j)) \<and>
    (\<forall>j. j < target \<or> s \<le> j \<longrightarrow> L' j = L j) \<and> (\<forall>u \<in> blocks L. bd_addr b' (snd u) = bd_addr b (snd u))"
  using assms
proof (induction s arbitrary: b L)
  case (Suc s)
  let ?b1 = "buddy_set_frame_used (Suc s) a b"
  let ?up = "a + PAGE_SIZE * order_pages (Suc s) div 2"
  have s: "s < 11" using Suc.prems(3) by simp
  note sp = run_pages_split [OF Suc.prems(6) s]
  have c1: "cost \<le> room (bd_mem b)" and d: "Suc s - target = Suc (s - target)"
    using Suc.prems(4,5) by (auto simp: Suc_diff_le)
  have "buddy_rep live ?b1 L" "bd_fl_slab ?b1 = c" "cost \<le> room (bd_mem ?b1)"
    "run_pages ?up s \<inter> free_pages ?b1 L = {}"
    using Suc.prems c1 sp by auto
  from insert_block_at [OF this(1,2) s this(3) sp(4) this(4)] obtain b2 n where
    i: "insert_buddy ops (Some s) s ?up ?b1 = Inr (0, b2)" "buddy_rep live b2 (L(s := n # L s))" "bd_fl_slab b2 = c"
      "room (bd_mem b) \<le> room (bd_mem b2) + cost" "free_pages b2 (L(s := n # L s)) = free_pages b L \<union> run_pages ?up s"
      "bd_addr b2 = (bd_addr b)(n := ?up)" "n \<notin> snd ` blocks L"
    by auto
  let ?L2 = "L(s := n # L s)"
  have n: "bd_addr b2 n = right_half a s" by (simp add: i(6) right_half_def)
  have keep: "\<forall>u \<in> blocks L. bd_addr b2 (snd u) = bd_addr b (snd u)" using i(7) by (auto simp: i(6))
  show ?case
  proof (cases "target < s")
    case True
    have "(s - target) * cost \<le> room (bd_mem b2)" using Suc.prems(5) i(4) d by simp
    moreover have "run_pages a s \<inter> free_pages b2 ?L2 = {}" using sp(1,2) Suc.prems(7) i(5) by auto
    ultimately obtain b' L' where h: "buddy_slice ops a s target b2 = Inr (0, a, b')" "buddy_rep live b' L'"
      "bd_fl_slab b' = c" "room (bd_mem b2) \<le> room (bd_mem b') + (s - target) * cost"
      "free_pages b' L' = free_pages b2 ?L2 \<union> (run_pages a s - run_pages a target)"
      "\<forall>j. target \<le> j \<and> j < s \<longrightarrow> (\<exists>n'. L' j = n' # ?L2 j \<and> bd_addr b' n' = right_half a j)"
      "\<forall>j. j < target \<or> s \<le> j \<longrightarrow> L' j = ?L2 j" "\<forall>u \<in> blocks ?L2. bd_addr b' (snd u) = bd_addr b2 (snd u)"
      using Suc.IH [OF i(2,3) s True _ sp(3)] by blast
    have st: "buddy_slice ops a (Suc s) target b = Inr (0, a, b')" using i(1) h(1) True by simp
    have fp: "free_pages b' L' = free_pages b L \<union> (run_pages a (Suc s) - run_pages a target)"
      using h(5) i(5) sp(1,2) True run_pages_mono [of target s a] by auto
    have rm: "room (bd_mem b) \<le> room (bd_mem b') + (Suc s - target) * cost" using h(4) i(4) d by simp
    have "bd_addr b' n = right_half a s" using h(8) n blocks_cons [OF s, of L n] by auto
    then have "\<forall>j. target \<le> j \<and> j < Suc s \<longrightarrow> (\<exists>n'. L' j = n' # L j \<and> bd_addr b' n' = right_half a j)"
      using h(6,7) by (auto simp: less_Suc_eq)
    moreover have "\<forall>j. j < target \<or> Suc s \<le> j \<longrightarrow> L' j = L j" using h(7) True by auto
    moreover have "\<forall>u \<in> blocks L. bd_addr b' (snd u) = bd_addr b (snd u)"
      using h(8) keep blocks_cons [OF s, of L n] by auto
    ultimately show ?thesis using st h(2,3) rm fp by blast
  next
    case False
    then have t: "target = s" using Suc.prems(4) by simp
    let ?b' = "buddy_set_frame_used s a b2"
    have st: "buddy_slice ops a (Suc s) target b = Inr (0, a, ?b')" using i(1) t by simp
    have "free_pages ?b' ?L2 = free_pages b L \<union> (run_pages a (Suc s) - run_pages a target)"
      using i(5) sp(1,2) t by auto
    moreover have "\<forall>j. target \<le> j \<and> j < Suc s \<longrightarrow> (\<exists>n'. ?L2 j = n' # L j \<and> bd_addr ?b' n' = right_half a j)"
      using n t by (auto simp: less_Suc_eq)
    moreover have "\<forall>j. j < target \<or> Suc s \<le> j \<longrightarrow> ?L2 j = L j" using t by auto
    moreover have "room (bd_mem b) \<le> room (bd_mem ?b') + (Suc s - target) * cost" using i(4) t by simp
    moreover have "buddy_rep live ?b' ?L2" "bd_fl_slab ?b' = c" "\<forall>u \<in> blocks L. bd_addr ?b' (snd u) = bd_addr b (snd u)"
      using i(2,3) keep by simp_all
    ultimately show ?thesis using st by blast
  qed
qed simp

lemma slice:
  assumes "buddy_rep live b L" and "bd_fl_slab b = c" and "s < 11" and "target < s"
    and "(s - target) * cost \<le> room (bd_mem b)" and "block_ok a s"
    and "run_pages a s \<inter> free_pages b L = {}"
  shows "\<exists>b' L'. buddy_slice ops a s target b = Inr (0, a, b') \<and> buddy_rep live b' L' \<and>
    bd_fl_slab b' = c \<and> room (bd_mem b) \<le> room (bd_mem b') + (s - target) * cost \<and>
    free_pages b' L' = free_pages b L \<union> (run_pages a s - run_pages a target)"
  using slice_halves [OF assms] by blast

lemma alloc_upper:
  assumes "buddy_rep live b L" and "bd_fl_slab b = c" and "order < 11"
    and "\<forall>i \<in> set is. order < i \<and> i < 11" and "10 * cost \<le> room (bd_mem b)"
  shows "\<exists>ret out b' L'. buddy_alloc_upper ops order is b = Inr (ret, out, b') \<and> buddy_rep live b' L' \<and>
    bd_fl_slab b' = c \<and> room (bd_mem b) \<le> room (bd_mem b') + 10 * cost \<and>
    (ret = 0 \<and> (\<exists>a. out = [a] \<and> block_ok a order \<and> run_pages a order \<subseteq> free_pages b L \<and>
       free_pages b' L' = free_pages b L - run_pages a order) \<or>
     ret = ENOMEM \<and> out = [] \<and> free_pages b' L' = free_pages b L \<and> (\<forall>i \<in> set is. bd_num b i = 0))"
  using assms
proof (induction "is")
  case Nil
  then show ?case by auto
next
  case (Cons i "is")
  have i: "order < i" "i < 11" using Cons.prems(4) by auto
  have ch: "fl_chain b (bd_head b i) (L i)" "bd_num b i = word_of_nat (length (L i))"
    using Cons.prems(1) i unfolding buddy_rep_def by blast+
  show ?case
  proof (cases "bd_num b i = 0")
    case True
    have "\<forall>i \<in> set is. order < i \<and> i < 11" using Cons.prems(4) by simp
    from Cons.IH [OF Cons.prems(1-3) this Cons.prems(5)] True show ?thesis by auto
  next
    case False
    then obtain x xs where x: "L i = x # xs" using ch(2) by (cases "L i") auto
    then have hd: "bd_head b i = x" "x \<noteq> 0" using ch(1) by auto
    from remove_head [OF Cons.prems(1,2) i(2) x False] obtain b1 where
      r: "remove_free_head ops i b = Inr b1" "buddy_rep live b1 (L(i := xs))" "bd_fl_slab b1 = c"
        "bd_addr b1 = bd_addr b" "room (bd_mem b1) = room (bd_mem b)"
        "free_pages b1 (L(i := xs)) = free_pages b L - run_pages (bd_addr b x) i"
        "run_pages (bd_addr b x) i \<subseteq> free_pages b L" "block_ok (bd_addr b x) i" by blast
    let ?a = "bd_addr b x"
    have ten: "(i - order) * cost \<le> 10 * cost" using i by (intro mult_le_mono1) simp
    then have "(i - order) * cost \<le> room (bd_mem b1)" using Cons.prems(5) r(5) by linarith
    moreover have "run_pages ?a i \<inter> free_pages b1 (L(i := xs)) = {}" using r(6) by auto
    ultimately obtain b2 L2 where s: "buddy_slice ops ?a i order b1 = Inr (0, ?a, b2)" "buddy_rep live b2 L2"
      "bd_fl_slab b2 = c" "room (bd_mem b1) \<le> room (bd_mem b2) + (i - order) * cost"
      "free_pages b2 L2 = free_pages b1 (L(i := xs)) \<union> (run_pages ?a i - run_pages ?a order)"
      using slice [OF r(2,3) i(2,1) _ r(8)] by blast
    have "buddy_alloc_upper ops order (i # is) b = Inr (0, [?a], b2)"
      using False hd r(1,4) s(1) by (simp add: Let_def)
    moreover have sub: "run_pages ?a order \<subseteq> run_pages ?a i" using i by (intro run_pages_mono) simp
    moreover have "block_ok ?a order"
    proof -
      have "(2 :: nat) ^ order \<le> 2 ^ i" using i by (intro power_increasing) simp_all
      then have "4096 * (2 :: nat) ^ order \<le> 4096 * 2 ^ i" by (rule mult_le_mono2)
      then show ?thesis using r(8) unfolding block_ok_def by linarith
    qed
    moreover have "free_pages b2 L2 = free_pages b L - run_pages ?a order"
      using s(5) r(6,7) sub by auto
    moreover have "room (bd_mem b) \<le> room (bd_mem b2) + 10 * cost" using s(4) r(5) ten by linarith
    ultimately show ?thesis using s(2,3) r(7)
      by (intro exI [of _ 0] exI [of _ "[?a]"] exI [of _ b2] exI [of _ L2]) auto
  qed
qed

lemma alloc_max_order:
  fixes n :: u32
  assumes rep: "buddy_rep live b L" and c: "bd_fl_slab b = c" and room: "10 * cost \<le> room (bd_mem b)"
  defines "k \<equiv> get_buddy_order n"
  shows "\<exists>ret out b' L'. buddy_alloc_frames_max_order ops n b = Inr (ret, out, b') \<and>
    buddy_rep live b' L' \<and> bd_fl_slab b' = c \<and> room (bd_mem b) \<le> room (bd_mem b') + 10 * cost \<and>
    (ret = 0 \<and> (\<exists>a. out = [a] \<and> block_ok a k \<and> run_pages a k \<subseteq> free_pages b L \<and>
       free_pages b' L' = free_pages b L - run_pages a k) \<or>
     ret = ENOMEM \<and> out = [] \<and> free_pages b' L' = free_pages b L \<and>
       (\<forall>i. k \<le> i \<and> i < 11 \<longrightarrow> bd_num b i = 0))"
proof -
  have k: "k < 11" unfolding k_def by (rule get_buddy_order_lt)
  have ch: "fl_chain b (bd_head b k) (L k)" "bd_num b k = word_of_nat (length (L k))"
    using rep k unfolding buddy_rep_def by blast+
  show ?thesis
  proof (cases "bd_num b k = 0")
    case True
    have "\<forall>i \<in> set [k + 1..<11]. k < i \<and> i < 11" by auto
    from alloc_upper [OF rep c k this room] obtain ret out b' L' where
      u: "buddy_alloc_upper ops k [k + 1..<11] b = Inr (ret, out, b')" "buddy_rep live b' L'"
        "bd_fl_slab b' = c" "room (bd_mem b) \<le> room (bd_mem b') + 10 * cost"
        "ret = 0 \<and> (\<exists>a. out = [a] \<and> block_ok a k \<and> run_pages a k \<subseteq> free_pages b L \<and>
           free_pages b' L' = free_pages b L - run_pages a k) \<or>
         ret = ENOMEM \<and> out = [] \<and> free_pages b' L' = free_pages b L \<and>
           (\<forall>i \<in> set [k + 1..<11]. bd_num b i = 0)" by blast
    have "\<forall>i. k \<le> i \<and> i < 11 \<longrightarrow> bd_num b i = 0" if "\<forall>i \<in> set [k + 1..<11]. bd_num b i = 0"
      using that True by (auto simp: le_eq_less_or_eq)
    moreover have "buddy_alloc_frames_max_order ops n b = Inr (ret, out, b')"
      using u(1) True by (simp add: buddy_alloc_frames_max_order_def k_def Let_def)
    ultimately show ?thesis using u(2-5) by blast
  next
    case False
    then obtain x xs where x: "L k = x # xs" using ch(2) by (cases "L k") auto
    then have hd: "bd_head b k = x" "x \<noteq> 0" using ch(1) by auto
    from remove_head [OF rep c k x False] obtain b1 where
      r: "remove_free_head ops k b = Inr b1" "buddy_rep live b1 (L(k := xs))" "bd_fl_slab b1 = c"
        "bd_addr b1 = bd_addr b" "room (bd_mem b1) = room (bd_mem b)"
        "free_pages b1 (L(k := xs)) = free_pages b L - run_pages (bd_addr b x) k"
        "run_pages (bd_addr b x) k \<subseteq> free_pages b L" "block_ok (bd_addr b x) k" by blast
    have "buddy_alloc_frames_max_order ops n b =
        Inr (0, [bd_addr b x], buddy_set_frame_used k (bd_addr b x) b1)"
      using False hd r(1,4) by (simp add: buddy_alloc_frames_max_order_def k_def Let_def)
    then show ?thesis using r by (intro exI [of _ 0] exI [of _ "[bd_addr b x]"]
        exI [of _ "buddy_set_frame_used k (bd_addr b x) b1"] exI [of _ "L(k := xs)"]) simp
  qed
qed

lemma alloc_loop:
  assumes "buddy_rep live b L" and "bd_fl_slab b = c" and "length is * (10 * cost) \<le> room (bd_mem b)"
  shows "\<exists>ret new b' L'. buddy_alloc_frames_loop ops nframes is out b = Inr (ret, out @ new, b') \<and>
    buddy_rep live b' L' \<and> bd_fl_slab b' = c \<and> taken_blocks nframes new (free_pages b L) (free_pages b' L') \<and>
    (ret = 0 \<and> map fst new = map (\<lambda>i. i * 1024) is \<or> ret = ENOMEM)"
  using assms
proof (induction "is" arbitrary: b L out)
  case Nil
  then show ?case by (intro exI [of _ 0] exI [of _ "[]"] exI [of _ b] exI [of _ L]) simp
next
  case (Cons i "is")
  let ?n = "chunk_frames nframes (i * 1024)"
  have "10 * cost \<le> room (bd_mem b)" using Cons.prems(3) by simp
  from alloc_max_order [OF Cons.prems(1,2) this, of ?n] obtain ret st b1 L1 where
    a: "buddy_alloc_frames_max_order ops ?n b = Inr (ret, st, b1)" "buddy_rep live b1 L1" "bd_fl_slab b1 = c"
      "room (bd_mem b) \<le> room (bd_mem b1) + 10 * cost" and
    cs: "ret = 0 \<and> (\<exists>a. st = [a] \<and> block_ok a (get_buddy_order ?n) \<and>
          run_pages a (get_buddy_order ?n) \<subseteq> free_pages b L \<and>
          free_pages b1 L1 = free_pages b L - run_pages a (get_buddy_order ?n)) \<or>
        ret = ENOMEM \<and> st = [] \<and> free_pages b1 L1 = free_pages b L" by blast
  note step = a(1) [unfolded chunk_frames_def]
  from cs show ?case
  proof (elim disjE conjE exE)
    fix a assume h: "ret = 0" "st = [a]" "run_pages a (get_buddy_order ?n) \<subseteq> free_pages b L"
      "free_pages b1 L1 = free_pages b L - run_pages a (get_buddy_order ?n)"
    have "length is * (10 * cost) \<le> room (bd_mem b1)" using Cons.prems(3) a(4) by simp
    from Cons.IH [OF a(2,3) this, of "out @ [(i * 1024, a)]"] obtain ret new b' L' where
      "buddy_alloc_frames_loop ops nframes is (out @ [(i * 1024, a)]) b1 =
         Inr (ret, (out @ [(i * 1024, a)]) @ new, b')" "buddy_rep live b' L'" "bd_fl_slab b' = c"
      "taken_blocks nframes new (free_pages b1 L1) (free_pages b' L')"
      "ret = 0 \<and> map fst new = map (\<lambda>i. i * 1024) is \<or> ret = ENOMEM" by blast
    then show ?thesis using h step
      by (intro exI [of _ ret] exI [of _ "(i * 1024, a) # new"] exI [of _ b'] exI [of _ L'])
        (simp add: Let_def)
  next
    assume h: "ret = ENOMEM" "st = []" "free_pages b1 L1 = free_pages b L"
    then show ?thesis using step a(2,3)
      by (intro exI [of _ ENOMEM] exI [of _ "[]"] exI [of _ b1] exI [of _ L1])
        (simp add: Let_def errno_defs)
  qed
qed

text \<open>
  The initial list of 4 MB blocks. The loop never writes the \<open>next\<close> field of the last node, so the list
  ends only if the memory of fresh nodes reads as zero.
\<close>

lemma fill:
  assumes "fl_chain b (bd_head b 10) ns" and "distinct ns" and "live (set ns) (bd_mem b)" and "bd_fl_slab b = c"
    and "\<forall>x. x \<notin> set ns \<longrightarrow> bd_next b x = 0" and "ns \<noteq> [] \<longrightarrow> bd_next b (last ns) = 0"
    and "\<forall>j < length ns. bd_addr b (ns ! j) = bd_mem_start b + word_of_nat j * MAX_BUDDY_BYTES"
    and "loc = (if ns = [] then None else Some (last ns))" and "length ns \<le> n"
    and "(n - length ns) * cost \<le> room (bd_mem b)"
  shows "\<exists>b' ns'. buddy_fill ops [length ns..<n] loc b = Inr (True, b') \<and> length ns' = n \<and>
    fl_chain b' (bd_head b' 10) ns' \<and> distinct ns' \<and> live (set ns') (bd_mem b') \<and>
    (\<forall>j < n. bd_addr b' (ns' ! j) = bd_mem_start b + word_of_nat j * MAX_BUDDY_BYTES) \<and>
    (\<forall>k. k \<noteq> 10 \<longrightarrow> bd_head b' k = bd_head b k) \<and> bd_num b' = bd_num b \<and> bd_fl_slab b' = c \<and>
    bd_mem_start b' = bd_mem_start b \<and> room (bd_mem b) \<le> room (bd_mem b') + (n - length ns) * cost \<and>
    bd_data b' = bd_data b \<and> bd_maps b' = bd_maps b"
  using assms
proof (induction "n - length ns" arbitrary: ns b loc)
  case 0
  then have "length ns = n" by simp
  with 0 show ?case by (intro exI [of _ b] exI [of _ ns]) simp
next
  case (Suc m)
  have ln: "length ns < n" using Suc(2) by simp
  then have u: "[length ns..<n] = length ns # [Suc (length ns)..<n]" by (simp add: upt_conv_Cons)
  have d: "n - length ns = Suc (n - Suc (length ns))" using ln by simp
  have "cost \<le> room (bd_mem b)" using Suc.prems(10) by (simp add: d)
  from alloc_live [OF Suc.prems(3) this] obtain x w where
    a: "mo_slab_alloc ops c (bd_mem b) = Inr (x, w)" "x \<notin> set ns" "x \<noteq> 0" "live (insert x (set ns)) w"
      "room (bd_mem b) \<le> room w + cost" by blast
  define b1 where "b1 = (link_node 10 loc x (b\<lparr>bd_mem := w\<rparr>))\<lparr>bd_addr :=
    (bd_addr b)(x := bd_mem_start b + word_of_nat (length ns) * MAX_BUDDY_BYTES)\<rparr>"
  have ad: "bd_addr (link_node 10 loc x (b\<lparr>bd_mem := w\<rparr>)) = bd_addr b"
    by (simp add: link_node_def split: option.split)
  have step: "buddy_fill ops [length ns..<n] loc b = buddy_fill ops [length (ns @ [x])..<n] (Some x) b1"
    using a(1,3) Suc.prems(4) by (simp add: u b1_def ad Let_def)
  have b1: "bd_mem b1 = w" "bd_fl_slab b1 = c" "bd_num b1 = bd_num b" "bd_mem_start b1 = bd_mem_start b"
    "\<And>k. k \<noteq> 10 \<Longrightarrow> bd_head b1 k = bd_head b k" "bd_data b1 = bd_data b" "bd_maps b1 = bd_maps b"
    using Suc.prems(4) by (auto simp: b1_def link_node_def split: option.split)
  have nx: "bd_next b1 y = (if ns \<noteq> [] \<and> y = last ns then x else bd_next b y)" for y
    using Suc.prems(8) by (auto simp: b1_def link_node_def split: option.split)
  have hd: "bd_head b1 10 = (if ns = [] then x else bd_head b 10)"
    using Suc.prems(8) by (auto simp: b1_def link_node_def split: option.split)
  have x0: "bd_next b1 x = 0" using Suc.prems(5) a(2) nx by auto
  have ch: "fl_chain b1 (bd_head b1 10) (ns @ [x])"
  proof (cases ns rule: rev_cases)
    case Nil
    then show ?thesis using hd a(3) x0 by simp
  next
    case (snoc ys y)
    have nx': "bd_next b1 z = (if z = y then x else bd_next b z)" for z using nx snoc by simp
    have xy: "x \<noteq> y" using a(2) snoc by simp
    have "fl_chain b1 n (zs @ [y, x])" if "fl_chain b n (zs @ [y])" "distinct (zs @ [y])" for n zs
      using that x0 a(3) xy nx' by (induction zs arbitrary: n) auto
    then show ?thesis using Suc.prems(1,2) hd snoc by simp
  qed
  have adr: "\<forall>j < length (ns @ [x]). bd_addr b1 ((ns @ [x]) ! j) =
      bd_mem_start b1 + word_of_nat j * MAX_BUDDY_BYTES"
  proof (intro allI impI)
    fix j assume "j < length (ns @ [x])"
    then consider "j < length ns" | "j = length ns" by (auto simp: less_Suc_eq)
    then show "bd_addr b1 ((ns @ [x]) ! j) = bd_mem_start b1 + word_of_nat j * MAX_BUDDY_BYTES"
    proof cases
      case 1
      then have "ns ! j \<noteq> x" using a(2) nth_mem by metis
      with 1 Suc.prems(7) show ?thesis by (simp add: b1(4) nth_append) (simp add: b1_def)
    qed (simp add: b1(4), simp add: b1_def)
  qed
  have "m = n - length (ns @ [x])" using Suc(2) by simp
  moreover have "distinct (ns @ [x])" using Suc.prems(2) a(2) by simp
  moreover have "live (set (ns @ [x])) (bd_mem b1)" using a(4) b1(1) by simp
  moreover have "\<forall>y. y \<notin> set (ns @ [x]) \<longrightarrow> bd_next b1 y = 0" using Suc.prems(5) nx by auto
  moreover have "(n - length (ns @ [x])) * cost \<le> room (bd_mem b1)"
    using Suc.prems(10) a(5) b1(1) d by simp
  ultimately obtain b' ns' where h: "buddy_fill ops [length (ns @ [x])..<n] (Some x) b1 = Inr (True, b')"
    "length ns' = n" "fl_chain b' (bd_head b' 10) ns'" "distinct ns'" "live (set ns') (bd_mem b')"
    "\<forall>j < n. bd_addr b' (ns' ! j) = bd_mem_start b1 + word_of_nat j * MAX_BUDDY_BYTES"
    "\<forall>k. k \<noteq> 10 \<longrightarrow> bd_head b' k = bd_head b1 k" "bd_num b' = bd_num b1" "bd_fl_slab b' = c"
    "bd_mem_start b' = bd_mem_start b1" "room (bd_mem b1) \<le> room (bd_mem b') + (n - length (ns @ [x])) * cost"
    "bd_data b' = bd_data b1" "bd_maps b' = bd_maps b1"
    using Suc.hyps(1) [of "ns @ [x]" b1 "Some x"] ch adr b1(2) x0 ln by auto
  then show ?case using step b1 a(5) d by (intro exI [of _ b'] exI [of _ ns']) auto
qed

end

section \<open>The slab allocator as the node cache\<close>

interpretation slab_buddy: buddy_nodes "slab_ops mm" c "cache_live st c"
  "\<lambda>w. heap_room (sw_heap w)" "slab_cost st"
  "\<lambda>p q. unat p + unat st \<le> unat q \<or> unat q + unat st \<le> unat p" for mm :: "'e mapper" and c st
  unfolding buddy_nodes_def slab_ops_def mem_ops.simps by (rule slab.object_cache_axioms)

lemma cache_live_heap:
  assumes live: "cache_live st c L w" and h: "open_heap h" "heap_low (sw_heap w) \<le> heap_low h"
  shows "cache_live st c L (w\<lparr>sw_heap := h\<rparr>)"
proof -
  obtain P F U where rep: "cache_rep c P F U w" and L: "L = live_objs st (set (P @ F @ U))"
    and st: "st = cache_stride w c" using live by (auto simp: cache_live_def)
  let ?w = "w\<lparr>sw_heap := h\<rparr>"
  have st': "cache_stride ?w c = cache_stride w c" by (simp add: cache_stride_def)
  have "dll ?w g xs z = dll w g xs z" for g xs z by (rule dll_cong) simp_all
  moreover have "slab_ok (cache_stride w c) ?w v = slab_ok (cache_stride w c) w v" for v
    by (rule slab_ok_cong) simp_all
  ultimately have "cache_rep c P F U ?w"
    using rep h unfolding cache_rep_def Let_def st' by (auto intro: order_trans)
  then show ?thesis unfolding cache_live_def using L st st' by metis
qed

lemma slab_ops_kmalloc:
  assumes "open_heap (sw_heap w)" and "n \<noteq> 0" and "unat n + 64 \<le> heap_room (sw_heap w)"
  shows "\<exists>p h. mo_kmalloc (slab_ops mm) n w = Inr (p, w\<lparr>sw_heap := h\<rparr>) \<and> open_heap h \<and>
    heap_low (sw_heap w) \<le> unat p \<and> heap_low (sw_heap w) \<le> heap_low h \<and>
    heap_low h + heap_room h = heap_low (sw_heap w) + heap_room (sw_heap w) \<and>
    heap_low h \<le> heap_low (sw_heap w) + unat n + 64"
proof -
  have "req_valid (n, 16)" "req_cost (n, 16) \<le> heap_room (sw_heap w)" using assms(2,3) by simp_all
  from kmalloc_req_serve [OF assms(1) this, of mm] obtain p h where
    "kmalloc mm n (sw_heap w) = Inr (p, h)" "open_heap h" "heap_low (sw_heap w) \<le> unat p"
    "unat p + unat n \<le> heap_low h" "heap_low h + heap_room h = heap_low (sw_heap w) + heap_room (sw_heap w)"
    "heap_low h \<le> heap_low (sw_heap w) + (unat n + 64)"
    by (auto simp: kmalloc_req_def kmalloc_def)
  then show ?thesis by (intro exI [of _ p] exI [of _ h]) (simp add: slab_ops_def)
qed

text \<open>The heap bytes a buddy allocator with \<open>n\<close> blocks needs for its structures and list nodes.\<close>

definition buddy_cost :: "u32 \<Rightarrow> nat" where
  "buddy_cost mem_size = 1224 + unat (get_buddy_map_size mem_size * 4) + unat (mem_size div MAX_BUDDY_BYTES) * 572"

lemma unat_block_addr:
  assumes "unat start + 0x400000 * n \<le> 4294967296" and "j < n"
  shows "unat (start + word_of_nat j * MAX_BUDDY_BYTES) = unat start + 0x400000 * j"
proof -
  have j: "0x400000 * j + 0x400000 \<le> 0x400000 * n" using assms(2) by simp
  have "unat (word_of_nat j :: u32) = j" using j assms(1) by (intro unat_u32_of_nat) simp
  then have "unat (word_of_nat j * MAX_BUDDY_BYTES) = 0x400000 * j"
    using j assms(1) by (subst unat_u32_mult) simp_all
  then show ?thesis using j assms(1) by (subst unat_u32_add) simp_all
qed

lemma initial_blocks:
  assumes lim: "unat start + 0x400000 * n \<le> 4294967296" and al: "unat start mod 4096 = 0"
    and ns: "length ns = n" "distinct ns" "fl_chain b (bd_head b 10) ns"
    and adr: "\<forall>j < n. bd_addr b (ns ! j) = start + word_of_nat j * MAX_BUDDY_BYTES"
    and hd: "\<forall>k. k \<noteq> 10 \<longrightarrow> bd_head b k = 0" and num: "bd_num b = (\<lambda>_. 0)(10 := word_of_nat n)"
    and lv: "live (set ns) (bd_mem b)"
  defines "L \<equiv> (\<lambda>_. [])(10 := ns)"
  shows "buddy_rep live b L" and "free_pages b L = {unat start div 4096 ..< unat start div 4096 + 1024 * n}"
proof -
  have B: "blocks L = (\<lambda>j. (10, ns ! j)) ` {..<n}"
    using ns(1) by (auto simp: blocks_def L_def in_set_conv_nth split: if_splits)
  have u: "unat (bd_addr b (ns ! j)) = unat start + 0x400000 * j" if "j < n" for j
    using adr that unat_block_addr [OF lim that] by simp
  have d: "unat (bd_addr b (ns ! j)) div 4096 = unat start div 4096 + 1024 * j" if "j < n" for j
    using u [OF that] div_mult_self2 [of 4096 "unat start" "1024 * j"] by simp
  have rp: "run_pages (bd_addr b (ns ! j)) 10 =
      {unat start div 4096 + 1024 * j ..< unat start div 4096 + 1024 * j + 1024}" if "j < n" for j
    by (simp add: run_pages_def d [OF that])
  have ok: "block_ok (bd_addr b (ns ! j)) 10" if "j < n" for j
  proof -
    have "0x400000 * j + 0x400000 \<le> 0x400000 * n" using that by simp
    moreover have "(unat start + 0x400000 * j) mod 4096 = 0"
      using al mod_mult_self2 [of "unat start" 4096 "1024 * j"] by simp
    ultimately show ?thesis using lim by (simp add: block_ok_def u [OF that])
  qed
  have "blocks_sep (bd_addr b) (blocks L)"
    unfolding blocks_sep_def B
  proof (intro conjI ballI impI)
    fix v assume "v \<in> (\<lambda>j. (10 :: nat, ns ! j)) ` {..<n}"
    then show "block_ok (bd_addr b (snd v)) (fst v)" using ok by auto
  next
    fix v v' assume "v \<in> (\<lambda>j. (10 :: nat, ns ! j)) ` {..<n}" "v' \<in> (\<lambda>j. (10, ns ! j)) ` {..<n}" "v \<noteq> v'"
    then obtain i j where ij: "v = (10, ns ! i)" "v' = (10, ns ! j)" "i < n" "j < n" "i \<noteq> j" by auto
    then show "snd v \<noteq> snd v'" using ns(1,2) by (simp add: nth_eq_iff_index_eq)
    from ij(5) have "i + 1 \<le> j \<or> j + 1 \<le> i" by auto
    then show "run_pages (bd_addr b (snd v)) (fst v) \<inter> run_pages (bd_addr b (snd v')) (fst v') = {}"
      using ij rp by auto
  qed
  moreover have "snd ` blocks L = set ns"
    using ns(1) by (auto simp: B in_set_conv_nth image_iff)
  moreover have "fl_chain b (bd_head b k) (L k) \<and> bd_num b k = word_of_nat (length (L k)) \<and> distinct (L k)"
    for k using ns hd num by (simp add: L_def)
  ultimately show "buddy_rep live b L" using lv by (simp add: buddy_rep_def)
  show "free_pages b L = {unat start div 4096 ..< unat start div 4096 + 1024 * n}"
  proof -
    have "free_pages b L = (\<Union>j < n. {unat start div 4096 + 1024 * j ..< unat start div 4096 + 1024 * j + 1024})"
      unfolding free_pages_def B using rp by simp
    also have "\<dots> = {unat start div 4096 ..< unat start div 4096 + 1024 * n}"
      by (induction n) (auto simp: lessThan_Suc)
    finally show ?thesis .
  qed
qed


lemma heap_grow_cache:
  assumes "cache_live st c L w" and "n \<noteq> 0" and "unat n + 64 \<le> heap_room (sw_heap w)"
    and "open_heap (sw_heap w)" and "0 < heap_low (sw_heap w)"
  shows "\<exists>p w'. mo_kmalloc (slab_ops mm) n w = Inr (p, w') \<and> p \<noteq> 0 \<and> cache_live st c L w' \<and>
    open_heap (sw_heap w') \<and> 0 < heap_low (sw_heap w') \<and>
    heap_room (sw_heap w) \<le> heap_room (sw_heap w') + unat n + 64"
proof -
  from slab_ops_kmalloc [OF assms(4,2,3), of mm] obtain p h where
    k: "mo_kmalloc (slab_ops mm) n w = Inr (p, w\<lparr>sw_heap := h\<rparr>)" "open_heap h" "heap_low (sw_heap w) \<le> unat p"
      "heap_low (sw_heap w) \<le> heap_low h"
      "heap_low h + heap_room h = heap_low (sw_heap w) + heap_room (sw_heap w)"
      "heap_low h \<le> heap_low (sw_heap w) + unat n + 64" by blast
  moreover have "p \<noteq> 0" using k(3) assms(5) by auto
  ultimately show ?thesis using cache_live_heap [OF assms(1) k(2,4)] assms(5)
    by (intro exI [of _ p] exI [of _ "w\<lparr>sw_heap := h\<rparr>"]) auto
qed

lemma cache_live_open:
  "cache_live st c L w \<Longrightarrow> open_heap (sw_heap w)" "cache_live st c L w \<Longrightarrow> 0 < heap_low (sw_heap w)"
  by (auto simp: cache_live_def cache_rep_def Let_def)

text \<open>The node cache and the bitmaps of a new buddy allocator.\<close>

lemma buddy_cache_create:
  assumes op: "open_heap (sw_heap w)" and old: "unat (sw_caches w) < heap_low (sw_heap w)"
    and room: "856 + r \<le> heap_room (sw_heap w)"
  shows "\<exists>p w1 c w2. mo_kmalloc (slab_ops mm) 20 w = Inr (p, w1) \<and> p \<noteq> 0 \<and>
    mo_cache_create (slab_ops mm) 8 w1 = Inr (c, w2) \<and> cache_live 28 c {} w2 \<and>
    r \<le> heap_room (sw_heap w2) \<and> 0 < heap_low (sw_heap w2)"
proof -
  from slab_ops_kmalloc [OF op, of 20 mm] room obtain p h where
    k: "mo_kmalloc (slab_ops mm) 20 w = Inr (p, w\<lparr>sw_heap := h\<rparr>)" "open_heap h" "heap_low (sw_heap w) \<le> unat p"
      "heap_low (sw_heap w) \<le> heap_low h"
      "heap_low h + heap_room h = heap_low (sw_heap w) + heap_room (sw_heap w)"
      "heap_low h \<le> heap_low (sw_heap w) + 20 + 64" by auto
  let ?w1 = "w\<lparr>sw_heap := h\<rparr>"
  have "open_heap (sw_heap ?w1)" "200 + slab_cost (8 + 20) \<le> heap_room (sw_heap ?w1)"
    "unat (sw_caches ?w1) < heap_low (sw_heap ?w1)"
    using k(2,4,5,6) room old by (simp_all add: slab_cost_def)
  from slab_cache_create_live [OF this(1) _ this(2,3), of mm] obtain c w2 where
    c: "slab_cache_create mm 8 ?w1 = Inr (c, w2)" "cache_live 28 c {} w2"
      "heap_low (sw_heap w2) + heap_room (sw_heap w2) = heap_low h + heap_room h"
      "heap_low (sw_heap w2) \<le> heap_low h + 200 + slab_cost 28" by auto
  have "p \<noteq> 0" using k(3) old by auto
  with k c show ?thesis using room old cache_live_open(2) [OF c(2)]
    by (intro exI [of _ p] exI [of _ ?w1] exI [of _ c] exI [of _ w2]) (simp add: slab_ops_def slab_cost_def)
qed

lemma memset0_words_zero: "memset0_words n (\<lambda>_. 0) = (\<lambda>_. 0)"
  by (rule ext) (simp add: memset0_words_def)

lemma create_buddy_maps:
  assumes lv: "cache_live st c L (bd_mem b)" and low: "0 < heap_low (sw_heap (bd_mem b))"
    and sz: "sz \<noteq> 0" and room: "368 + unat sz + r \<le> heap_room (sw_heap (bd_mem b))"
  shows "\<exists>b2 fa w3. alloc_buddy_maps (slab_ops mm) sz b = Inr (0, b2) \<and>
    mo_kmalloc (slab_ops mm) 132 (bd_mem b2) = Inr (fa, w3) \<and> fa \<noteq> 0 \<and> cache_live st c L w3 \<and>
    r \<le> heap_room (sw_heap w3) \<and> bd_next b2 = bd_next b \<and> bd_fl_slab b2 = bd_fl_slab b \<and>
    bd_mem_start b2 = bd_mem_start b \<and> (\<forall>k < 11. bd_maps b2 k = buddy_map_offset (bd_mem_size b) k) \<and>
    (bd_data b = (\<lambda>_. 0) \<longrightarrow> bd_data b2 = (\<lambda>_. 0))"
proof -
  from heap_grow_cache [OF lv, of 44 mm] room low cache_live_open(1) [OF lv] obtain m w1 where
    m: "mo_kmalloc (slab_ops mm) 44 (bd_mem b) = Inr (m, w1)" "m \<noteq> 0" "cache_live st c L w1"
      "open_heap (sw_heap w1)" "0 < heap_low (sw_heap w1)"
      "260 + unat sz + r \<le> heap_room (sw_heap w1)" by auto
  from heap_grow_cache [OF m(3) sz, of mm] m(4-6) obtain d w2 where
    d: "mo_kmalloc (slab_ops mm) sz w1 = Inr (d, w2)" "d \<noteq> 0" "cache_live st c L w2"
      "open_heap (sw_heap w2)" "0 < heap_low (sw_heap w2)" "196 + r \<le> heap_room (sw_heap w2)" by auto
  from heap_grow_cache [OF d(3), of 132 mm] d(4-6) obtain f w3 where
    f: "mo_kmalloc (slab_ops mm) 132 w2 = Inr (f, w3)" "f \<noteq> 0" "cache_live st c L w3"
      "r \<le> heap_room (sw_heap w3)" by auto
  from m(1,2) d(1,2) f show ?thesis by (simp add: alloc_buddy_maps_def memset0_words_zero Let_def)
qed

lemma buddy_create_full:
  fixes start lim :: u32 and b0 :: "'e slab_world buddy_state"
  defines "siz \<equiv> lim - start"
  defines "n \<equiv> unat (siz div MAX_BUDDY_BYTES)"
  assumes op: "open_heap (sw_heap (bd_mem b0))" and old: "unat (sw_caches (bd_mem b0)) < heap_low (sw_heap (bd_mem b0))"
    and room: "buddy_cost siz + r \<le> heap_room (sw_heap (bd_mem b0))" and lim: "start < lim"
    and al: "unat start mod 4096 = 0" and map: "get_buddy_map_size siz * 4 \<noteq> 0" and nx: "bd_next b0 = (\<lambda>_. 0)"
  shows "\<exists>p b c L. buddy_alloc_create (slab_ops mm) start lim b0 = Inr (p, b) \<and> p \<noteq> 0 \<and>
    bd_fl_slab b = c \<and> buddy_rep (cache_live 28 c) b L \<and> r \<le> heap_room (sw_heap (bd_mem b)) \<and>
    free_pages b L = {unat start div 4096 ..< unat start div 4096 + 1024 * n} \<and>
    (\<forall>k. k \<noteq> 10 \<longrightarrow> L k = []) \<and> length (L 10) = n \<and>
    (\<forall>j < n. bd_addr b (L 10 ! j) = start + word_of_nat j * MAX_BUDDY_BYTES) \<and>
    (\<forall>k < 11. bd_maps b k = buddy_map_offset siz k) \<and> (bd_data b0 = (\<lambda>_. 0) \<longrightarrow> bd_data b = (\<lambda>_. 0))"
proof -
  let ?sz = "get_buddy_map_size siz * 4"
  have l0: "lim \<noteq> 0" using lim by auto
  have us: "unat siz = unat lim - unat start" using lim by (simp add: siz_def unat_u32_sub word_less_nat_alt)
  have "0x400000 * n \<le> unat siz" by (simp add: n_def unat_u32_div)
  then have top: "unat start + 0x400000 * n \<le> 4294967296"
    using us lim unat_u32_lt [of lim] by (simp add: word_less_nat_alt)
  have "856 + (368 + unat ?sz + (n * 572 + r)) \<le> heap_room (sw_heap (bd_mem b0))"
    using room by (simp add: buddy_cost_def n_def)
  from buddy_cache_create [OF op old this, of mm] obtain p w1 c w2 where
    a: "mo_kmalloc (slab_ops mm) 20 (bd_mem b0) = Inr (p, w1)" "p \<noteq> 0"
      "mo_cache_create (slab_ops mm) 8 w1 = Inr (c, w2)" "cache_live 28 c {} w2"
      "368 + unat ?sz + (n * 572 + r) \<le> heap_room (sw_heap w2)" "0 < heap_low (sw_heap w2)" by blast
  define b1 where "b1 = b0\<lparr>bd_mem := w2, bd_fl_slab := c, bd_mem_size := siz, bd_mem_start := start\<rparr>"
  have b1: "bd_mem b1 = w2" "bd_next b1 = (\<lambda>_. 0)" "bd_fl_slab b1 = c" "bd_mem_start b1 = start"
    "bd_mem_size b1 = siz" "bd_data b1 = bd_data b0"
    using nx by (simp_all add: b1_def)
  from create_buddy_maps [of 28 c "{}" b1 ?sz "n * 572 + r" mm] a(4-6) map b1 obtain b2 f w3 where
    m: "alloc_buddy_maps (slab_ops mm) ?sz b1 = Inr (0, b2)" "mo_kmalloc (slab_ops mm) 132 (bd_mem b2) = Inr (f, w3)"
      "f \<noteq> 0" "cache_live 28 c {} w3" "n * 572 + r \<le> heap_room (sw_heap w3)" "bd_next b2 = (\<lambda>_. 0)"
      "bd_fl_slab b2 = c" "bd_mem_start b2 = start" "\<forall>k < 11. bd_maps b2 k = buddy_map_offset siz k"
      "bd_data b0 = (\<lambda>_. 0) \<longrightarrow> bd_data b2 = (\<lambda>_. 0)" by auto
  define b3 where "b3 = b2\<lparr>bd_mem := w3, bd_area_ptr := f, bd_head := (\<lambda>_. 0),
    bd_num := (\<lambda>_. 0)(10 := siz div MAX_BUDDY_BYTES)\<rparr>"
  from slab_buddy.fill [of b3 "[]" 28 c None n mm] m obtain b ns where
    g: "buddy_fill (slab_ops mm) [0..<n] None b3 = Inr (True, b)" "length ns = n" "fl_chain b (bd_head b 10) ns"
      "distinct ns" "cache_live 28 c (set ns) (bd_mem b)"
      "\<forall>j < n. bd_addr b (ns ! j) = start + word_of_nat j * MAX_BUDDY_BYTES" "\<forall>k. k \<noteq> 10 \<longrightarrow> bd_head b k = 0"
      "bd_num b = (\<lambda>_. 0)(10 := siz div MAX_BUDDY_BYTES)" "bd_fl_slab b = c"
      "heap_room (sw_heap w3) \<le> heap_room (sw_heap (bd_mem b)) + n * 572"
      "bd_data b = bd_data b2" "bd_maps b = bd_maps b2"
    by (auto simp: b3_def slab_cost_def)
  have "siz div MAX_BUDDY_BYTES = word_of_nat n" by (simp add: n_def)
  with g(8) have num: "bd_num b = (\<lambda>_. 0)(10 := word_of_nat n)" by simp
  note i = initial_blocks [where live = "cache_live 28 c", OF top al g(2,4,3,6,7) num g(5)]
  have "buddy_alloc_create (slab_ops mm) start lim b0 = Inr (p, b)"
    using l0 a(1-3) m(1-3) g(1)
    by (simp add: buddy_alloc_create_def Let_def siz_def [symmetric] b1_def [symmetric] b3_def [symmetric]
        n_def [symmetric])
  moreover have "r \<le> heap_room (sw_heap (bd_mem b))" using g(10) m(5) by linarith
  moreover have "\<forall>k. k \<noteq> 10 \<longrightarrow> ((\<lambda>_. [])(10 := ns)) k = []" "length (((\<lambda>_. [])(10 := ns)) 10) = n"
    "\<forall>j < n. bd_addr b (((\<lambda>_. [])(10 := ns)) 10 ! j) = start + word_of_nat j * MAX_BUDDY_BYTES"
    using g(2,6) by simp_all
  moreover have "\<forall>k < 11. bd_maps b k = buddy_map_offset siz k" "bd_data b0 = (\<lambda>_. 0) \<longrightarrow> bd_data b = (\<lambda>_. 0)"
    using m(9,10) g(11,12) by simp_all
  ultimately show ?thesis using a(2) i g(9)
    by (intro exI [of _ p] exI [of _ b] exI [of _ c] exI [of _ "(\<lambda>_. [])(10 := ns)"] conjI)
qed

lemma buddy_create_rep:
  fixes start lim :: u32 and b0 :: "'e slab_world buddy_state"
  assumes "open_heap (sw_heap (bd_mem b0))" and "unat (sw_caches (bd_mem b0)) < heap_low (sw_heap (bd_mem b0))"
    and "buddy_cost (lim - start) + r \<le> heap_room (sw_heap (bd_mem b0))" and "start < lim"
    and "unat start mod 4096 = 0" and "get_buddy_map_size (lim - start) * 4 \<noteq> 0" and "bd_next b0 = (\<lambda>_. 0)"
  shows "\<exists>p b c L. buddy_alloc_create (slab_ops mm) start lim b0 = Inr (p, b) \<and> p \<noteq> 0 \<and>
    bd_fl_slab b = c \<and> buddy_rep (cache_live 28 c) b L \<and> r \<le> heap_room (sw_heap (bd_mem b)) \<and>
    free_pages b L = {unat start div 4096 ..<
      unat start div 4096 + 1024 * unat ((lim - start) div MAX_BUDDY_BYTES)}"
  using buddy_create_full [OF assms, of mm] by blast

section \<open>Properties\<close>

text \<open>
  \<open>get_buddy_order\<close> is the smallest order whose blocks hold the requested number of frames, capped at
  the largest order: the loop over the orders computes the least exponent of the specification.
\<close>

theorem get_buddy_order_least:
  "get_buddy_order nframes = (LEAST k. unat nframes \<le> 2 ^ k \<or> k = 10)"
proof (rule Least_equality [symmetric])
  show "unat nframes \<le> 2 ^ get_buddy_order nframes \<or> get_buddy_order nframes = 10"
    using get_buddy_order_spec [of nframes]
    by (cases "unat nframes \<le> 1024") (auto simp: get_buddy_order_def word_less_nat_alt)
next
  fix k assume k: "unat nframes \<le> 2 ^ k \<or> k = 10"
  show "get_buddy_order nframes \<le> k"
  proof (cases "unat nframes \<le> 1024")
    case True
    then show ?thesis using get_buddy_order_spec [of nframes] k by (metis leI linorder_not_less less_Suc_eq_le
          numeral_nat(3) eval_nat_numeral(3))
  next
    case False
    then have "\<not> unat nframes \<le> 2 ^ k \<or> 10 \<le> k"
      using power_increasing [of k 10 "2 :: nat"] by (cases "k \<le> 10") auto
    with k False show ?thesis by (auto simp: get_buddy_order_def word_less_nat_alt)
  qed
qed

text \<open>
  The initial state of the kernel's memory: nothing allocated, the node memory zero, the heap of 4 MB.
\<close>

definition buddy_blank :: "unit slab_world buddy_state" where
  "buddy_blank = \<lparr>bd_mem_size = 0, bd_mem_start = 0, bd_fl_slab = 0, bd_maps_ptr = 0, bd_data_ptr = 0,
     bd_area_ptr = 0, bd_maps = (\<lambda>_. 0), bd_data = (\<lambda>_. 0), bd_head = (\<lambda>_. 0), bd_num = (\<lambda>_. 0),
     bd_next = (\<lambda>_. 0), bd_addr = (\<lambda>_. 0), bd_mem = slab_world_4mb\<rparr>"

text \<open>
  C27. Creation: on memory that reads as zero and a heap with room for the structures,
  \<open>buddy_alloc_create\<close> returns an allocator (not null) in a well-formed state whose free pages are
  exactly the whole 4 MB blocks of the requested range, pairwise disjoint.
\<close>

theorem buddy_alloc_create_free_pages:
  fixes start lim :: u32 and b0 :: "'e slab_world buddy_state"
  assumes "open_heap (sw_heap (bd_mem b0))" and "unat (sw_caches (bd_mem b0)) < heap_low (sw_heap (bd_mem b0))"
    and "buddy_cost (lim - start) \<le> heap_room (sw_heap (bd_mem b0))" and "start < lim"
    and "unat start mod 4096 = 0" and "get_buddy_map_size (lim - start) * 4 \<noteq> 0" and "bd_next b0 = (\<lambda>_. 0)"
  shows "\<exists>p b L. buddy_alloc_create (slab_ops mm) start lim b0 = Inr (p, b) \<and> p \<noteq> 0 \<and>
    buddy_rep (cache_live 28 (bd_fl_slab b)) b L \<and>
    free_pages b L = {unat start div 4096 ..<
      unat start div 4096 + 1024 * unat ((lim - start) div MAX_BUDDY_BYTES)}"
  using buddy_create_rep [OF assms(1,2) _ assms(4-7), of 0 mm] assms(3) by auto

lemma buddy_user_map: "get_buddy_map_size 0x3FF00000 = 16361"
  by code_simp

lemma buddy_user_blocks: "(0x3FF00000 :: u32) div MAX_BUDDY_BYTES = 255"
  by code_simp

lemma buddy_user_room: "buddy_cost 0x3FF00000 < 0x50000"
  by (simp only: buddy_cost_def buddy_user_map buddy_user_blocks) simp

lemmas buddy_user = buddy_user_map buddy_user_blocks buddy_user_room

theorem buddy_alloc_create_free_pages_witness:
  "\<exists>p b L. buddy_alloc_create (slab_ops mm_ok) 0x100000 0x40000000 buddy_blank = Inr (p, b) \<and> p \<noteq> 0 \<and>
     buddy_rep (cache_live 28 (bd_fl_slab b)) b L \<and> free_pages b L = {256 ..< 261376}"
proof -
  have "(0x40000000 - 0x100000 :: u32) = 0x3FF00000" by simp
  with buddy_alloc_create_free_pages [of buddy_blank "0x40000000" "0x100000" mm_ok] slab_world_4mb_heap
    buddy_user show ?thesis by (simp add: buddy_blank_def)
qed

text \<open>
  C14. No page is handed out twice: \<open>buddy_alloc_frames\<close> on a well-formed allocator, with room for the
  list nodes, takes each block it stores out of the free pages left by the ones before, keeps the
  allocator well formed, and either serves every chunk of 1024 frames (code 0) or returns \<open>ENOMEM\<close>.
\<close>

theorem buddy_alloc_frames_takes_free:
  fixes b :: "'e slab_world buddy_state"
  assumes "buddy_rep (cache_live st (bd_fl_slab b)) b L" and "addrs \<noteq> 0"
    and "(unat nframes div 1024 + 1) * (10 * slab_cost st) \<le> heap_room (sw_heap (bd_mem b))"
  shows "\<exists>ret out b' L'. buddy_alloc_frames (slab_ops mm) addrs nframes b = Inr (ret, out, b') \<and>
    buddy_rep (cache_live st (bd_fl_slab b)) b' L' \<and>
    taken_blocks nframes out (free_pages b L) (free_pages b' L') \<and>
    (ret = 0 \<and> map fst out = map (\<lambda>i. i * 1024) [0..<unat (div_align_up nframes 1024)] \<or> ret = ENOMEM)"
proof -
  let ?m = "unat (div_align_up nframes 1024)"
  have "?m \<le> unat nframes div 1024 + 1"
    using unat_u32_lt [of nframes] by (simp add: div_align_up_def unat_u32_div unat_u32_add)
  then have "?m * (10 * slab_cost st) \<le> heap_room (sw_heap (bd_mem b))"
    using assms(3) mult_le_mono1 order_trans by blast
  then have r: "length [0..<?m] * (10 * slab_cost st) \<le> heap_room (sw_heap (bd_mem b))" by simp
  from slab_buddy.alloc_loop [OF assms(1) refl this, of mm nframes "[]"] obtain ret new b' L' where
    "buddy_alloc_frames_loop (slab_ops mm) nframes [0..<?m] [] b = Inr (ret, new, b')"
    "buddy_rep (cache_live st (bd_fl_slab b)) b' L'"
    "taken_blocks nframes new (free_pages b L) (free_pages b' L')"
    "ret = 0 \<and> map fst new = map (\<lambda>i. i * 1024) [0..<?m] \<or> ret = ENOMEM" by auto
  then show ?thesis using assms(2)
    by (intro exI [of _ ret] exI [of _ new] exI [of _ b'] exI [of _ L'])
      (simp add: buddy_alloc_frames_def div_align_up_def Let_def)
qed

text \<open>A buddy allocator on the user range, with the heap room that 1024 more node slabs need.\<close>

lemma buddy_user_rep:
  "\<exists>p b L. buddy_alloc_create (slab_ops mm_ok) 0x100000 0x40000000 buddy_blank = Inr (p, b) \<and>
     buddy_rep (cache_live 28 (bd_fl_slab b)) b L \<and> free_pages b L = {256 ..< 261376} \<and>
     0x200000 \<le> heap_room (sw_heap (bd_mem b))"
proof -
  have "(0x40000000 - 0x100000 :: u32) = 0x3FF00000" by simp
  with buddy_create_rep [of buddy_blank "0x40000000" "0x100000" "0x200000" mm_ok] slab_world_4mb_heap
    buddy_user show ?thesis by (simp add: buddy_blank_def) blast
qed

theorem buddy_alloc_frames_takes_free_witness:
  "\<exists>p b ret out b'. buddy_alloc_create (slab_ops mm_ok) 0x100000 0x40000000 buddy_blank = Inr (p, b) \<and>
     buddy_alloc_frames (slab_ops mm_ok) 1 3000 b = Inr (ret, out, b') \<and>
     (\<exists>F. taken_blocks 3000 out {256 ..< 261376} F)"
proof -
  obtain p b L where b: "buddy_alloc_create (slab_ops mm_ok) 0x100000 0x40000000 buddy_blank = Inr (p, b)"
    "buddy_rep (cache_live 28 (bd_fl_slab b)) b L" "free_pages b L = {256 ..< 261376}"
    "0x200000 \<le> heap_room (sw_heap (bd_mem b))" using buddy_user_rep by blast
  have "(unat (3000 :: u32) div 1024 + 1) * (10 * slab_cost 28) \<le> heap_room (sw_heap (bd_mem b))"
    using b(4) by (simp add: slab_cost_def)
  from buddy_alloc_frames_takes_free [OF b(2) _ this, of 1 mm_ok] b(1,3) show ?thesis by auto
qed

lemma buddy_alloc_upper_none:
  "\<forall>i \<in> set is. bd_num b i = 0 \<Longrightarrow> buddy_alloc_upper ops order is b = Inr (ENOMEM, [], b)"
  by (induction "is") (simp_all add: Let_def)

text \<open>
  C36. The allocation of up to 1024 frames fails only when it has to: on a well-formed allocator it
  returns \<open>ENOMEM\<close>, without changing the free pages, exactly when no list of the requested order or a
  larger one has a block.
\<close>

theorem buddy_alloc_enomem:
  fixes b :: "'e slab_world buddy_state"
  assumes "buddy_rep (cache_live st (bd_fl_slab b)) b L" and "10 * slab_cost st \<le> heap_room (sw_heap (bd_mem b))"
  shows "\<exists>ret out b' L'. buddy_alloc_frames_max_order (slab_ops mm) nframes b = Inr (ret, out, b') \<and>
    buddy_rep (cache_live st (bd_fl_slab b)) b' L' \<and>
    (ret = ENOMEM \<longleftrightarrow> (\<forall>i. get_buddy_order nframes \<le> i \<and> i < 11 \<longrightarrow> bd_num b i = 0)) \<and>
    (ret = ENOMEM \<longrightarrow> out = [] \<and> free_pages b' L' = free_pages b L)"
proof -
  let ?none = "\<forall>i. get_buddy_order nframes \<le> i \<and> i < 11 \<longrightarrow> bd_num b i = 0"
  have "buddy_alloc_frames_max_order (slab_ops mm) nframes b = Inr (ENOMEM, [], b)" if ?none
    using that get_buddy_order_lt [of nframes]
    by (simp add: buddy_alloc_frames_max_order_def buddy_alloc_upper_none Let_def)
  moreover from slab_buddy.alloc_max_order [OF assms(1) refl assms(2), of mm nframes] obtain ret out b' L' where
    "buddy_alloc_frames_max_order (slab_ops mm) nframes b = Inr (ret, out, b')"
    "buddy_rep (cache_live st (bd_fl_slab b)) b' L'"
    "ret = 0 \<or> ret = ENOMEM \<and> out = [] \<and> free_pages b' L' = free_pages b L \<and> ?none" by blast
  ultimately show ?thesis
    by (intro exI [of _ ret] exI [of _ out] exI [of _ b'] exI [of _ L']) (auto simp: errno_defs)
qed

theorem buddy_alloc_enomem_witness:
  "\<exists>p b ret out b'. buddy_alloc_create (slab_ops mm_ok) 0x100000 0x40000000 buddy_blank = Inr (p, b) \<and>
     buddy_alloc_frames_max_order (slab_ops mm_ok) 5 b = Inr (ret, out, b') \<and>
     (ret = ENOMEM \<longrightarrow> out = [])"
proof -
  obtain p b L where b: "buddy_alloc_create (slab_ops mm_ok) 0x100000 0x40000000 buddy_blank = Inr (p, b)"
    "buddy_rep (cache_live 28 (bd_fl_slab b)) b L" "0x200000 \<le> heap_room (sw_heap (bd_mem b))"
    using buddy_user_rep by blast
  then have "10 * slab_cost 28 \<le> heap_room (sw_heap (bd_mem b))" by (simp add: slab_cost_def)
  from buddy_alloc_enomem [OF b(2) this, of mm_ok 5] b(1) show ?thesis by blast
qed

section \<open>Release and bitmaps\<close>

declare buddy_coalesce.simps [simp del]

text \<open>A memory that always has an object: nodes come from a counter. Concrete runs use it.\<close>

definition count_ops :: "u32 mem_ops" where
  "count_ops = \<lparr>mo_kmalloc = (\<lambda>n w. Inr (w, w + n)), mo_kfree = (\<lambda>p w. Inr w),
     mo_cache_create = (\<lambda>n w. Inr (w, w + 136)), mo_cache_destroy = (\<lambda>c w. Inr w),
     mo_slab_alloc = (\<lambda>c w. Inr (w, w + 8)), mo_slab_free = (\<lambda>c p w. Inr w)\<rparr>"

definition buddy_count :: "u32 buddy_state" where
  "buddy_count = \<lparr>bd_mem_size = 0, bd_mem_start = 0, bd_fl_slab = 0, bd_maps_ptr = 0, bd_data_ptr = 0,
     bd_area_ptr = 0, bd_maps = (\<lambda>_. 0), bd_data = (\<lambda>_. 0), bd_head = (\<lambda>_. 0), bd_num = (\<lambda>_. 0),
     bd_next = (\<lambda>_. 0), bd_addr = (\<lambda>_. 0), bd_mem = 0x1000\<rparr>"

text \<open>
  The 4 MB block at 4 MB, split into halves: \<open>kept\<close> is in the free list of order 9, \<open>used\<close> is marked
  as used. The used half is freed, then 1024 frames are allocated.
\<close>

definition half_free :: "u32 \<Rightarrow> u32 \<Rightarrow> u32 buddy_state" where
  "half_free kept used = buddy_set_frame_used 9 used
     (buddy_count\<lparr>bd_maps := (\<lambda>i. 100 * i), bd_head := (\<lambda>_. 0)(9 := 0x500),
        bd_num := (\<lambda>_. 0)(9 := 1), bd_addr := (\<lambda>_. 0)(0x500 := kept)\<rparr>)"

definition free_half_alloc_all :: "u32 \<Rightarrow> u32 \<Rightarrow> fault + int \<times> (nat \<times> u32) list" where
  "free_half_alloc_all kept used =
     bindE (buddy_free_frames count_ops used 512 (half_free kept used))
     (\<lambda>b. bindE (buddy_alloc_frames count_ops 1 1024 b) (\<lambda>(ret, out, _). Inr (ret, out)))"

text \<open>
  Freeing the left half of a split 4 MB block whose right half is free merges the halves: the next
  allocation of 1024 frames gets the whole block at its own address.
\<close>

lemma buddy_free_left_half:
  "free_half_alloc_all 0x600000 0x400000 = Inr (0, [(0, 0x400000)])"
  by code_simp

text \<open>
  Freeing the right half does not: the merged block is recorded at the address of the right half,
  so the next allocation of 1024 frames gets 2 MB behind the block and loses the left half.
\<close>

theorem buddy_free_right_half:
  "free_half_alloc_all 0x400000 0x600000 = Inr (0, [(0, 0x600000)])"
  by code_simp

lemma insert_buddy_head:
  assumes "insert_buddy ops (Some k) k a b = Inr (ret, b')"
  shows "bd_head b' k = 0 \<or> bd_addr b' (bd_head b' k) = a"
proof (cases "mo_slab_alloc ops (bd_fl_slab b) (bd_mem b)")
  case (Inl f)
  with assms show ?thesis by (simp add: insert_buddy_def)
next
  case (Inr r)
  moreover obtain n w where "r = (n, w)" by (cases r)
  ultimately show ?thesis using assms by (cases "n = 0") (auto simp: insert_buddy_def)
qed

text \<open>
  Where a freed block ends up: when \<open>buddy_coalesce\<close> returns, the list of some order from the given
  one up to the largest starts with a block at exactly the freed address, or with no node when the
  cache had no object; the address is never rounded to the start of the merged block.
\<close>

theorem buddy_coalesce_start:
  "order \<le> 10 \<Longrightarrow> buddy_coalesce ops order addr b = Inr b' \<Longrightarrow>
    \<exists>k. order \<le> k \<and> k \<le> 10 \<and> (bd_head b' k = 0 \<or> bd_addr b' (bd_head b' k) = addr)"
proof (induction ops order addr b rule: buddy_coalesce.induct)
  case (1 ops order addr b)
  let ?m = "addr_to_map_id order addr"
  let ?f = "if fma_frame ?m mod 2 \<noteq> 0 then fma_frame ?m - 1 else fma_frame ?m + 1"
  let ?b1 = "buddy_set_frame_unused order addr b"
  show ?case
  proof (cases "order < MAX_ORDER - 1 \<and> buddy_is_frame_free (bd_data ?b1 (map_word order ?m ?b1)) ?f")
    case True
    then obtain b2 where b2: "buddy_coalesce ops (order + 1) addr b2 = Inr b'"
      using 1(3) by (subst (asm) buddy_coalesce.simps) (auto simp: Let_def bindE_Inr_iff split: if_splits)
    from True have "order + 1 \<le> 10" by simp
    with 1(1) [OF refl refl refl refl True] b2 obtain k where
      "order + 1 \<le> k" "k \<le> 10" "bd_head b' k = 0 \<or> bd_addr b' (bd_head b' k) = addr" by blast
    then show ?thesis by (intro exI [of _ k]) simp
  next
    case False
    then obtain ret where "insert_buddy ops (Some order) order addr ?b1 = Inr (ret, b')"
      using 1(3) by (subst (asm) buddy_coalesce.simps) (auto simp: Let_def bindE_Inr_iff split: if_splits)
    then have "bd_head b' order = 0 \<or> bd_addr b' (bd_head b' order) = addr"
      by (rule insert_buddy_head)
    with 1(2) show ?thesis by blast
  qed
qed

theorem buddy_coalesce_start_witness:
  "\<exists>b'. buddy_coalesce count_ops 10 0x400000 buddy_count = Inr b' \<and>
     (\<exists>k. 10 \<le> k \<and> k \<le> 10 \<and> (bd_head b' k = 0 \<or> bd_addr b' (bd_head b' k) = 0x400000))"
proof -
  have "\<exists>b'. buddy_coalesce count_ops 10 0x400000 buddy_count = Inr b'"
    by (simp add: buddy_coalesce.simps Let_def insert_buddy_def count_ops_def)
  then obtain b' where "buddy_coalesce count_ops 10 0x400000 buddy_count = Inr b'" ..
  with buddy_coalesce_start [of 10 count_ops "0x400000" buddy_count b'] show ?thesis by simp
qed

text \<open>
  The bitmaps of the orders overlap: \<open>alloc_buddy_maps\<close> divides the offsets, which count words
  already, by four again, so in the user allocator the word of the order 1 block at 1 MB is the word
  of the frames at 256 MB, and marking the block as used marks one of those frames.
\<close>

theorem buddy_bitmaps_overlap:
  assumes "bd_maps b = buddy_map_offset (0x40000000 - 0x100000)"
  shows "map_word 1 (addr_to_map_id 1 0x100000) b = map_word 0 (addr_to_map_id 0 0x10040000) b \<and>
    \<not> buddy_is_frame_free (bd_data (buddy_set_frame_used 1 0x100000 b)
           (map_word 0 (addr_to_map_id 0 0x10040000) b)) (fma_frame (addr_to_map_id 0 0x10040000))"
proof -
  have o: "bd_maps b 0 = 0" "bd_maps b 1 = 2046"
    unfolding assms by code_simp+
  have m: "addr_to_map_id 1 0x100000 = \<lparr>fma_map = 4, fma_frame = 0\<rparr>"
    "addr_to_map_id 0 0x10040000 = \<lparr>fma_map = 2050, fma_frame = 0\<rparr>"
    by code_simp+
  have w: "map_word 1 (addr_to_map_id 1 0x100000) b = map_word 0 (addr_to_map_id 0 0x10040000) b"
    by (simp add: map_word_def m [simplified] o [simplified])
  then show ?thesis
    unfolding w [symmetric]
    by (simp add: buddy_set_frame_used_def buddy_is_frame_free_def Let_def shl32_def m [simplified]
        bit.conj_disj_distrib2)
qed

theorem buddy_bitmaps_overlap_witness:
  "map_word 1 (addr_to_map_id 1 0x100000) (buddy_count\<lparr>bd_maps := buddy_map_offset 0x3FF00000\<rparr>) =
   map_word 0 (addr_to_map_id 0 0x10040000) (buddy_count\<lparr>bd_maps := buddy_map_offset 0x3FF00000\<rparr>)"
  using buddy_bitmaps_overlap [of "buddy_count\<lparr>bd_maps := buddy_map_offset 0x3FF00000\<rparr>"] by simp

end
