(* ===== verification/Buddy_Release.thy ===== *)
theory Buddy_Release
  imports Buddy_Blocks
begin

text \<open>
  Release of blocks in the buddy allocator, \<open>src/mem/buddy_frame_alloc.c\<close>: a block whose address is the start of
  the merged block is merged with its free right halves. The bitmaps are read as the set of their used positions,
  the lists as in \<open>Buddy_Blocks\<close>.
\<close>

section \<open>The bitmaps as a set of positions\<close>

definition used_bits :: "'w buddy_state \<Rightarrow> (nat \<times> nat) set" where
  "used_bits b = {(w, f). bit (bd_data b w) f}"

definition bit_pos :: "nat \<Rightarrow> u32 \<Rightarrow> 'w buddy_state \<Rightarrow> nat \<times> nat" where
  "bit_pos k a b = (map_word k (addr_to_map_id k a) b, unat a div (4096 * 2 ^ k) mod 32)"

text \<open>The position of the other half of the block of the next order.\<close>

definition buddy_pos :: "nat \<Rightarrow> u32 \<Rightarrow> 'w buddy_state \<Rightarrow> nat \<times> nat" where
  "buddy_pos k a b = (let (w, f) = bit_pos k a b in (w, if odd f then f - 1 else f + 1))"

lemma unat_map_size:
  assumes "k \<le> 10"
  shows "unat (PAGE_SIZE * MAP_SIZE * order_pages k) = 32 * (4096 * 2 ^ k)"
    and "unat (PAGE_SIZE * order_pages k) = 4096 * 2 ^ k"
    and "unat (order_pages k * PAGE_SIZE) = 4096 * 2 ^ k"
proof -
  have b: "(2 :: nat) ^ k \<le> 1024" using assms power_increasing [of k 10 "2 :: nat"] by simp
  have p: "unat (order_pages k) = 2 ^ k" using assms by (simp add: unat_order_pages)
  show "unat (PAGE_SIZE * MAP_SIZE * order_pages k) = 32 * (4096 * 2 ^ k)"
    using b by (simp add: unat_u32_mult p)
  show "unat (PAGE_SIZE * order_pages k) = 4096 * 2 ^ k" "unat (order_pages k * PAGE_SIZE) = 4096 * 2 ^ k"
    using b by (simp_all add: unat_u32_mult p)
qed

text \<open>
  The other halves of the blocks at \<open>a\<close> are not marked as used, and marking the blocks at \<open>a\<close> does not mark them:
  the bitmaps of the orders can overlap (\<open>buddy_bitmaps_overlap\<close>).
\<close>

definition halves_clear :: "u32 \<Rightarrow> 'w buddy_state \<Rightarrow> bool" where
  "halves_clear a b \<longleftrightarrow>
     (\<forall>i < 10. buddy_pos i a b \<notin> used_bits b \<and> (\<forall>j \<le> 10. bit_pos j a b \<noteq> buddy_pos i a b))"

lemma mod_mult_0: "(n :: nat) mod (p * q) = 0 \<Longrightarrow> n mod p = 0"
  by (metis dvd_mult_left mod_0_imp_dvd dvd_imp_mod_0)

lemma mod_div_swap: "(a :: nat) mod (S * 32) div S = a div S mod 32"
  by (cases "S = 0") (simp_all add: mod_mult2_eq)

lemma unat_map_id:
  assumes "k \<le> 10"
  shows "unat (fma_map (addr_to_map_id k a)) = unat a div (4096 * 2 ^ k) div 32"
    and "unat (fma_frame (addr_to_map_id k a)) = unat a div (4096 * 2 ^ k) mod 32"
proof -
  let ?S = "4096 * 2 ^ k :: nat"
  note s = unat_map_size [OF assms]
  have m: "unat (fma_map (addr_to_map_id k a)) = unat a div (32 * ?S)"
    using s(1) by (simp add: addr_to_map_id_def Let_def unat_u32_div)
  then show "unat (fma_map (addr_to_map_id k a)) = unat a div ?S div 32"
    by (simp add: div_mult2_eq [symmetric] mult.commute)
  let ?f = "fma_map (addr_to_map_id k a) * (PAGE_SIZE * MAP_SIZE * order_pages k)"
  have le: "unat a div (32 * ?S) * (32 * ?S) \<le> unat a" by simp
  have "unat (fma_map (addr_to_map_id k a)) * unat (PAGE_SIZE * MAP_SIZE * order_pages k) < 4294967296"
    unfolding m s(1) using le unat_u32_lt [of a] by linarith
  from unat_u32_mult [OF this] have fu: "unat ?f = unat a div (32 * ?S) * (32 * ?S)" unfolding m s(1) .
  have "unat (fma_frame (addr_to_map_id k a)) = (unat a - unat ?f) div ?S"
    using fu le s(3) by (simp add: addr_to_map_id_def Let_def unat_u32_div unat_u32_sub word_le_nat_alt)
  also have "unat a - unat ?f = unat a mod (?S * 32)" unfolding fu minus_div_mult_eq_mod by (simp only: mult.commute)
  also have "unat a mod (?S * 32) div ?S = unat a div ?S mod 32" by (rule mod_div_swap)
  finally show "unat (fma_frame (addr_to_map_id k a)) = unat a div ?S mod 32" .
qed

lemma used_bits_set:
  assumes "k \<le> 10"
  shows "used_bits (buddy_set_frame_used k a b) = insert (bit_pos k a b) (used_bits b)"
    and "used_bits (buddy_set_frame_unused k a b) = used_bits b - {bit_pos k a b}"
proof -
  note f = unat_map_id(2) [OF assms, of a]
  show "used_bits (buddy_set_frame_used k a b) = insert (bit_pos k a b) (used_bits b)"
    by (auto simp: used_bits_def buddy_set_frame_used_def bit_pos_def Let_def bit_or_iff bit_shl32_one f split: if_splits)
  show "used_bits (buddy_set_frame_unused k a b) = used_bits b - {bit_pos k a b}"
    by (auto simp: used_bits_def buddy_set_frame_unused_def bit_pos_def Let_def bit_and_iff bit_not_iff bit_shl32_one f
        dest: bit_u32_bound split: if_splits)
qed

lemma free_bit: "buddy_is_frame_free (bd_data b w) f \<longleftrightarrow> (w, unat f mod 32) \<notin> used_bits b"
  by (simp add: buddy_is_frame_free_def used_bits_def and_shl32_one_eq_0)

lemma buddy_set_frame_unused_lists [simp]:
  "bd_head (buddy_set_frame_unused k a b) = bd_head b" "bd_num (buddy_set_frame_unused k a b) = bd_num b"
  "bd_next (buddy_set_frame_unused k a b) = bd_next b" "bd_addr (buddy_set_frame_unused k a b) = bd_addr b"
  "bd_mem (buddy_set_frame_unused k a b) = bd_mem b" "bd_fl_slab (buddy_set_frame_unused k a b) = bd_fl_slab b"
  "bd_maps (buddy_set_frame_unused k a b) = bd_maps b"
  by (simp_all add: buddy_set_frame_unused_def Let_def)

lemma buddy_rep_unused [simp]: "buddy_rep live (buddy_set_frame_unused k a b) L = buddy_rep live b L"
proof -
  have "fl_chain (buddy_set_frame_unused k a b) n xs = fl_chain b n xs" for n xs by (rule fl_chain_cong) simp
  then show ?thesis by (simp add: buddy_rep_def)
qed

lemma free_pages_unused [simp]: "free_pages (buddy_set_frame_unused k a b) L = free_pages b L"
  by (simp add: free_pages_def)

lemma bit_pos_cong: "bd_maps b' = bd_maps b \<Longrightarrow> bit_pos k a b' = bit_pos k a b"
  by (simp add: bit_pos_def map_word_def)

lemma buddy_pos_cong: "bd_maps b' = bd_maps b \<Longrightarrow> buddy_pos k a b' = buddy_pos k a b"
  using bit_pos_cong [of b' b k a] by (simp add: buddy_pos_def)

lemma buddy_pos_frame:
  fixes a :: u32
  assumes "k \<le> 10"
  defines "m \<equiv> addr_to_map_id k a"
  shows "unat (if fma_frame m mod 2 \<noteq> 0 then fma_frame m - 1 else fma_frame m + 1) mod 32 = snd (buddy_pos k a b)"
    and "fst (buddy_pos k a b) = map_word k m b"
proof -
  let ?f = "unat a div (4096 * 2 ^ k) mod 32"
  have f: "unat (fma_frame m) = ?f" using unat_map_id(2) [OF assms(1), of a] by (simp add: m_def)
  have "unat (fma_frame m mod 2) = ?f mod 2" by (simp add: unat_u32_mod f)
  then have o: "fma_frame m mod 2 \<noteq> 0 \<longleftrightarrow> odd ?f" by (metis odd_iff_mod_2_eq_one even_iff_mod_2_eq_zero unat_0 unat_eq_zero)
  have lt: "?f < 32" by simp
  show "unat (if fma_frame m mod 2 \<noteq> 0 then fma_frame m - 1 else fma_frame m + 1) mod 32 = snd (buddy_pos k a b)"
  proof (cases "odd ?f")
    case True
    then have "0 < ?f" by (rule odd_pos)
    then have "unat (fma_frame m - 1) = ?f - 1" by (subst unat_u32_sub) (simp_all add: word_le_nat_alt f)
    then show ?thesis using o True lt by (simp add: buddy_pos_def bit_pos_def Let_def)
  next
    case False
    have "f + 1 < 32" if "even f" "f < 32" for f :: nat using that by presburger
    then have "?f + 1 < 32" using False lt by simp
    moreover have "unat (fma_frame m + 1) = ?f + 1" by (subst unat_u32_add) (simp_all add: f)
    ultimately show ?thesis using o False by (simp add: buddy_pos_def bit_pos_def Let_def)
  qed
  show "fst (buddy_pos k a b) = map_word k m b" by (simp add: buddy_pos_def bit_pos_def Let_def m_def)
qed

section \<open>Left halves\<close>

lemma unat_right_half:
  assumes "k < 10" and "unat a + 4096 * 2 ^ k < 4294967296"
  shows "unat (right_half a k) = unat a + 4096 * 2 ^ k"
proof -
  have "unat (PAGE_SIZE * order_pages (Suc k)) = 4096 * 2 ^ Suc k" using assms(1) by (intro unat_map_size(2)) simp
  then have "unat (PAGE_SIZE * order_pages (Suc k) div 2) = 4096 * 2 ^ k" by (simp add: unat_u32_div)
  then show ?thesis unfolding right_half_def using assms(2) by (subst unat_u32_add) simp_all
qed

text \<open>At a multiple of the size of order \<open>Suc k\<close> the block of order \<open>k\<close> is a left half, and its buddy the right one.\<close>

lemma left_half:
  assumes "k < 10" and "unat a mod (4096 * 2 ^ Suc k) = 0" and "unat a + 4096 * 2 ^ Suc k \<le> 4294967296"
  shows "fma_frame (addr_to_map_id k a) mod 2 = 0"
    and "map_to_addr k ((addr_to_map_id k a)\<lparr>fma_frame := fma_frame (addr_to_map_id k a) + 1\<rparr>) = right_half a k"
    and "unat (right_half a k) = unat a + 4096 * 2 ^ k"
proof -
  let ?m = "addr_to_map_id k a" and ?S = "4096 * 2 ^ k :: nat"
  define q where "q = unat a div ?S"
  have k: "k \<le> 10" using assms(1) by simp
  obtain d where d: "unat a = 2 * ?S * d" using assms(2) by (auto simp: mult.commute mod_eq_0_iff_dvd)
  have q: "q = 2 * d" "unat a = q * ?S" by (simp_all add: q_def d)
  have f: "unat (fma_frame ?m) = q mod 32" "unat (fma_map ?m) = q div 32"
    using unat_map_id [OF k, of a] by (simp_all add: q_def)
  have ev: "q mod 32 mod 2 = 0" unfolding q(1) by (simp add: mod_mod_cancel)
  then have "unat (fma_frame ?m mod 2) = 0" by (simp add: unat_u32_mod f(1))
  then show "fma_frame ?m mod 2 = 0" by (simp add: unat_eq_zero)
  have lt: "q mod 32 + 1 < 32" using ev by presburger
  then have f1: "unat (fma_frame ?m + 1) = q mod 32 + 1" by (subst unat_u32_add) (simp_all add: f(1))
  have S: "?S \<le> 4194304" using assms(1) power_increasing [of k 10 "2 :: nat"] by simp
  have "0 < ?S" "q * ?S + 2 * ?S \<le> 4294967296" using assms(3) q(2) by simp_all
  then have lim: "q * ?S + ?S < 4294967296" by linarith
  show rh: "unat (right_half a k) = unat a + ?S" using lim q(2) by (intro unat_right_half [OF assms(1)]) simp
  have "unat (map_to_addr k (?m\<lparr>fma_frame := fma_frame ?m + 1\<rparr>)) = q div 32 * (32 * ?S) + (q mod 32 + 1) * ?S"
  proof -
    have e: "map_to_addr k (?m\<lparr>fma_frame := fma_frame ?m + 1\<rparr>) =
        fma_map ?m * (PAGE_SIZE * MAP_SIZE * order_pages k) + (fma_frame ?m + 1) * (PAGE_SIZE * order_pages k)"
      by (simp add: map_to_addr_def algebra_simps)
    have s: "q div 32 * (32 * ?S) + (q mod 32 + 1) * ?S = q * ?S + ?S"
    proof -
      have "q div 32 * (32 * ?S) + (q mod 32 + 1) * ?S = (q div 32 * 32 + q mod 32) * ?S + ?S"
        by (simp only: algebra_simps)
      then show ?thesis by simp
    qed
    have l: "q div 32 * (32 * ?S) < 4294967296" "(q mod 32 + 1) * ?S < 4294967296" using s lim by linarith+
    have "unat (fma_map ?m * (PAGE_SIZE * MAP_SIZE * order_pages k)) = q div 32 * (32 * ?S)"
      using unat_u32_mult [of "fma_map ?m" "PAGE_SIZE * MAP_SIZE * order_pages k"] l(1)
      unfolding f(2) unat_map_size(1) [OF k] by simp
    moreover have "unat ((fma_frame ?m + 1) * (PAGE_SIZE * order_pages k)) = (q mod 32 + 1) * ?S"
      using unat_u32_mult [of "fma_frame ?m + 1" "PAGE_SIZE * order_pages k"] l(2)
      unfolding f1 unat_map_size(2) [OF k] by simp
    ultimately show ?thesis unfolding e using s lim by (subst unat_u32_add) simp_all
  qed
  also have "\<dots> = q * ?S + ?S"
  proof -
    have "q div 32 * (32 * ?S) + (q mod 32 + 1) * ?S = (q div 32 * 32 + q mod 32) * ?S + ?S"
      by (simp only: algebra_simps)
    then show ?thesis by simp
  qed
  finally show "map_to_addr k (?m\<lparr>fma_frame := fma_frame ?m + 1\<rparr>) = right_half a k"
    using rh q(2) by (simp add: word_eq_iff_unsigned [where ?'a = nat])
qed

text \<open>At an odd multiple of its size the block is a right half, and its buddy lies before it.\<close>

lemma right_half_id:
  assumes "k \<le> 10" and "odd (unat a div (4096 * 2 ^ k))" and "unat a mod (4096 * 2 ^ k) = 0"
  shows "fma_frame (addr_to_map_id k a) mod 2 \<noteq> 0"
    and "unat (map_to_addr k ((addr_to_map_id k a)\<lparr>fma_frame := fma_frame (addr_to_map_id k a) - 1\<rparr>)) = unat a - 4096 * 2 ^ k"
    and "4096 * 2 ^ k \<le> unat a"
proof -
  let ?m = "addr_to_map_id k a" and ?S = "4096 * 2 ^ k :: nat"
  define q where "q = unat a div ?S"
  have q: "unat a = q * ?S" "odd q" "0 < q"
    using assms(2,3) mult_div_mod_eq [of ?S "unat a"] odd_pos by (auto simp: q_def mult.commute)
  have f: "unat (fma_frame ?m) = q mod 32" "unat (fma_map ?m) = q div 32"
    using unat_map_id [OF assms(1), of a] by (simp_all add: q_def)
  have od: "q mod 32 mod 2 = 1" using q(2) by (simp add: mod_mod_cancel odd_iff_mod_2_eq_one)
  then have "unat (fma_frame ?m mod 2) = 1" by (simp add: unat_u32_mod f(1))
  then show "fma_frame ?m mod 2 \<noteq> 0" by (metis unat_0 zero_neq_one)
  have pos: "0 < q mod 32" using od by (cases "q mod 32 = 0") simp_all
  then have f1: "unat (fma_frame ?m - 1) = q mod 32 - 1" by (subst unat_u32_sub) (simp_all add: word_le_nat_alt f(1))
  show "?S \<le> unat a" using q(1,3) by simp
  have s: "q div 32 * (32 * ?S) + (q mod 32 - 1) * ?S = unat a - ?S"
  proof -
    have "q div 32 * (32 * ?S) + (q mod 32 - 1) * ?S + ?S = (q div 32 * 32 + q mod 32) * ?S"
      using pos by (cases "q mod 32") (simp_all add: algebra_simps)
    then show ?thesis using q(1) by simp
  qed
  have lim: "unat a - ?S < 4294967296" using unat_u32_lt [of a] by linarith
  have l: "q div 32 * (32 * ?S) < 4294967296" "(q mod 32 - 1) * ?S < 4294967296" using s lim by linarith+
  have e: "map_to_addr k (?m\<lparr>fma_frame := fma_frame ?m - 1\<rparr>) =
      fma_map ?m * (PAGE_SIZE * MAP_SIZE * order_pages k) + (fma_frame ?m - 1) * (PAGE_SIZE * order_pages k)"
    by (simp add: map_to_addr_def algebra_simps)
  have "unat (fma_map ?m * (PAGE_SIZE * MAP_SIZE * order_pages k)) = q div 32 * (32 * ?S)"
    using unat_u32_mult [of "fma_map ?m" "PAGE_SIZE * MAP_SIZE * order_pages k"] l(1)
    unfolding f(2) unat_map_size(1) [OF assms(1)] by simp
  moreover have "unat ((fma_frame ?m - 1) * (PAGE_SIZE * order_pages k)) = (q mod 32 - 1) * ?S"
    using unat_u32_mult [of "fma_frame ?m - 1" "PAGE_SIZE * order_pages k"] l(2)
    unfolding f1 unat_map_size(2) [OF assms(1)] by simp
  ultimately show "unat (map_to_addr k (?m\<lparr>fma_frame := fma_frame ?m - 1\<rparr>)) = unat a - ?S"
    unfolding e using s lim by (subst unat_u32_add) simp_all
qed

section \<open>Splitting and the bitmaps\<close>

lemma insert_buddy_maps:
  assumes "insert_buddy ops fl k a b = Inr (r, b')"
  shows "bd_data b' = bd_data b \<and> bd_maps b' = bd_maps b"
proof (cases fl)
  case (Some i)
  with assms obtain n w where "mo_slab_alloc ops (bd_fl_slab b) (bd_mem b) = Inr (n, w)"
    by (auto simp: insert_buddy_def Let_def bindE_Inr_iff)
  then show ?thesis using assms Some by (cases "n = 0") (auto simp: insert_buddy_def Let_def)
qed (use assms in \<open>simp add: insert_buddy_def\<close>)

text \<open>Splitting marks the left halves of all orders down to the target.\<close>

lemma slice_bits:
  assumes "buddy_slice ops a s target b = Inr (0, r, b')" and "s \<le> 10" and "target < s"
  shows "bd_maps b' = bd_maps b \<and> used_bits b' = used_bits b \<union> (\<lambda>j. bit_pos j a b) ` {target..s}"
  using assms
proof (induction s arbitrary: b)
  case (Suc s)
  let ?b1 = "buddy_set_frame_used (Suc s) a b"
  have m1: "bd_maps ?b1 = bd_maps b" by (simp add: buddy_set_frame_used_def Let_def)
  obtain ret b2 where i: "insert_buddy ops (Some s) s (a + PAGE_SIZE * order_pages (Suc s) div 2) ?b1 = Inr (ret, b2)" "ret = 0"
    "(if s > target then buddy_slice ops a s target b2 else Inr (0, a, buddy_set_frame_used target a b2)) = Inr (0, r, b')"
    using Suc.prems(1) by (auto simp: bindE_Inr_iff Let_def split: if_splits)
  note d = insert_buddy_maps [OF i(1)]
  have bp: "bit_pos j a b2 = bit_pos j a b" for j using d m1 by (intro bit_pos_cong) simp
  have u2: "used_bits b2 = insert (bit_pos (Suc s) a b) (used_bits b)"
    using d used_bits_set(1) [OF Suc.prems(2), of a b] by (simp add: used_bits_def)
  show ?case
  proof (cases "target < s")
    case True
    then have "bd_maps b' = bd_maps b2 \<and> used_bits b' = used_bits b2 \<union> (\<lambda>j. bit_pos j a b2) ` {target..s}"
      using Suc.IH [of b2] i(3) Suc.prems(2) by simp
    moreover have "{target..Suc s} = insert (Suc s) {target..s}" using Suc.prems(3) by auto
    ultimately show ?thesis using d m1 u2 bp by auto
  next
    case False
    then have ts: "target = s" using Suc.prems(3) by simp
    have t: "target = s" "b' = buddy_set_frame_used s a b2" using i(3) by (auto simp: ts)
    have "s \<le> 10" using Suc.prems(2) by simp
    then have "used_bits b' = insert (bit_pos s a b) (used_bits b2)" using used_bits_set(1) [of s a b2] by (simp add: t bp)
    moreover have "bd_maps b' = bd_maps b2" by (simp add: t buddy_set_frame_used_def Let_def)
    moreover have "{s..Suc s} = {s, Suc s}" by auto
    ultimately show ?thesis using d m1 u2 t(1) by auto
  qed
qed simp

section \<open>Taking a block out of a list\<close>

text \<open>The lists are short, so the 32-bit counters of their blocks do not wrap.\<close>

lemma rep_num:
  assumes "buddy_rep live b L" and "k \<le> 10" and "x \<in> set (L k)"
  shows "bd_num b k \<noteq> 0"
proof -
  have S: "blocks_sep (bd_addr b) (blocks L)" and l: "bd_num b k = word_of_nat (length (L k))" "distinct (L k)"
    using assms(1,2) by (auto simp: buddy_rep_def)
  let ?p = "\<lambda>y. unat (bd_addr b y) div 4096"
  have B: "(k, y) \<in> blocks L" if "y \<in> set (L k)" for y using that assms(2) by (simp add: blocks_def)
  have "inj_on ?p (set (L k))"
  proof (rule inj_onI, rule ccontr)
    fix y z assume yz: "y \<in> set (L k)" "z \<in> set (L k)" "?p y = ?p z" "y \<noteq> z"
    then have "run_pages (bd_addr b y) k \<inter> run_pages (bd_addr b z) k = {}" using blocks_sepD(2) [OF S B B, of y z] by blast
    then show False using yz(3) by (auto simp: run_pages_def)
  qed
  moreover have "?p ` set (L k) \<subseteq> {..<1048576}"
  proof (rule image_subsetI)
    fix y
    show "?p y \<in> {..<1048576}" using unat_u32_lt [of "bd_addr b y"] by auto
  qed
  ultimately have "card (set (L k)) \<le> 1048576" using card_inj_on_le [of ?p "set (L k)" "{..<1048576}"] by simp
  then have "length (L k) < 4294967296" using distinct_card [OF l(2)] by simp
  moreover have "length (L k) \<noteq> 0" using assms(3) by auto
  ultimately show ?thesis using l(1) unat_u32_of_nat [of "length (L k)"] by (metis unat_0)
qed

text \<open>The walk finds the block that holds the address, and its predecessor.\<close>

lemma find_free_node_chain:
  assumes "fl_chain b n (xs @ x # ys)"
    and "\<forall>y \<in> set xs. \<not> (bd_addr b y + PAGE_SIZE * order_pages k > a \<and> bd_addr b y \<le> a)"
    and "bd_addr b x + PAGE_SIZE * order_pages k > a" and "bd_addr b x \<le> a"
  shows "find_free_node k a prv n b = Some (if xs = [] then prv else Some (last xs), x)"
  using assms(1,2)
proof (induction xs arbitrary: n prv)
  case Nil
  then have "n = x" "x \<noteq> 0" by auto
  then show ?case using assms(3,4) by (simp add: find_free_node.simps)
next
  case (Cons y xs)
  then have y: "n = y" "y \<noteq> 0" "fl_chain b (bd_next b y) (xs @ x # ys)"
    "\<not> (bd_addr b y + PAGE_SIZE * order_pages k > a \<and> bd_addr b y \<le> a)" by auto
  have "find_free_node k a (Some y) (bd_next b y) b = Some (if xs = [] then Some y else Some (last xs), x)"
    using Cons.IH [OF y(3)] Cons.prems(2) by simp
  then show ?case using y(1,2,4) by (subst find_free_node.simps) auto
qed

lemma find_free_node_none:
  assumes "fl_chain b n xs" and "\<forall>y \<in> set xs. \<not> (bd_addr b y + PAGE_SIZE * order_pages k > a \<and> bd_addr b y \<le> a)"
  shows "\<exists>p. find_free_node k a prv n b = Some (p, 0)"
  using assms
proof (induction xs arbitrary: n prv)
  case Nil
  then show ?case by (simp add: find_free_node.simps)
next
  case (Cons y xs)
  then have y: "n = y" "y \<noteq> 0" "fl_chain b (bd_next b y) xs"
    "\<not> (bd_addr b y + PAGE_SIZE * order_pages k > a \<and> bd_addr b y \<le> a)" by auto
  from Cons.IH [OF y(3), of "Some y"] Cons.prems(2)
  obtain p where "find_free_node k a (Some y) (bd_next b y) b = Some (p, 0)" by auto
  then show ?case using y(1,2,4) by (subst find_free_node.simps) auto
qed

lemma fl_chain_remove:
  assumes "fl_chain b n (xs @ x # ys)" and "distinct (xs @ x # ys)" and "xs \<noteq> []"
  shows "fl_chain (b\<lparr>bd_next := (bd_next b)(last xs := bd_next b x)\<rparr>) n (xs @ ys)"
  using assms
proof (induction xs arbitrary: n)
  case (Cons y xs)
  let ?b = "\<lambda>p. b\<lparr>bd_next := (bd_next b)(p := bd_next b x)\<rparr>"
  show ?case
  proof (cases "xs = []")
    case True
    then have y: "n = y" "y \<noteq> 0" "bd_next b y = x" "fl_chain b (bd_next b x) ys" "y \<notin> set ys"
      using Cons.prems by auto
    have "fl_chain (?b y) (bd_next b x) ys = fl_chain b (bd_next b x) ys" using y(5) by (intro fl_chain_cong) auto
    then show ?thesis using y True by (simp add: fun_upd_def)
  next
    case False
    then have "fl_chain (?b (last xs)) (bd_next b y) (xs @ ys)" using Cons.prems by (intro Cons.IH) auto
    moreover have "last xs \<noteq> y" using False Cons.prems(2) last_in_set [OF False] by auto
    ultimately show ?thesis using Cons.prems(1) False by (simp add: fun_upd_def)
  qed
qed simp

lemma unat_u32_add_le: "unat (a + b :: u32) \<le> unat a + unat b"
  using unat_u32_add [of a b] unat_u32_lt [of "a + b"] by (cases "unat a + unat b < 4294967296") auto

text \<open>No block in front of a block of its list holds the address of that block.\<close>

lemma holds_own_addr:
  assumes rep: "buddy_rep live b L" and k: "k \<le> 10" and x: "x \<in> set (L k)" and y: "y \<in> set (L k)" "y \<noteq> x"
  shows "\<not> (bd_addr b y + PAGE_SIZE * order_pages k > bd_addr b x \<and> bd_addr b y \<le> bd_addr b x)"
proof
  assume h: "bd_addr b y + PAGE_SIZE * order_pages k > bd_addr b x \<and> bd_addr b y \<le> bd_addr b x"
  let ?S = "4096 * 2 ^ k :: nat"
  have B: "(k, x) \<in> blocks L" "(k, y) \<in> blocks L" using k x y(1) by (simp_all add: blocks_def)
  have ok: "block_ok (bd_addr b y) k" "run_pages (bd_addr b x) k \<inter> run_pages (bd_addr b y) k = {}"
    using rep B y(2) blocks_sepD [of "bd_addr b" "blocks L"] unfolding buddy_rep_def by metis+
  have le: "unat (bd_addr b y) \<le> unat (bd_addr b x)" using h by (simp add: word_le_nat_alt)
  have lt: "unat (bd_addr b x) < unat (bd_addr b y + PAGE_SIZE * order_pages k)" using h by (simp add: word_less_nat_alt)
  have "unat (bd_addr b x) < unat (bd_addr b y) + ?S"
    using lt unat_u32_add_le [of "bd_addr b y" "PAGE_SIZE * order_pages k"] unat_map_size(2) [OF k] by linarith
  then have "unat (bd_addr b x) div 4096 < (unat (bd_addr b y) + 2 ^ k * 4096) div 4096"
    using ok(1) by (auto simp: block_ok_def)
  then have "unat (bd_addr b x) div 4096 \<in> run_pages (bd_addr b y) k"
    using div_le_mono [OF le, of 4096] by (simp add: run_pages_def)
  moreover have "unat (bd_addr b x) div 4096 \<in> run_pages (bd_addr b x) k" by (simp add: run_pages_def)
  ultimately show False using ok(2) by blast
qed

context buddy_nodes
begin

lemma remove_block:
  assumes rep: "buddy_rep live b L" and c: "bd_fl_slab b = c" and k: "k \<le> 10" and x: "x \<in> set (L k)"
    and n0: "bd_num b k \<noteq> 0" and lim: "unat (bd_addr b x) + 4096 * 2 ^ k < 4294967296"
  shows "\<exists>b' xs. remove_free_frame ops k (bd_addr b x) b = Inr b' \<and> buddy_rep live b' (L(k := xs)) \<and>
    set xs = set (L k) - {x} \<and> Suc (length xs) = length (L k) \<and> bd_fl_slab b' = c \<and> bd_addr b' = bd_addr b \<and> bd_maps b' = bd_maps b \<and>
    bd_data b' = bd_data b \<and> room (bd_mem b') = room (bd_mem b) \<and>
    free_pages b' (L(k := xs)) = free_pages b L - run_pages (bd_addr b x) k \<and>
    run_pages (bd_addr b x) k \<subseteq> free_pages b L"
proof -
  note r = rep [unfolded buddy_rep_def]
  have k': "k < 11" using k by simp
  have lists: "fl_chain b (bd_head b j) (L j)" "distinct (L j)" if "j < 11" for j using r that by blast+
  obtain xs ys where L: "L k = xs @ x # ys" using split_list [OF x] by blast
  have d: "distinct (xs @ x # ys)" using lists(2) [OF k'] L by simp
  have nh: "\<forall>y \<in> set xs. \<not> (bd_addr b y + PAGE_SIZE * order_pages k > bd_addr b x \<and> bd_addr b y \<le> bd_addr b x)"
    using holds_own_addr [OF rep k x] d L by auto
  have "unat (bd_addr b x + PAGE_SIZE * order_pages k) = unat (bd_addr b x) + 4096 * 2 ^ k"
    using unat_u32_add [of "bd_addr b x" "PAGE_SIZE * order_pages k"] lim unat_map_size(2) [OF k] by simp
  then have "bd_addr b x + PAGE_SIZE * order_pages k > bd_addr b x" by (simp add: word_less_nat_alt)
  from find_free_node_chain [OF lists(1) [OF k', unfolded L] nh this order.refl, of None]
  have find: "find_free_node k (bd_addr b x) None (bd_head b k) b = Some (if xs = [] then None else Some (last xs), x)" .
  have xb: "x \<in> snd ` blocks L" using k' x by (force simp: blocks_def)
  from release_live [of "snd ` blocks L" "bd_mem b" x] r xb obtain w where
    f: "mo_slab_free ops c x (bd_mem b) = Inr w" "live (snd ` blocks L - {x}) w" "room w = room (bd_mem b)" by auto
  have x0: "x \<noteq> 0" using fl_chain_nonzero [OF lists(1) [OF k']] x by metis
  define b1 where "b1 = b\<lparr>bd_mem := w, bd_num := (bd_num b)(k := bd_num b k - 1)\<rparr>"
  define b' where "b' = (if xs = [] then b1\<lparr>bd_head := (bd_head b)(k := bd_next b x)\<rparr>
    else b1\<lparr>bd_next := (bd_next b)(last xs := bd_next b x)\<rparr>)"
  have rm: "remove_free_frame ops k (bd_addr b x) b = Inr b'"
    using n0 find f(1) c x0 by (simp add: remove_free_frame_def b'_def b1_def Let_def)
  have other: "fl_chain b' (bd_head b' j) (L j)" if "j < 11" "j \<noteq> k" for j
  proof -
    have "last xs \<notin> set (L j)" if "xs \<noteq> []"
    proof
      assume "last xs \<in> set (L j)"
      then have "(j, last xs) \<in> blocks L" "(k, last xs) \<in> blocks L"
        using \<open>j < 11\<close> k' L last_in_set [OF that] by (simp_all add: blocks_def)
      then show False using r \<open>j \<noteq> k\<close> blocks_sepD(2) [of "bd_addr b" "blocks L"] by metis
    qed
    then have "fl_chain b' (bd_head b j) (L j) = fl_chain b (bd_head b j) (L j)"
      by (intro fl_chain_cong) (auto simp: b'_def b1_def)
    moreover have "bd_head b' j = bd_head b j" using that(2) by (simp add: b'_def b1_def)
    ultimately show ?thesis using lists(1) [OF that(1)] by simp
  qed
  have own: "fl_chain b' (bd_head b' k) (xs @ ys)"
  proof (cases "xs = []")
    case True
    have "fl_chain b' (bd_next b x) ys = fl_chain b (bd_next b x) ys"
      by (rule fl_chain_cong) (simp add: b'_def b1_def True)
    then show ?thesis using lists(1) [OF k'] L True by (simp add: b'_def b1_def)
  next
    case False
    let ?c = "b\<lparr>bd_next := (bd_next b)(last xs := bd_next b x)\<rparr>"
    have "fl_chain b' (bd_head b k) (xs @ ys) = fl_chain ?c (bd_head b k) (xs @ ys)"
      by (rule fl_chain_cong) (simp add: b'_def b1_def False)
    then show ?thesis using fl_chain_remove [OF lists(1) [OF k', unfolded L] d False] False by (simp add: b'_def b1_def)
  qed
  have "live (snd ` blocks L - {x}) (bd_mem b')" "bd_addr b' = bd_addr b" "bd_num b' = (bd_num b)(k := bd_num b k - 1)"
    "\<forall>j < 11. fl_chain b' (bd_head b' j) ((L(k := xs @ ys)) j)"
    using f(2) own other by (auto simp: b'_def b1_def)
  note drop = rep_drop [OF rep k' L this(1,2,4,3)]
  show ?thesis using rm drop c f(3) d L
    by (intro exI [of _ b'] exI [of _ "xs @ ys"]) (auto simp: b'_def b1_def)
qed


text \<open>
  The release of a block at the start of an aligned block of order \<open>m\<close> all of whose right halves are free: the halves
  are taken out of their lists, and the rest is the release of the block of order \<open>m\<close>.
\<close>

lemma coalesce_up:
  assumes "buddy_rep live b L" and "bd_fl_slab b = c" and "k \<le> m" and "m \<le> 10"
    and "unat a mod (4096 * 2 ^ m) = 0" and "unat a + 4096 * 2 ^ m < 4294967296" and "run_pages a k \<inter> free_pages b L = {}"
    and "\<forall>j. k \<le> j \<and> j < m \<longrightarrow> (\<exists>x \<in> set (L j). bd_addr b x = right_half a j) \<and> buddy_pos j a b \<notin> used_bits b"
  shows "\<exists>b' L'. buddy_coalesce ops k a b = buddy_coalesce ops m a b' \<and> buddy_rep live b' L' \<and> bd_fl_slab b' = c \<and>
    free_pages b' L' \<union> run_pages a m = free_pages b L \<union> run_pages a k \<and> run_pages a m \<inter> free_pages b' L' = {} \<and>
    (\<forall>j. k \<le> j \<and> j < m \<longrightarrow> Suc (length (L' j)) = length (L j)) \<and> (\<forall>j. j < k \<or> m \<le> j \<longrightarrow> L' j = L j) \<and>
    bd_addr b' = bd_addr b \<and> bd_maps b' = bd_maps b \<and> room (bd_mem b') = room (bd_mem b) \<and>
    used_bits b' = used_bits b - (\<lambda>j. bit_pos j a b) ` {k..<m}"
  using assms
proof (induction "m - k" arbitrary: k b L)
  case 0
  then have "k = m" by simp
  with 0 show ?case by (intro exI [of _ b] exI [of _ L]) auto
next
  case (Suc d)
  then have k: "k < m" "k \<le> 10" "k < 10" "k < 11" "Suc k \<le> m" "d = m - Suc k" by simp_all
  let ?b1 = "buddy_set_frame_unused k a b" and ?m = "addr_to_map_id k a"
  have d: "4096 * 2 ^ m = 4096 * 2 ^ Suc k * (2 :: nat) ^ d" using k(6,1) by (simp add: power_add [symmetric] flip: power_Suc)
  have al: "unat a mod (4096 * 2 ^ Suc k) = 0" using Suc.prems(5) unfolding d by (simp add: mod_mult2_eq)
  have lt: "unat a + 4096 * 2 ^ Suc k < 4294967296"
    using Suc.prems(6) power_increasing [of "Suc k" m "2 :: nat"] k(5) by simp
  then have le: "unat a + 4096 * 2 ^ Suc k \<le> 4294967296" by simp
  note lh = left_half [OF k(3) al le]
  obtain x where x: "x \<in> set (L k)" "bd_addr b x = right_half a k" and fr: "buddy_pos k a b \<notin> used_bits b"
    using Suc.prems(8) k(1) by blast
  have "unat (bd_addr ?b1 x) + 4096 * 2 ^ k < 4294967296" using lt lh(3) x(2) by simp
  from remove_block [of ?b1 L k x, OF _ _ k(2) x(1) _ this] obtain b2 xs where
    r: "remove_free_frame ops k (right_half a k) ?b1 = Inr b2" "buddy_rep live b2 (L(k := xs))" "Suc (length xs) = length (L k)"
      "bd_fl_slab b2 = c" "bd_addr b2 = bd_addr b" "bd_maps b2 = bd_maps b" "bd_data b2 = bd_data ?b1"
      "room (bd_mem b2) = room (bd_mem b)" "free_pages b2 (L(k := xs)) = free_pages b L - run_pages (right_half a k) k"
      "run_pages (right_half a k) k \<subseteq> free_pages b L"
    using Suc.prems(1,2) rep_num [OF Suc.prems(1) k(2) x(1)] x(2) by auto
  have ub: "used_bits b2 = used_bits b - {bit_pos k a b}"
    using used_bits_set(2) [OF k(2), of a b] r(7) by (simp add: used_bits_def)
  have bp: "buddy_pos j a b2 = buddy_pos j a b" "bit_pos j a b2 = bit_pos j a b" for j
    using buddy_pos_cong [OF r(6)] bit_pos_cong [OF r(6)] by auto
  have ok: "block_ok a (Suc k)" using mod_mult_0 [OF al] le by (simp add: block_ok_def)
  note sp = run_pages_split [OF ok k(4), folded right_half_def]
  have "buddy_is_frame_free (bd_data ?b1 (map_word k ?m ?b1)) (fma_frame ?m + 1)"
  proof -
    note p = buddy_pos_frame [OF k(2), of a ?b1]
    have "buddy_pos k a ?b1 = buddy_pos k a b" by (rule buddy_pos_cong) simp
    moreover have "buddy_pos k a ?b1 = (map_word k ?m ?b1, unat (fma_frame ?m + 1) mod 32)"
      using p lh(1) by (simp add: prod_eq_iff)
    ultimately have "(map_word k ?m ?b1, unat (fma_frame ?m + 1) mod 32) \<notin> used_bits ?b1"
      using fr by (simp add: used_bits_set(2) [OF k(2)])
    then show ?thesis by (simp add: free_bit)
  qed
  then have step: "buddy_coalesce ops k a b = buddy_coalesce ops (Suc k) a b2"
    using r(1) k(3) lh(1,2) by (subst buddy_coalesce.simps) (simp add: Let_def)
  have dis: "run_pages a (Suc k) \<inter> free_pages b2 (L(k := xs)) = {}" using Suc.prems(7) sp(1) r(9) by auto
  have "\<forall>j. Suc k \<le> j \<and> j < m \<longrightarrow> (\<exists>x\<in>set ((L(k := xs)) j). bd_addr b2 x = right_half a j) \<and> buddy_pos j a b2 \<notin> used_bits b2"
    using Suc.prems(8) r(5) ub bp by auto
  from Suc.hyps(1) [OF k(6) r(2,4) k(5) Suc.prems(4-6) dis this] obtain b' L' where
    h: "buddy_coalesce ops (Suc k) a b2 = buddy_coalesce ops m a b'" "buddy_rep live b' L'" "bd_fl_slab b' = c"
    "free_pages b' L' \<union> run_pages a m = free_pages b2 (L(k := xs)) \<union> run_pages a (Suc k)" "run_pages a m \<inter> free_pages b' L' = {}"
    "\<forall>j. Suc k \<le> j \<and> j < m \<longrightarrow> Suc (length (L' j)) = length ((L(k := xs)) j)"
    "\<forall>j. j < Suc k \<or> m \<le> j \<longrightarrow> L' j = (L(k := xs)) j" "bd_addr b' = bd_addr b2" "bd_maps b' = bd_maps b2"
    "room (bd_mem b') = room (bd_mem b2)" "used_bits b' = used_bits b2 - (\<lambda>j. bit_pos j a b2) ` {Suc k..<m}" 
    by (elim exE conjE) (rule that, assumption+)
  have "free_pages b' L' \<union> run_pages a m = free_pages b L \<union> run_pages a k" using h(4) r(9,10) sp(1) by auto
  moreover have "\<forall>j. k \<le> j \<and> j < m \<longrightarrow> Suc (length (L' j)) = length (L j)"
  proof (intro allI impI)
    fix j assume "k \<le> j \<and> j < m"
    then show "Suc (length (L' j)) = length (L j)" using h(6,7) r(3) by (cases "j = k") auto
  qed
  moreover have "\<forall>j. j < k \<or> m \<le> j \<longrightarrow> L' j = L j" using h(7) k(1) by auto
  moreover have "{k..<m} = insert k {Suc k..<m}" using k(1) by auto
  then have "used_bits b' = used_bits b - (\<lambda>j. bit_pos j a b) ` {k..<m}" unfolding h(11) ub bp by auto
  moreover have "buddy_coalesce ops k a b = buddy_coalesce ops m a b'" "bd_addr b' = bd_addr b" "bd_maps b' = bd_maps b"
    "room (bd_mem b') = room (bd_mem b)" using step h(1,8-10) r(5,6,8) by simp_all
  ultimately show ?case using h(2,3,5) by (intro exI [of _ b'] exI [of _ L'] conjI)
qed

text \<open>The block that results goes into the list of order \<open>m\<close> when its other half is in use or there is none.\<close>

lemma coalesce_left:
  assumes "buddy_rep live b L" and "bd_fl_slab b = c" and "k \<le> m" and "m \<le> 10" and "cost \<le> room (bd_mem b)"
    and "unat a mod (4096 * 2 ^ m) = 0" and "unat a + 4096 * 2 ^ m < 4294967296" and "run_pages a k \<inter> free_pages b L = {}"
    and "\<forall>j. k \<le> j \<and> j < m \<longrightarrow> (\<exists>x \<in> set (L j). bd_addr b x = right_half a j) \<and> buddy_pos j a b \<notin> used_bits b"
    and "m = 10 \<or> buddy_pos m a b \<in> used_bits b - (\<lambda>j. bit_pos j a b) ` {k..m}"
  shows "\<exists>b' L'. buddy_coalesce ops k a b = Inr b' \<and> buddy_rep live b' L' \<and> bd_fl_slab b' = c \<and>
    free_pages b' L' = free_pages b L \<union> run_pages a k \<and> (\<exists>n. L' m = n # L m \<and> bd_addr b' n = a) \<and>
    (\<forall>j. k \<le> j \<and> j < m \<longrightarrow> Suc (length (L' j)) = length (L j)) \<and> (\<forall>j. j < k \<or> m < j \<longrightarrow> L' j = L j)"
proof -
  from coalesce_up [OF assms(1-4,6-9)] obtain b1 L1 where
    u: "buddy_coalesce ops k a b = buddy_coalesce ops m a b1" "buddy_rep live b1 L1" "bd_fl_slab b1 = c"
      "free_pages b1 L1 \<union> run_pages a m = free_pages b L \<union> run_pages a k" "run_pages a m \<inter> free_pages b1 L1 = {}"
      "\<forall>j. k \<le> j \<and> j < m \<longrightarrow> Suc (length (L1 j)) = length (L j)" "\<forall>j. j < k \<or> m \<le> j \<longrightarrow> L1 j = L j"
      "bd_maps b1 = bd_maps b" "room (bd_mem b1) = room (bd_mem b)"
      "used_bits b1 = used_bits b - (\<lambda>j. bit_pos j a b) ` {k..<m}" by blast
  have m: "m \<le> 10" "m < 11" using assms(4) by simp_all
  let ?b2 = "buddy_set_frame_unused m a b1" and ?m = "addr_to_map_id m a"
  have bp: "buddy_pos m a ?b2 = buddy_pos m a b" by (rule buddy_pos_cong) (simp add: u(8))
  have stop: "\<not> (m < MAX_ORDER - 1 \<and> buddy_is_frame_free (bd_data ?b2 (map_word m ?m ?b2))
      (if fma_frame ?m mod 2 \<noteq> 0 then fma_frame ?m - 1 else fma_frame ?m + 1))" (is "\<not> (_ \<and> buddy_is_frame_free _ ?f)")
  proof
    assume h: "m < MAX_ORDER - 1 \<and> buddy_is_frame_free (bd_data ?b2 (map_word m ?m ?b2)) ?f"
    note p = buddy_pos_frame [OF m(1), of a ?b2]
    have "buddy_pos m a ?b2 = (map_word m ?m ?b2, unat ?f mod 32)"
      unfolding p(1) using p(2) by (simp add: prod_eq_iff)
    then have "buddy_pos m a b \<notin> used_bits ?b2" using h unfolding bp by (simp add: free_bit)
    moreover have "bit_pos m a b1 = bit_pos m a b" by (rule bit_pos_cong) (rule u(8))
    moreover have "{k..m} = insert m {k..<m}" using assms(3) by auto
    ultimately show False using h assms(10) by (simp add: used_bits_set(2) [OF m(1)] u(10))
  qed
  have ok: "block_ok a m" using mod_mult_0 [OF assms(6)] assms(7) by (simp add: block_ok_def)
  have "buddy_rep live ?b2 L1" "bd_fl_slab ?b2 = c" "cost \<le> room (bd_mem ?b2)" "run_pages a m \<inter> free_pages ?b2 L1 = {}"
    using assms(5) u by simp_all
  from insert_block_at [OF this(1,2) m(2) this(3) ok this(4)] obtain b' n where
    i: "insert_buddy ops (Some m) m a ?b2 = Inr (0, b')" "buddy_rep live b' (L1(m := n # L1 m))" "bd_fl_slab b' = c"
      "free_pages b' (L1(m := n # L1 m)) = free_pages b1 L1 \<union> run_pages a m" "bd_addr b' = (bd_addr b1)(n := a)" by auto
  have "buddy_coalesce ops k a b = Inr b'" unfolding u(1) using i(1) stop
    by (subst buddy_coalesce.simps) (simp only: Let_def if_False bindE.simps prod.case)
  moreover have "\<exists>n'. (L1(m := n # L1 m)) m = n' # L m \<and> bd_addr b' n' = a" using u(7) by (intro exI [of _ n]) (simp add: i(5))
  moreover have "\<forall>j. k \<le> j \<and> j < m \<longrightarrow> Suc (length ((L1(m := n # L1 m)) j)) = length (L j)" using u(6) by simp
  moreover have "\<forall>j. j < k \<or> m < j \<longrightarrow> (L1(m := n # L1 m)) j = L j" using u(7) assms(3) by auto
  moreover have "free_pages b' (L1(m := n # L1 m)) = free_pages b L \<union> run_pages a k" using i(4) u(4) by simp
  ultimately show ?thesis using i(2,3) by blast
qed

text \<open>A right half whose left half is marked as free, but is in no block of the list: the walk ends at a null pointer.\<close>

lemma coalesce_lost:
  assumes "buddy_rep live b L" and "k < 10" and "odd (unat a div (4096 * 2 ^ k))" and "unat a mod (4096 * 2 ^ k) = 0"
    and "L k \<noteq> []" and "\<forall>x \<in> set (L k). unat a \<le> unat (bd_addr b x)"
    and "buddy_pos k a b \<notin> used_bits b"
  shows "buddy_coalesce ops k a b = Inl NullDeref"
proof -
  let ?m = "addr_to_map_id k a" and ?b1 = "buddy_set_frame_unused k a b"
  let ?lo = "map_to_addr k (?m\<lparr>fma_frame := fma_frame ?m - 1\<rparr>)"
  have k: "k \<le> 10" using assms(2) by simp
  note rh = right_half_id [OF k assms(3,4)] and p = buddy_pos_frame [OF k, of a ?b1]
  have "0 < 4096 * (2 :: nat) ^ k" by simp
  then have lo: "unat ?lo < unat a" using rh(2,3) by linarith
  have ch: "fl_chain b (bd_head b k) (L k)" using assms(1,2) by (simp add: buddy_rep_def)
  have "fl_chain ?b1 (bd_head b k) (L k) = fl_chain b (bd_head b k) (L k)" by (rule fl_chain_cong) simp
  then have ch1: "fl_chain ?b1 (bd_head b k) (L k)" using ch by simp
  have "\<forall>y \<in> set (L k). \<not> (bd_addr ?b1 y + PAGE_SIZE * order_pages k > ?lo \<and> bd_addr ?b1 y \<le> ?lo)"
    using assms(6) lo by (fastforce simp: word_le_nat_alt)
  from find_free_node_none [OF ch1 this, of None]
  obtain q where q: "find_free_node k ?lo None (bd_head b k) ?b1 = Some (q, 0)" by blast
  have "bd_num b k \<noteq> 0" using rep_num [OF assms(1) k] assms(5) by (cases "L k") auto
  then have rm: "remove_free_frame ops k ?lo ?b1 = Inl NullDeref" using q by (simp add: remove_free_frame_def)
  have "buddy_pos k a ?b1 = buddy_pos k a b" by (rule buddy_pos_cong) simp
  moreover have "buddy_pos k a ?b1 = (map_word k ?m ?b1, unat (fma_frame ?m - 1) mod 32)"
    using p rh(1) by (simp add: prod_eq_iff)
  ultimately have "(map_word k ?m ?b1, unat (fma_frame ?m - 1) mod 32) \<notin> used_bits ?b1"
    using assms(7) by (simp add: used_bits_set(2) [OF k])
  then have "buddy_is_frame_free (bd_data ?b1 (map_word k ?m ?b1)) (fma_frame ?m - 1)" by (simp add: free_bit)
  then show ?thesis using rm assms(2) rh(1) by (subst buddy_coalesce.simps) (simp add: Let_def)
qed


text \<open>An allocation from an allocator with whole blocks only: the first of them is split.\<close>

lemma alloc_upper_skip:
  "\<forall>i \<in> set is. bd_num b i = 0 \<Longrightarrow> buddy_alloc_upper ops order (is @ js) b = buddy_alloc_upper ops order js b"
  by (induction "is") (simp_all add: Let_def)

lemma alloc_frames_one:
  assumes "0 < unat nframes" and "unat nframes \<le> 1024" and "addrs \<noteq> 0"
    and "buddy_alloc_frames_max_order ops nframes b = Inr (0, [a], b')"
  shows "buddy_alloc_frames ops addrs nframes b = Inr (0, [(0, a)], b')"
proof -
  have "nframes mod MAX_BUDDY_NFRAMES \<noteq> 0 \<longleftrightarrow> unat nframes mod 1024 \<noteq> 0"
    using unat_eq_zero [of "nframes mod MAX_BUDDY_NFRAMES"] by (simp add: unat_u32_mod)
  moreover have "unat (nframes div MAX_BUDDY_NFRAMES) = unat nframes div 1024" by (simp add: unat_u32_div)
  ultimately have "unat (nframes div MAX_BUDDY_NFRAMES + (if nframes mod MAX_BUDDY_NFRAMES \<noteq> 0 then 1 else 0)) = 1"
    using assms(1,2) unat_eq_zero [of "nframes div MAX_BUDDY_NFRAMES"] by (cases "unat nframes = 1024") simp_all
  moreover have "\<not> nframes > MAX_BUDDY_NFRAMES" using assms(2) by (simp add: word_less_nat_alt)
  ultimately show ?thesis using assms(3,4) by (simp add: buddy_alloc_frames_def Let_def)
qed

text \<open>An order 10 block is taken as it is, or split down to the order \<open>k\<close>.\<close>

lemma take_whole:
  assumes rep: "buddy_rep live b L" and c: "bd_fl_slab b = c" and x: "L 10 = x # xs"
    and rm: "10 * cost \<le> room (bd_mem b)" and k: "k < 10"
  shows "\<exists>b' L'. buddy_alloc_upper ops k [10] b = Inr (0, [bd_addr b x], b') \<and> buddy_rep live b' L' \<and>
    bd_fl_slab b' = c \<and> room (bd_mem b) \<le> room (bd_mem b') + 10 * cost \<and>
    free_pages b' L' = free_pages b L - run_pages (bd_addr b x) k \<and> run_pages (bd_addr b x) k \<subseteq> free_pages b L \<and>
    (\<forall>j. k \<le> j \<and> j < 10 \<longrightarrow> (\<exists>y. L' j = y # L j \<and> bd_addr b' y = right_half (bd_addr b x) j)) \<and>
    (\<forall>j < k. L' j = L j) \<and> L' 10 = xs \<and> (\<forall>j > 10. L' j = L j) \<and> bd_maps b' = bd_maps b \<and>
    used_bits b' = used_bits b \<union> (\<lambda>j. bit_pos j (bd_addr b x) b) ` {k..10}"
proof -
  let ?a = "bd_addr b x"
  have n0: "bd_num b 10 \<noteq> 0" using rep_num [OF rep, of 10 x] x by simp
  have "fl_chain b (bd_head b 10) (L 10)" using rep by (simp add: buddy_rep_def)
  then have hd: "bd_head b 10 = x" "x \<noteq> 0" using x by auto
  have ten: "10 < (11 :: nat)" by simp
  from remove_head [OF rep c ten x n0] obtain b1 where
    r: "remove_free_head ops 10 b = Inr b1" "buddy_rep live b1 (L(10 := xs))" "bd_fl_slab b1 = c"
      "bd_addr b1 = bd_addr b" "room (bd_mem b1) = room (bd_mem b)"
      "free_pages b1 (L(10 := xs)) = free_pages b L - run_pages ?a 10" "run_pages ?a 10 \<subseteq> free_pages b L"
      "block_ok ?a 10" "bd_data b1 = bd_data b" "bd_maps b1 = bd_maps b" by blast
  have "(10 - k) * cost \<le> 10 * cost" by simp
  then have "(10 - k) * cost \<le> room (bd_mem b1)" using rm r(5) by linarith
  moreover have "run_pages ?a 10 \<inter> free_pages b1 (L(10 := xs)) = {}" using r(6) by auto
  ultimately obtain b2 L2 where s: "buddy_slice ops ?a 10 k b1 = Inr (0, ?a, b2)" "buddy_rep live b2 L2"
    "bd_fl_slab b2 = c" "room (bd_mem b1) \<le> room (bd_mem b2) + (10 - k) * cost"
    "free_pages b2 L2 = free_pages b1 (L(10 := xs)) \<union> (run_pages ?a 10 - run_pages ?a k)"
    "\<forall>j. k \<le> j \<and> j < 10 \<longrightarrow> (\<exists>n. L2 j = n # (L(10 := xs)) j \<and> bd_addr b2 n = right_half ?a j)"
    "\<forall>j. j < k \<or> 10 \<le> j \<longrightarrow> L2 j = (L(10 := xs)) j" "\<forall>u \<in> blocks (L(10 := xs)). bd_addr b2 (snd u) = bd_addr b1 (snd u)"
    using slice_halves [OF r(2,3) ten k _ r(8)] by blast
  note sb = slice_bits [OF s(1) order.refl k]
  have bp: "bit_pos j ?a b1 = bit_pos j ?a b" for j using r(10) by (rule bit_pos_cong)
  have "buddy_alloc_upper ops k [10] b = Inr (0, [?a], b2)" using n0 hd r(1,4) s(1) by (simp add: Let_def)
  moreover have "free_pages b2 L2 = free_pages b L - run_pages ?a k" "run_pages ?a k \<subseteq> free_pages b L"
    using s(5) r(6,7) run_pages_mono [of k 10 ?a] k by auto
  moreover have "room (bd_mem b) \<le> room (bd_mem b2) + 10 * cost" using s(4) r(5) \<open>(10 - k) * cost \<le> 10 * cost\<close> by linarith
  moreover have "\<forall>j. k \<le> j \<and> j < 10 \<longrightarrow> (\<exists>y. L2 j = y # L j \<and> bd_addr b2 y = right_half ?a j)" using s(6) by auto
  moreover have "\<forall>j < k. L2 j = L j" "L2 10 = xs" "\<forall>j > 10. L2 j = L j" using s(7) k by auto
  moreover have "bd_maps b2 = bd_maps b" "used_bits b2 = used_bits b \<union> (\<lambda>j. bit_pos j ?a b) ` {k..10}"
    using sb r(9,10) by (simp_all add: bp, simp add: used_bits_def)
  ultimately show ?thesis using s(2,3) by (intro exI [of _ b2] exI [of _ L2] conjI)
qed

lemma alloc_whole:
  assumes rep: "buddy_rep live b L" and c: "bd_fl_slab b = c" and whole: "\<forall>j < 10. L j = []" and x: "L 10 = x # xs"
    and n: "0 < unat nframes" "unat nframes \<le> 1024" and addrs: "addrs \<noteq> 0" and rm: "10 * cost \<le> room (bd_mem b)"
  defines "k \<equiv> get_buddy_order nframes"
  shows "\<exists>b' L'. buddy_alloc_frames ops addrs nframes b = Inr (0, [(0, bd_addr b x)], b') \<and> buddy_rep live b' L' \<and>
    bd_fl_slab b' = c \<and> room (bd_mem b) \<le> room (bd_mem b') + 10 * cost \<and>
    free_pages b' L' = free_pages b L - run_pages (bd_addr b x) k \<and> run_pages (bd_addr b x) k \<subseteq> free_pages b L \<and>
    (\<forall>j. k \<le> j \<and> j < 10 \<longrightarrow> (\<exists>y. L' j = [y] \<and> bd_addr b' y = right_half (bd_addr b x) j)) \<and>
    (\<forall>j < k. L' j = []) \<and> L' 10 = xs \<and> bd_maps b' = bd_maps b \<and>
    used_bits b' = used_bits b \<union> (\<lambda>j. bit_pos j (bd_addr b x) b) ` {k..10}"
proof (cases "k = 10")
  case True
  let ?a = "bd_addr b x"
  have n0: "bd_num b 10 \<noteq> 0" using rep_num [OF rep, of 10 x] x by simp
  have "fl_chain b (bd_head b 10) (L 10)" using rep by (simp add: buddy_rep_def)
  then have hd: "bd_head b 10 = x" "x \<noteq> 0" using x by auto
  have ten: "10 < (11 :: nat)" by simp
  from remove_head [OF rep c ten x n0] obtain b1 where
    r: "remove_free_head ops 10 b = Inr b1" "buddy_rep live b1 (L(10 := xs))" "bd_fl_slab b1 = c"
      "bd_addr b1 = bd_addr b" "room (bd_mem b1) = room (bd_mem b)"
      "free_pages b1 (L(10 := xs)) = free_pages b L - run_pages ?a 10" "run_pages ?a 10 \<subseteq> free_pages b L"
      "bd_data b1 = bd_data b" "bd_maps b1 = bd_maps b" by blast
  let ?b' = "buddy_set_frame_used 10 ?a b1"
  have "buddy_alloc_frames_max_order ops nframes b = Inr (0, [?a], ?b')"
    using n0 hd r(1,4) True by (simp add: buddy_alloc_frames_max_order_def k_def Let_def)
  from alloc_frames_one [OF n addrs this] have al: "buddy_alloc_frames ops addrs nframes b = Inr (0, [(0, ?a)], ?b')" .
  have bp: "bit_pos 10 ?a b1 = bit_pos 10 ?a b" using r(9) by (rule bit_pos_cong)
  have "used_bits ?b' = insert (bit_pos 10 ?a b) (used_bits b)"
    using used_bits_set(1) [of 10 ?a b1] r(8) by (simp add: bp, simp add: used_bits_def)
  moreover have "bd_maps ?b' = bd_maps b" using r(9) by (simp add: buddy_set_frame_used_def Let_def)
  ultimately show ?thesis unfolding True using al r(2-7) whole
    by (intro exI [of _ ?b'] exI [of _ "L(10 := xs)"] conjI) auto
next
  case False
  then have k: "k < 10" using get_buddy_order_lt [of nframes] by (simp add: k_def)
  have z: "bd_num b j = 0" if "j < 10" for j using rep whole that by (auto simp: buddy_rep_def)
  have "[k + 1..<11] = [k + 1..<10] @ [10]" using k by (simp add: upt_Suc_append [symmetric])
  then have u: "buddy_alloc_upper ops k [k + 1..<11] b = buddy_alloc_upper ops k [10] b"
    using alloc_upper_skip [of "[k + 1..<10]" b k "[10]"] z by simp
  from take_whole [OF rep c x rm k] obtain b' L' where
    t: "buddy_alloc_upper ops k [10] b = Inr (0, [bd_addr b x], b')" "buddy_rep live b' L'" "bd_fl_slab b' = c"
      "room (bd_mem b) \<le> room (bd_mem b') + 10 * cost"
      "free_pages b' L' = free_pages b L - run_pages (bd_addr b x) k" "run_pages (bd_addr b x) k \<subseteq> free_pages b L"
      "\<forall>j. k \<le> j \<and> j < 10 \<longrightarrow> (\<exists>y. L' j = y # L j \<and> bd_addr b' y = right_half (bd_addr b x) j)"
      "\<forall>j < k. L' j = L j" "L' 10 = xs" "bd_maps b' = bd_maps b"
      "used_bits b' = used_bits b \<union> (\<lambda>j. bit_pos j (bd_addr b x) b) ` {k..10}"
    by (elim exE conjE) (rule that, assumption+)
  have "buddy_alloc_frames_max_order ops nframes b = Inr (0, [bd_addr b x], b')"
    using u t(1) z [OF k] by (simp add: buddy_alloc_frames_max_order_def k_def Let_def)
  from alloc_frames_one [OF n addrs this] have "buddy_alloc_frames ops addrs nframes b = Inr (0, [(0, bd_addr b x)], b')" .
  moreover have "\<forall>j. k \<le> j \<and> j < 10 \<longrightarrow> (\<exists>y. L' j = [y] \<and> bd_addr b' y = right_half (bd_addr b x) j)" "\<forall>j < k. L' j = []"
    using t(7,8) whole k by auto
  ultimately show ?thesis using t(2-6,9-11) by (intro exI [of _ b'] exI [of _ L'] conjI)
qed

text \<open>The release of a block that is marked starts to merge at its own order.\<close>

lemma free_marked:
  assumes "bit_pos (get_buddy_order nframes) a b \<in> used_bits b"
  shows "buddy_free_frames ops a nframes b = buddy_coalesce ops (get_buddy_order nframes) a b"
proof -
  let ?k = "get_buddy_order nframes"
  have k: "?k \<le> 10" "\<not> ?k \<ge> MAX_ORDER" using get_buddy_order_lt [of nframes] by simp_all
  have "bit_pos ?k a b = (map_word ?k (addr_to_map_id ?k a) b, unat (fma_frame (addr_to_map_id ?k a)) mod 32)"
    using unat_map_id(2) [OF k(1), of a] by (simp add: bit_pos_def)
  then have "\<not> buddy_is_frame_free (bd_data b (map_word ?k (addr_to_map_id ?k a) b)) (fma_frame (addr_to_map_id ?k a))"
    using assms by (simp add: free_bit)
  then show ?thesis using k(2) by (simp add: buddy_free_frames_def Let_def)
qed

text \<open>What the merges after \<open>alloc_whole\<close> find.\<close>

lemma after_alloc:
  assumes rep: "buddy_rep live b L" and c: "bd_fl_slab b = c" and whole: "\<forall>j < 10. L j = []" and x: "L 10 = x # xs"
    and n: "0 < unat nframes" "unat nframes \<le> 1024" and addrs: "addrs \<noteq> 0" and rm: "11 * cost \<le> room (bd_mem b)"
    and clear: "halves_clear (bd_addr b x) b"
  defines "k \<equiv> get_buddy_order nframes" and "a \<equiv> bd_addr b x"
  shows "\<exists>b1 L1. buddy_alloc_frames ops addrs nframes b = Inr (0, [(0, a)], b1) \<and>
    buddy_free_frames ops a nframes b1 = buddy_coalesce ops k a b1 \<and> buddy_rep live b1 L1 \<and> bd_fl_slab b1 = c \<and>
    cost \<le> room (bd_mem b1) \<and> free_pages b1 L1 \<union> run_pages a k = free_pages b L \<and> run_pages a k \<inter> free_pages b1 L1 = {} \<and>
    (\<forall>j. k \<le> j \<and> j < 10 \<longrightarrow> (\<exists>y. L1 j = [y] \<and> bd_addr b1 y = right_half a j) \<and> buddy_pos j a b1 \<notin> used_bits b1) \<and>
    (\<forall>j < k. L1 j = []) \<and> L1 10 = xs"
proof -
  have "10 * cost \<le> room (bd_mem b)" using rm by simp
  from alloc_whole [OF rep c whole x n addrs this, folded k_def a_def] obtain b1 L1 where
    t: "buddy_alloc_frames ops addrs nframes b = Inr (0, [(0, a)], b1)" "buddy_rep live b1 L1" "bd_fl_slab b1 = c"
      "room (bd_mem b) \<le> room (bd_mem b1) + 10 * cost" "free_pages b1 L1 = free_pages b L - run_pages a k"
      "run_pages a k \<subseteq> free_pages b L" "\<forall>j. k \<le> j \<and> j < 10 \<longrightarrow> (\<exists>y. L1 j = [y] \<and> bd_addr b1 y = right_half a j)"
      "\<forall>j < k. L1 j = []" "L1 10 = xs" "bd_maps b1 = bd_maps b"
      "used_bits b1 = used_bits b \<union> (\<lambda>j. bit_pos j a b) ` {k..10}"
    by (elim exE conjE) (rule that, assumption+)
  have k: "k \<le> 10" using get_buddy_order_lt [of nframes] by (simp add: k_def)
  have "bit_pos k a b1 \<in> used_bits b1" using k t(11) bit_pos_cong [OF t(10), of k a] by simp
  then have fr: "buddy_free_frames ops a nframes b1 = buddy_coalesce ops k a b1" unfolding k_def by (rule free_marked)
  have "buddy_pos j a b1 \<notin> used_bits b1" if "j < 10" for j
  proof -
    have "buddy_pos j a b \<notin> used_bits b" "\<forall>i \<le> 10. buddy_pos j a b \<noteq> bit_pos i a b"
      using clear that unfolding a_def halves_clear_def by metis+
    then show ?thesis unfolding t(11) buddy_pos_cong [OF t(10)] by auto
  qed
  then have h: "\<forall>j. k \<le> j \<and> j < 10 \<longrightarrow> (\<exists>y. L1 j = [y] \<and> bd_addr b1 y = right_half a j) \<and> buddy_pos j a b1 \<notin> used_bits b1"
    using t(7) by blast
  have "cost \<le> room (bd_mem b1)" using t(4) rm by linarith
  moreover have "free_pages b1 L1 \<union> run_pages a k = free_pages b L" "run_pages a k \<inter> free_pages b1 L1 = {}" using t(5,6) by auto
  ultimately show ?thesis using t(1-3,8,9) fr h by (intro exI [of _ b1] exI [of _ L1] conjI)
qed

lemma release_aligned:
  assumes rep: "buddy_rep live b L" and c: "bd_fl_slab b = c" and whole: "\<forall>j < 10. L j = []" and x: "L 10 = x # xs"
    and n: "0 < unat nframes" "unat nframes \<le> 1024" and addrs: "addrs \<noteq> 0" and rm: "11 * cost \<le> room (bd_mem b)"
    and clear: "halves_clear (bd_addr b x) b"
    and al: "unat (bd_addr b x) mod 0x400000 = 0" and lim: "unat (bd_addr b x) + 0x400000 < 4294967296"
  shows "\<exists>b1 b2 L2. buddy_alloc_frames ops addrs nframes b = Inr (0, [(0, bd_addr b x)], b1) \<and>
    buddy_free_frames ops (bd_addr b x) nframes b1 = Inr b2 \<and> buddy_rep live b2 L2 \<and> bd_fl_slab b2 = c \<and>
    free_pages b2 L2 = free_pages b L \<and> (\<forall>j < 10. L2 j = []) \<and> (\<exists>y. L2 10 = y # xs \<and> bd_addr b2 y = bd_addr b x)"
proof -
  let ?k = "get_buddy_order nframes" and ?a = "bd_addr b x"
  have k: "?k \<le> 10" using get_buddy_order_lt [of nframes] by simp
  from after_alloc [OF rep c whole x n addrs rm clear] obtain b1 L1 where
    a: "buddy_alloc_frames ops addrs nframes b = Inr (0, [(0, ?a)], b1)"
      "buddy_free_frames ops ?a nframes b1 = buddy_coalesce ops ?k ?a b1" "buddy_rep live b1 L1" "bd_fl_slab b1 = c"
      "cost \<le> room (bd_mem b1)" "free_pages b1 L1 \<union> run_pages ?a ?k = free_pages b L" "run_pages ?a ?k \<inter> free_pages b1 L1 = {}"
      "\<forall>j. ?k \<le> j \<and> j < 10 \<longrightarrow> (\<exists>y. L1 j = [y] \<and> bd_addr b1 y = right_half ?a j) \<and> buddy_pos j ?a b1 \<notin> used_bits b1"
      "\<forall>j < ?k. L1 j = []" "L1 10 = xs"
    by (elim exE conjE) (rule that, assumption+)
  have s: "unat ?a mod (4096 * 2 ^ 10) = 0" "unat ?a + 4096 * 2 ^ 10 < 4294967296" using al lim by simp_all
  have h: "\<forall>j. ?k \<le> j \<and> j < 10 \<longrightarrow> (\<exists>x \<in> set (L1 j). bd_addr b1 x = right_half ?a j) \<and> buddy_pos j ?a b1 \<notin> used_bits b1"
    using a(8) by (metis list.set_intros(1))
  from coalesce_left [OF a(3,4) k order.refl a(5) s a(7) h] obtain b2 L2 y where
    m: "buddy_coalesce ops ?k ?a b1 = Inr b2" "buddy_rep live b2 L2" "bd_fl_slab b2 = c"
      "free_pages b2 L2 = free_pages b1 L1 \<union> run_pages ?a ?k" "L2 10 = y # L1 10" "bd_addr b2 y = ?a"
      "\<forall>j. ?k \<le> j \<and> j < 10 \<longrightarrow> Suc (length (L2 j)) = length (L1 j)" "\<forall>j. j < ?k \<or> 10 < j \<longrightarrow> L2 j = L1 j" by auto
  have "L2 j = []" if "j < 10" for j
  proof (cases "j < ?k")
    case False
    then have j: "?k \<le> j \<and> j < 10" using that by simp
    then obtain z where "L1 j = [z]" using a(8) by blast
    then show ?thesis using m(7) j by fastforce
  qed (use a(9) m(8) in auto)
  then show ?thesis using a m by (intro exI [of _ b1] exI [of _ b2] exI [of _ L2]) auto
qed

lemma release_misaligned:
  assumes rep: "buddy_rep live b L" and c: "bd_fl_slab b = c" and whole: "\<forall>j < 10. L j = []" and x: "L 10 = x # xs"
    and n: "0 < unat nframes" "unat nframes \<le> 2 ^ m" and addrs: "addrs \<noteq> 0" and rm: "11 * cost \<le> room (bd_mem b)"
    and clear: "halves_clear (bd_addr b x) b"
    and m: "m < 10" and al: "unat (bd_addr b x) mod (4096 * 2 ^ m) = 0" "odd (unat (bd_addr b x) div (4096 * 2 ^ m))"
  shows "\<exists>b1. buddy_alloc_frames ops addrs nframes b = Inr (0, [(0, bd_addr b x)], b1) \<and>
    buddy_free_frames ops (bd_addr b x) nframes b1 = Inl NullDeref"
proof -
  let ?k = "get_buddy_order nframes" and ?a = "bd_addr b x"
  have "(2 :: nat) ^ m \<le> 2 ^ 10" using m by (intro power_increasing) simp_all
  then have n': "unat nframes \<le> 1024" using n(2) by simp
  then have k: "?k \<le> m" using get_buddy_order_spec [of nframes] n(2) by (meson not_le)
  from after_alloc [OF rep c whole x n(1) n' addrs rm clear] obtain b1 L1 where
    a: "buddy_alloc_frames ops addrs nframes b = Inr (0, [(0, ?a)], b1)"
      "buddy_free_frames ops ?a nframes b1 = buddy_coalesce ops ?k ?a b1" "buddy_rep live b1 L1" "bd_fl_slab b1 = c"
      "cost \<le> room (bd_mem b1)" "free_pages b1 L1 \<union> run_pages ?a ?k = free_pages b L" "run_pages ?a ?k \<inter> free_pages b1 L1 = {}"
      "\<forall>j. ?k \<le> j \<and> j < 10 \<longrightarrow> (\<exists>y. L1 j = [y] \<and> bd_addr b1 y = right_half ?a j) \<and> buddy_pos j ?a b1 \<notin> used_bits b1"
      "\<forall>j < ?k. L1 j = []" "L1 10 = xs"
    by (elim exE conjE) (rule that, assumption+)
  have "block_ok ?a 10" using rep x blocks_sepD(1) [of "bd_addr b" "blocks L" 10 x] by (simp add: buddy_rep_def blocks_def)
  moreover have "4096 * (2 :: nat) ^ m < 4096 * 2 ^ 10" using m by (intro mult_strict_left_mono power_strict_increasing) simp_all
  ultimately have lim: "unat ?a + 4096 * 2 ^ m < 4294967296" unfolding block_ok_def by linarith
  have h: "\<forall>j. ?k \<le> j \<and> j < m \<longrightarrow> (\<exists>x \<in> set (L1 j). bd_addr b1 x = right_half ?a j) \<and> buddy_pos j ?a b1 \<notin> used_bits b1"
    using a(8) m by (metis list.set_intros(1) order.strict_trans)
  have m10: "m \<le> 10" using m by simp
  from coalesce_up [OF a(3,4) k m10 al(1) lim a(7) h] obtain b2 L2 where
    u: "buddy_coalesce ops ?k ?a b1 = buddy_coalesce ops m ?a b2" "buddy_rep live b2 L2"
      "\<forall>j. j < ?k \<or> m \<le> j \<longrightarrow> L2 j = L1 j" "bd_addr b2 = bd_addr b1" "bd_maps b2 = bd_maps b1"
      "used_bits b2 = used_bits b1 - (\<lambda>j. bit_pos j ?a b1) ` {?k..<m}" by blast
  obtain y where y: "L1 m = [y]" "bd_addr b1 y = right_half ?a m" "buddy_pos m ?a b1 \<notin> used_bits b1" using a(8) k m by blast
  have "L2 m = [y]" using u(3) y(1) by simp
  moreover have "unat ?a \<le> unat (bd_addr b2 y)" using unat_right_half [OF m lim] y(2) u(4) by simp
  moreover have "buddy_pos m ?a b2 \<notin> used_bits b2" using y(3) u(6) buddy_pos_cong [OF u(5)] by simp
  ultimately have "buddy_coalesce ops m ?a b2 = Inl NullDeref" using coalesce_lost [OF u(2) m al(2,1)] by simp
  then show ?thesis using a(1,2) u(1) by (intro exI [of _ b1]) simp
qed

end

section \<open>Properties\<close>


text \<open>
  C35. Where the first block starts at an odd multiple of the size of a smaller order, as in the allocator of the user
  addresses, which start at 1 MB, the release of the only allocation of at most that size follows a null pointer: the
  merge looks for the block before the start of the memory.
\<close>

theorem buddy_free_unaligned_faults:
  fixes b :: "'e slab_world buddy_state"
  assumes "buddy_rep (cache_live st (bd_fl_slab b)) b L" and "\<forall>j < 10. L j = []" and "L 10 = x # xs"
    and "m < 10" and "unat (bd_addr b x) mod (4096 * 2 ^ m) = 0" and "odd (unat (bd_addr b x) div (4096 * 2 ^ m))"
    and "halves_clear (bd_addr b x) b" and "0 < unat nframes" and "unat nframes \<le> 2 ^ m" and "addrs \<noteq> 0"
    and "11 * slab_cost st \<le> heap_room (sw_heap (bd_mem b))"
  shows "\<exists>b1. buddy_alloc_frames (slab_ops mm) addrs nframes b = Inr (0, [(0, bd_addr b x)], b1) \<and>
    buddy_free_frames (slab_ops mm) (bd_addr b x) nframes b1 = Inl NullDeref"
  using slab_buddy.release_misaligned [OF assms(1) refl assms(2,3,8-11,7,4-6), of mm] by auto

text \<open>The positions in the bitmaps of a new allocator.\<close>

definition halves_apart :: "u32 \<Rightarrow> u32 \<Rightarrow> bool" where
  "halves_apart siz a \<longleftrightarrow> (\<forall>i \<in> set [0..<10]. \<forall>j \<in> set [0..<11].
     let f = (\<lambda>k. unat a div (4096 * 2 ^ k) mod 32); w = (\<lambda>k. buddy_map_offset siz k + unat a div (4096 * 2 ^ k) div 32)
     in w j \<noteq> w i \<or> f j \<noteq> (if odd (f i) then f i - 1 else f i + 1))"

lemma new_halves_clear:
  assumes "bd_data b = (\<lambda>_. 0)" and "\<forall>k < 11. bd_maps b k = buddy_map_offset siz k" and "halves_apart siz a"
  shows "halves_clear a b"
proof -
  have u: "used_bits b = {}" using assms(1) by (simp add: used_bits_def)
  have w: "map_word k (addr_to_map_id k a) b = buddy_map_offset siz k + unat a div (4096 * 2 ^ k) div 32" if "k \<le> 10" for k
    using that assms(2) unat_map_id(1) [OF that, of a] by (simp add: map_word_def)
  show ?thesis
    unfolding halves_clear_def u
  proof (intro allI impI conjI)
    fix i j :: nat assume "i < 10" "j \<le> 10"
    then have "i \<in> set [0..<10]" "j \<in> set [0..<11]" "i \<le> 10" by auto
    then show "bit_pos j a b \<noteq> buddy_pos i a b"
      using assms(3) \<open>j \<le> 10\<close> unfolding halves_apart_def by (auto simp: bit_pos_def buddy_pos_def w Let_def)
  qed simp
qed

lemma new_allocator:
  assumes "start < lim" and "unat start mod 4096 = 0" and "get_buddy_map_size (lim - start) * 4 \<noteq> 0"
    and "buddy_cost (lim - start) + r \<le> heap_room (sw_heap slab_world_4mb)"
    and "MAX_BUDDY_BYTES \<le> lim - start" and "halves_apart (lim - start) start"
  shows "\<exists>p b L x xs. buddy_alloc_create (slab_ops mm_ok) start lim buddy_blank = Inr (p, b) \<and>
    buddy_rep (cache_live 28 (bd_fl_slab b)) b L \<and> (\<forall>j < 10. L j = []) \<and> L 10 = x # xs \<and> bd_addr b x = start \<and>
    halves_clear start b \<and> r \<le> heap_room (sw_heap (bd_mem b))"
proof -
  let ?n = "unat ((lim - start) div MAX_BUDDY_BYTES)"
  from buddy_create_full [of buddy_blank lim start r mm_ok] slab_world_4mb_heap assms(1-4)
  obtain p b L where b: "buddy_alloc_create (slab_ops mm_ok) start lim buddy_blank = Inr (p, b)"
    "buddy_rep (cache_live 28 (bd_fl_slab b)) b L" "r \<le> heap_room (sw_heap (bd_mem b))" "\<forall>k. k \<noteq> 10 \<longrightarrow> L k = []"
    "length (L 10) = ?n" "\<forall>j < ?n. bd_addr b (L 10 ! j) = start + word_of_nat j * MAX_BUDDY_BYTES"
    "\<forall>k < 11. bd_maps b k = buddy_map_offset (lim - start) k" "bd_data b = (\<lambda>_. 0)"
    by (auto simp: buddy_blank_def)
  have n: "0 < ?n" using assms(5) by (simp add: unat_u32_div word_le_nat_alt div_greater_zero_iff)
  then obtain x xs where x: "L 10 = x # xs" using b(5) by (cases "L 10") auto
  moreover have "bd_addr b x = start" using b(6) n x by (auto dest: spec [of _ 0])
  moreover have "halves_clear start b" using new_halves_clear [OF b(8,7) assms(6)] .
  ultimately show ?thesis using b(1-4) by (intro exI [of _ p] exI [of _ b] exI [of _ L] exI [of _ x] exI [of _ xs]) simp
qed

lemma kernel_map_offsets:
  "buddy_map_offset 0x2FFFFFFF 0 = 0"
  "buddy_map_offset 0x2FFFFFFF 1 = 1535"
  "buddy_map_offset 0x2FFFFFFF 2 = 2302"
  "buddy_map_offset 0x2FFFFFFF 3 = 2685"
  "buddy_map_offset 0x2FFFFFFF 4 = 2876"
  "buddy_map_offset 0x2FFFFFFF 5 = 2971"
  "buddy_map_offset 0x2FFFFFFF 6 = 3018"
  "buddy_map_offset 0x2FFFFFFF 7 = 3041"
  "buddy_map_offset 0x2FFFFFFF 8 = 3052"
  "buddy_map_offset 0x2FFFFFFF 9 = 3057"
  "buddy_map_offset 0x2FFFFFFF 10 = 3059"
  by code_simp+

lemma user_map_offsets:
  "buddy_map_offset 0x3FF00000 0 = 0"
  "buddy_map_offset 0x3FF00000 1 = 2046"
  "buddy_map_offset 0x3FF00000 2 = 3069"
  "buddy_map_offset 0x3FF00000 3 = 3580"
  "buddy_map_offset 0x3FF00000 4 = 3835"
  "buddy_map_offset 0x3FF00000 5 = 3962"
  "buddy_map_offset 0x3FF00000 6 = 4025"
  "buddy_map_offset 0x3FF00000 7 = 4056"
  "buddy_map_offset 0x3FF00000 8 = 4071"
  "buddy_map_offset 0x3FF00000 9 = 4078"
  "buddy_map_offset 0x3FF00000 10 = 4081"
  by code_simp+

lemma buddy_kernel_range:
  "get_buddy_map_size 0x2FFFFFFF = 12282" "(0x2FFFFFFF :: u32) div MAX_BUDDY_BYTES = 191"
  by code_simp+

lemma upt_orders: "[0..<10] = [0, 1, 2, 3, 4, 5, 6, 7, 8, 9 :: nat]" "[0..<11] = [0, 1, 2, 3, 4, 5, 6, 7, 8, 9, 10 :: nat]"
  by code_simp+

lemma kernel_halves_apart: "halves_apart 0x2FFFFFFF 0xD0000000"
  unfolding halves_apart_def by (simp add: upt_orders kernel_map_offsets del: One_nat_def)

lemma user_halves_apart: "halves_apart 0x3FF00000 0x100000"
  unfolding halves_apart_def by (simp add: upt_orders user_map_offsets del: One_nat_def)

text \<open>
  The positions are those of absolute addresses, but the map has words for the size of the range only: in the kernel's
  allocator the bits of single frames all lie behind the map. (The words of \<open>bd_data\<close> behind the map are those of other
  heap blocks.)
\<close>

lemma kernel_map_outside:
  assumes "bd_maps b 0 = buddy_map_offset 0x2FFFFFFF 0" and "0xD0000000 \<le> a"
  shows "unat (get_buddy_map_size 0x2FFFFFFF) \<le> map_word 0 (addr_to_map_id 0 a) b"
proof -
  have "3489660928 \<le> unat a" using assms(2) by (simp add: word_le_nat_alt)
  then have "26624 \<le> unat a div 4096 div 32" by simp
  then show ?thesis using unat_map_id(1) [of 0 a] by (simp add: map_word_def buddy_kernel_range)
qed

lemma kernel_buddy_room: "buddy_cost 0x2FFFFFFF < 0x50000"
  by (simp only: buddy_cost_def buddy_kernel_range) simp


theorem buddy_free_unaligned_faults_witness:
  "\<exists>p b b1. buddy_alloc_create (slab_ops mm_ok) 0x100000 0x40000000 buddy_blank = Inr (p, b) \<and>
     buddy_alloc_frames (slab_ops mm_ok) 1 1 b = Inr (0, [(0, 0x100000)], b1) \<and>
     buddy_free_frames (slab_ops mm_ok) 0x100000 1 b1 = Inl NullDeref"
proof -
  have s: "(0x40000000 - 0x100000 :: u32) = 0x3FF00000" by simp
  have "get_buddy_map_size 0x3FF00000 * 4 \<noteq> 0" "buddy_cost 0x3FF00000 + 11 * slab_cost 28 \<le> heap_room (sw_heap slab_world_4mb)"
    using buddy_user slab_world_4mb_heap by (simp_all add: slab_cost_def)
  then obtain p b L x xs where b: "buddy_alloc_create (slab_ops mm_ok) 0x100000 0x40000000 buddy_blank = Inr (p, b)"
    "buddy_rep (cache_live 28 (bd_fl_slab b)) b L" "\<forall>j < 10. L j = []" "L 10 = x # xs" "bd_addr b x = 0x100000"
    "halves_clear 0x100000 b" "11 * slab_cost 28 \<le> heap_room (sw_heap (bd_mem b))"
    using new_allocator [of "0x100000" "0x40000000" "11 * slab_cost 28"] user_halves_apart unfolding s by auto
  from buddy_free_unaligned_faults [OF b(2-4), unfolded b(5), where m = 8, OF _ _ _ b(6) _ _ _ b(7), of 1 1 mm_ok]
  show ?thesis using b(1) by auto
qed

end
