(* ===== verification/Self_Tests.thy ===== *)
theory Self_Tests
  imports Buddy_Blocks
begin

text \<open>
  The self tests of the allocators: \<open>allocator_test\<close> (\<open>src/mem/allocator.c\<close>), \<open>slab_test\<close>
  (\<open>src/mem/slav_allocator.c\<close>), \<open>buddy_test\<close> (\<open>src/mem/buddy_frame_alloc.c\<close>) and \<open>fa_test\<close>
  (\<open>src/mem/frame_alloc.c\<close>). Each only prints what it does; here
  the results are the values of its local variables.
\<close>

section \<open>Tests\<close>

definition alloc_test :: "'e mapper \<Rightarrow> u32 \<Rightarrow> 'e heap_state \<Rightarrow> fault + u32 \<times> 'e heap_state" where
  "alloc_test mm sz h = kmalloc mm sz h"

definition allocator_test :: "'e mapper \<Rightarrow> 'e heap_state \<Rightarrow> fault + u32 list \<times> 'e heap_state" where
  "allocator_test mm h =
     bindE (alloc_test mm 8 h) (\<lambda>(p1, h).
     bindE (alloc_test mm 16 h) (\<lambda>(p2, h).
     bindE (alloc_test mm 8 h) (\<lambda>(p3, h).
     bindE (kfree p2 h) (\<lambda>h.
     bindE (alloc_test mm 8 h) (\<lambda>(p4, h).
     bindE (kfree p1 h) (\<lambda>h.
     bindE (kfree p4 h) (\<lambda>h.
     bindE (kfree p3 h) (\<lambda>h.
     bindE (alloc_test mm 16 h) (\<lambda>(r2, h). Inr ([p1, p2, p3, p4, r2], h))))))))))"

definition slab_test :: "'e mapper \<Rightarrow> 'e slab_world \<Rightarrow> fault + u32 list \<times> 'e slab_world" where
  "slab_test mm w =
     bindE (slab_cache_create mm 0x100 w) (\<lambda>(cache, w).
     bindE (alloc_seq (\<lambda>_. slab_alloc_from_cache mm cache) (replicate 20 ()) w) (\<lambda>(ps, w).
     bindE (slab_free cache (ps ! 15) w) (\<lambda>w.
     bindE (slab_alloc_from_cache mm cache w) (\<lambda>(p, w).
     bindE (slab_cache_destroy cache w) (\<lambda>w. Inr (ps[15 := p], w))))))"

definition buddy_test :: "'w mem_ops \<Rightarrow> 'w buddy_state \<Rightarrow> fault + (nat \<times> u32) list list \<times> 'w buddy_state" where
  "buddy_test ops b0 =
     bindE (buddy_alloc_create ops 0x100000 0x40000000 b0) (\<lambda>(buddy, b).
     if buddy = 0 then Inl NullDeref
     else
       bindE (buddy_alloc_frames ops 1 1 b) (\<lambda>(_, a1, b).
       bindE (buddy_alloc_frames ops 1 1 b) (\<lambda>(_, a2, b).
       bindE (buddy_free_frame ops 0x100000 b) (\<lambda>b.
       bindE (buddy_alloc_frames ops 1 1 b) (\<lambda>(_, a3, b). Inr ([a1, a2, a3], b))))))"

section \<open>The heap test\<close>

lemma find_prev_hole_cycle:
  assumes "b \<noteq> 0" and "bh_next_hole (hs_hdr h b) = b" and "b < x"
  shows "find_prev_hole h x b = None"
proof (rule ccontr)
  assume "find_prev_hole h x b \<noteq> None"
  then obtain r where r: "find_prev_hole h x b = Some r" by blast
  have "\<not> (h = h \<and> x = x \<and> b = b)"
  proof (rule find_prev_hole.raw_induct [where P = "\<lambda>hh y p r. \<not> (hh = h \<and> y = x \<and> p = b)", OF _ r])
    fix f :: "'a heap_state \<Rightarrow> u32 \<Rightarrow> u32 \<Rightarrow> (fault + u32) option" and hh y p r
    assume ih: "\<And>hh y p r. f hh y p = Some r \<Longrightarrow> \<not> (hh = h \<and> y = x \<and> p = b)"
      and e: "(if p = 0 then Some (Inl NullDeref)
        else if bh_next_hole (hs_hdr hh p) < y then f hh y (bh_next_hole (hs_hdr hh p)) else Some (Inr p)) = Some r"
    show "\<not> (hh = h \<and> y = x \<and> p = b)"
    proof
      assume "hh = h \<and> y = x \<and> p = b"
      then have "f h x b = Some r" using e assms by simp
      then show False using ih by blast
    qed
  qed
  then show False by simp
qed

lemma kfree_first_hole:
  assumes "addr \<noteq> 0" and "hs_base_addr h \<le> addr" and "addr \<le> hs_end h" and "addr - 32 = hs_base_block h"
    and "bh_magic (hs_hdr h (addr - 32)) = BLOCK_HEADER_MAGIC_NUM" and "bh_prev (hs_hdr h (addr - 32)) = 0"
    and "bh_next_hole (hs_hdr h (addr - 32)) > addr - 32"
    and "\<not> bh_is_hole (hs_hdr h (bh_next (hs_hdr h (addr - 32))))" and "bh_next (hs_hdr h (addr - 32)) \<noteq> addr - 32"
  shows "kfree addr h = Inr (upd_hdr (addr - 32) (\<lambda>x. x\<lparr>bh_next_hole := addr - 32\<rparr>)
    (upd_hdr (addr - 32) (\<lambda>x. x\<lparr>bh_next_hole := bh_next_hole (hs_hdr h (addr - 32))\<rparr>)
      (upd_hdr (addr - 32) (\<lambda>x. x\<lparr>bh_is_hole := True\<rparr>) h)))" (is "_ = Inr ?h1")
proof -
  have "merge_next (addr - 32) ?h1 = ?h1" using assms(8,9) by (simp add: merge_next_def Let_def)
  moreover have "merge_prev (addr - 32) ?h1 = ?h1" using assms(6) by (simp add: merge_prev_def Let_def)
  moreover have "\<not> hs_end h < addr" "\<not> addr < hs_base_addr h" using assms(2,3) by (simp_all add: not_less)
  ultimately show ?thesis
    using assms(1,4,5,7) by (simp add: kfree_def get_block_header_addr_def Let_def)
qed

lemma kfree_cycle:
  assumes "addr \<noteq> 0" and "hs_base_addr h \<le> addr" and "addr \<le> hs_end h" and "hs_base_block h < addr - 32"
    and "bh_magic (hs_hdr h (addr - 32)) = BLOCK_HEADER_MAGIC_NUM" and "hs_base_block h \<noteq> 0"
    and "bh_next_hole (hs_hdr h (hs_base_block h)) = hs_base_block h"
  shows "kfree addr h = Inl Diverges"
proof -
  let ?h1 = "upd_hdr (addr - 32) (\<lambda>x. x\<lparr>bh_is_hole := True\<rparr>) h"
  have n: "bh_next_hole (hs_hdr ?h1 (hs_base_block h)) = hs_base_block h" using assms(4,7) by auto
  have f: "find_prev_hole ?h1 (addr - 32) (hs_base_block h) = None"
    by (rule find_prev_hole_cycle [OF assms(6) n assms(4)])
  moreover have "\<not> hs_end h < addr" "\<not> addr < hs_base_addr h" using assms(2,3) by (simp_all add: not_less)
  moreover have "\<not> hs_base_block h > addr - 32" using assms(4) by simp
  ultimately show ?thesis using assms(1,5) n
    unfolding kfree_def get_block_header_addr_def Let_def by (simp del: upd_hdr_simps(1))
qed

text \<open>
  C34. Releasing the first block of the heap while the block behind it is in use makes the list of holes
  circular: the block becomes its own successor, and the next release of any block never ends.
\<close>

theorem free_first_block_hangs:
  fixes h :: "'e heap_state"
  assumes "b \<noteq> 0" and "hs_base_block h = b" and "hs_base_addr h = b" and "b < b + 32" and "b + 32 \<le> hs_end h"
    and "bh_magic (hs_hdr h b) = BLOCK_HEADER_MAGIC_NUM" and "bh_prev (hs_hdr h b) = 0" and "bh_next_hole (hs_hdr h b) > b"
    and "\<not> bh_is_hole (hs_hdr h (bh_next (hs_hdr h b)))" and "bh_next (hs_hdr h b) \<noteq> b"
    and "bh_magic (hs_hdr h (a - 32)) = BLOCK_HEADER_MAGIC_NUM" and "b < a - 32" and "b \<le> a" and "a \<le> hs_end h"
  shows "\<exists>h1. kfree (b + 32) h = Inr h1 \<and> bh_next_hole (hs_hdr h1 b) = b \<and> kfree a h1 = Inl Diverges"
proof -
  have nz: "b + 32 \<noteq> 0" "a \<noteq> 0" "a - 32 \<noteq> b" "b \<le> b + 32"
    using assms(1,4,12,13) by auto
  let ?h1 = "upd_hdr b (\<lambda>x. x\<lparr>bh_next_hole := b\<rparr>)
    (upd_hdr b (\<lambda>x. x\<lparr>bh_next_hole := bh_next_hole (hs_hdr h b)\<rparr>) (upd_hdr b (\<lambda>x. x\<lparr>bh_is_hole := True\<rparr>) h))"
  have "kfree (b + 32) h = Inr ?h1" using kfree_first_hole [of "b + 32" h] assms nz by simp
  moreover have "kfree a ?h1 = Inl Diverges" using assms nz by (intro kfree_cycle) simp_all
  ultimately show ?thesis by simp
qed

text \<open>This is what happens in \<open>allocator_test\<close> on a fresh heap.\<close>

theorem free_first_block_hangs_witness: "allocator_test mm_ok heap_4mb = Inl Diverges"
proof -
  let ?pre = "bindE (alloc_test mm_ok 8 heap_4mb) (\<lambda>(p1, h). bindE (alloc_test mm_ok 16 h) (\<lambda>(p2, h).
    bindE (alloc_test mm_ok 8 h) (\<lambda>(p3, h). bindE (kfree p2 h) (\<lambda>h. bindE (alloc_test mm_ok 8 h) (\<lambda>(p4, h). Inr (p1, p3, p4, h))))))"
  have "case ?pre of Inl _ \<Rightarrow> False | Inr (p1, p3, p4, h) \<Rightarrow>
      p1 = 0xC0800020 \<and> p4 = 0xC0800050 \<and> hs_base_block h = 0xC0800000 \<and> hs_base_addr h = 0xC0800000 \<and>
      hs_end h = 0xC0C00000 \<and> bh_magic (hs_hdr h 0xC0800000) = BLOCK_HEADER_MAGIC_NUM \<and> bh_prev (hs_hdr h 0xC0800000) = 0 \<and>
      bh_next_hole (hs_hdr h 0xC0800000) > 0xC0800000 \<and> bh_next (hs_hdr h 0xC0800000) = 0xC0800030 \<and>
      \<not> bh_is_hole (hs_hdr h 0xC0800030) \<and> bh_magic (hs_hdr h 0xC0800030) = BLOCK_HEADER_MAGIC_NUM"
    by code_simp
  then obtain p1 p3 p4 h where h: "?pre = Inr (p1, p3, p4, h)" "p1 = 0xC0800020" "p4 = 0xC0800050"
      "hs_base_block h = 0xC0800000" "hs_base_addr h = 0xC0800000"
      "hs_end h = 0xC0C00000" "bh_magic (hs_hdr h 0xC0800000) = BLOCK_HEADER_MAGIC_NUM" "bh_prev (hs_hdr h 0xC0800000) = 0"
      "bh_next_hole (hs_hdr h 0xC0800000) > 0xC0800000" "bh_next (hs_hdr h 0xC0800000) = 0xC0800030"
      "\<not> bh_is_hole (hs_hdr h 0xC0800030)" "bh_magic (hs_hdr h 0xC0800030) = BLOCK_HEADER_MAGIC_NUM"
    by (auto split: sum.splits)
  obtain h1 where h1: "kfree 0xC0800020 h = Inr h1" "kfree 0xC0800050 h1 = Inl Diverges"
    using free_first_block_hangs [of "0xC0800000" h "0xC0800050"] h by auto
  show ?thesis
    using h(1) unfolding h(2,3) using h1 by (auto simp: allocator_test_def bindE_Inr_iff)
qed

section \<open>The frame allocator\<close>

text \<open>
  The frames go to an array of eight words on the stack at \<open>af\<close>, whatever their number; a search that never ends is
  \<open>Diverges\<close>. After an error the test returns like after a success.
\<close>

definition fa_test :: "u32 \<Rightarrow> u32 \<Rightarrow> frame_state \<Rightarrow> fault + frame_state" where
  "fa_test siz af s =
     (case find_alloc_nframes siz af 3 s of
        None \<Rightarrow> Inl Diverges
      | Some (ret, out, s) \<Rightarrow> if length out > 8 then Inl OutOfBounds else Inr s)"

declare find_frame_scan.simps [code]

lemma fa_test_sizes:
  "(case fa_test 8 0xC0100000 fresh_frames of Inl _ \<Rightarrow> False | Inr s \<Rightarrow> fs_frames s 0 \<noteq> 0)"
  "(case fa_test 16 0xC0100000 fresh_frames of Inl f \<Rightarrow> f = OutOfBounds | Inr _ \<Rightarrow> False)"
  by code_simp+

end
