(* ===== verification/Machine.thy ===== *)
theory Machine
  imports Kernel_Prelude "HOL-Library.Monad_Syntax" "HOL-Library.While_Combinator"
begin

text \<open>
  The machine that the device drivers run on: port input and output (\<open>src/lib/lkern.c\<close>), the console
  messages, and the static variables of the drivers and of the interrupt tables, as one record.

  The hardware is a parameter, the record \<open>bus\<close>: what a port read returns, what a port write changes, and
  which interrupts arrive while the processor is halted, over a device state \<open>'d\<close>. Every access is
  appended to a trace, so that the order of the accesses can be stated. A driver function that always
  returns is a function on the kernel state; one that may wait forever, or that leaves the bounds of an
  array, returns an option, \<open>None\<close> when it does not return properly. The console output of a driver is
  one trace event with the format string.
\<close>

section \<open>Devices and the trace\<close>

text \<open>
  The width of an access is given in bytes. \<open>bus_hlt\<close> gives the interrupts that arrive until the halted
  processor goes on, each with its number and the interrupted instruction address.
\<close>

record 'd bus =
  bus_in :: "nat \<Rightarrow> u16 \<Rightarrow> 'd \<Rightarrow> u32 \<times> 'd"
  bus_out :: "nat \<Rightarrow> u16 \<Rightarrow> u32 \<Rightarrow> 'd \<Rightarrow> 'd"
  bus_hlt :: "'d \<Rightarrow> (u8 \<times> u32) list \<times> 'd"
  bus_flags :: "'d \<Rightarrow> u32"
  bus_isr_table :: "u8 \<Rightarrow> u32"

datatype event =
    Inb u16 u8 | Outb u16 u8
  | Inw u16 u16 | Outw u16 u16
  | Inlong u16 u32 | Outl u16 u32
  | Klog string
  | Callback u32 u32
  | Cli | Sti | RestoreFlags u32 | Hlt | LoadIdt | PageFault | Syscall

text \<open>The handlers of the interrupt table, by the name of their function.\<close>

datatype handler =
    NoHandler | Void_handler | Invalid_opcode | Spurious_handler | Invalid_tss | Gp_fault
  | Pit_handler | Kbd_interrupt | Ps2_handler | Serial_interrupt | Floppy_handler | Rtl_handler
  | Page_fault_handler | Scall_wrapper

record idt_entry =
  isr_low :: u16
  idt_cs :: u16
  idt_reserved :: u8
  idt_attributes :: u8
  isr_high :: u16

record pci_dev_data =
  pd_bus :: u8
  pd_dev :: u8
  pd_irq :: u8
  pd_io_addr :: u16

text \<open>
  An entry of the list \<open>pci_devices\<close>. The function \<open>dev_init\<close> is a name; 1 stands for \<open>rtl8139_init\<close>.
\<close>

record pci_dev =
  pci_dev_init :: u32
  pci_device_id :: u32
  pci_data :: pci_dev_data

section \<open>Kernel state\<close>

record 'd kst =
  k_dev :: 'd
  k_trace :: "event list"
  k_idt :: "u8 \<Rightarrow> idt_entry"
  k_isr_handlers :: "u8 \<Rightarrow> handler"
  k_int_count :: u32
  k_last_eip :: u32
  k_cached_mask :: u16
  k_tick :: u32
  k_pit_freq :: u32
  k_kbd_buf :: u32
  k_receiver_f :: "nat \<Rightarrow> u32"
  k_receiver_num :: u32
  k_write_buf :: "nat \<Rightarrow> u8"
  k_read_buf :: "nat \<Rightarrow> u8"
  k_write_pos :: u32
  k_read_pos :: u32
  k_cur_pos :: u32
  k_time_mode :: u32
  k_floppy_drive :: u8
  k_floppy_base :: u16
  k_floppy_irq_tick :: u32
  k_floppy_type :: "nat \<Rightarrow> u8"
  k_rtl_dev :: pci_dev_data
  k_rtl_rx_buffer :: u32
  k_tx_d :: u8
  k_pci_devices :: "pci_dev list"

definition trace_event :: "event \<Rightarrow> 'd kst \<Rightarrow> 'd kst" where
  "trace_event e s = s\<lparr>k_trace := k_trace s @ [e]\<rparr>"

definition klog :: "string \<Rightarrow> 'd kst \<Rightarrow> 'd kst" where
  "klog msg s = trace_event (Klog msg) s"

section \<open>Ports\<close>

definition outb :: "'d bus \<Rightarrow> u16 \<Rightarrow> u8 \<Rightarrow> 'd kst \<Rightarrow> 'd kst" where
  "outb b port val s = trace_event (Outb port val) (s\<lparr>k_dev := bus_out b 1 port (ucast val) (k_dev s)\<rparr>)"

definition inb :: "'d bus \<Rightarrow> u16 \<Rightarrow> 'd kst \<Rightarrow> u8 \<times> 'd kst" where
  "inb b port s = (let (v, d) = bus_in b 1 port (k_dev s); r = ucast v
                   in (r, trace_event (Inb port r) (s\<lparr>k_dev := d\<rparr>)))"

definition outw :: "'d bus \<Rightarrow> u16 \<Rightarrow> u16 \<Rightarrow> 'd kst \<Rightarrow> 'd kst" where
  "outw b port val s = trace_event (Outw port val) (s\<lparr>k_dev := bus_out b 2 port (ucast val) (k_dev s)\<rparr>)"

definition inw :: "'d bus \<Rightarrow> u16 \<Rightarrow> 'd kst \<Rightarrow> u16 \<times> 'd kst" where
  "inw b port s = (let (v, d) = bus_in b 2 port (k_dev s); r = ucast v
                   in (r, trace_event (Inw port r) (s\<lparr>k_dev := d\<rparr>)))"

definition outl :: "'d bus \<Rightarrow> u16 \<Rightarrow> u32 \<Rightarrow> 'd kst \<Rightarrow> 'd kst" where
  "outl b port val s = trace_event (Outl port val) (s\<lparr>k_dev := bus_out b 4 port val (k_dev s)\<rparr>)"

definition inl :: "'d bus \<Rightarrow> u16 \<Rightarrow> 'd kst \<Rightarrow> u32 \<times> 'd kst" where
  "inl b port s = (let (v, d) = bus_in b 4 port (k_dev s)
                   in (v, trace_event (Inlong port v) (s\<lparr>k_dev := d\<rparr>)))"

definition io_wait :: "'d bus \<Rightarrow> 'd kst \<Rightarrow> 'd kst" where
  "io_wait b s = outb b 0x80 0 s"

text \<open>
  Waiting loops. \<open>wait_loop c b s\<close> is \<open>while (c) b;\<close> where the condition itself reads ports: it returns the
  state after the evaluation of the condition that ends the loop, \<open>None\<close> when there is none.
\<close>

definition wait_loop :: "('s \<Rightarrow> bool \<times> 's) \<Rightarrow> ('s \<Rightarrow> 's) \<Rightarrow> 's \<Rightarrow> 's option" where
  "wait_loop c b s = map_option snd (while_option fst (\<lambda>(_, s). c (b s)) (c s))"

lemmas io_defs = outb_def inb_def outw_def inw_def outl_def inl_def io_wait_def klog_def trace_event_def Let_def

subsection \<open>Facts on accesses\<close>

lemma trace_event_simps [simp]:
  "k_dev (trace_event e s) = k_dev s" "k_trace (trace_event e s) = k_trace s @ [e]"
  by (simp_all add: trace_event_def)

text \<open>Output and messages change the device and the trace only.\<close>

lemma out_frame [simp]:
  "k_cached_mask (outb b p v s) = k_cached_mask s" "k_tick (outb b p v s) = k_tick s"
  "k_isr_handlers (outb b p v s) = k_isr_handlers s" "k_pit_freq (outb b p v s) = k_pit_freq s"
  "k_tick (klog m s) = k_tick s" "k_isr_handlers (klog m s) = k_isr_handlers s"
  "k_cached_mask (klog m s) = k_cached_mask s" "k_pit_freq (klog m s) = k_pit_freq s"
  by (simp_all add: io_defs)

lemma out_trace [simp]:
  "k_trace (outb b p v s) = k_trace s @ [Outb p v]" "k_trace (outw b p w s) = k_trace s @ [Outw p w]"
  "k_trace (outl b p x s) = k_trace s @ [Outl p x]" "k_trace (io_wait b s) = k_trace s @ [Outb 0x80 0]"
  "k_trace (klog m s) = k_trace s @ [Klog m]"
  by (simp_all add: io_defs)

lemma wait_loop_done: "c s = (False, s') \<Longrightarrow> wait_loop c b s = Some s'"
  by (simp add: wait_loop_def while_option_unfold)

lemma wait_loop_step: "c s = (True, s') \<Longrightarrow> wait_loop c b s = wait_loop c b (b s')"
  unfolding wait_loop_def by (subst while_option_unfold) simp

section \<open>A concrete machine\<close>

text \<open>
  A machine whose reads follow a script: the device state is the list of the values still to be read
  (0 when it is empty), and the timer interrupt arrives once per halt.
\<close>

definition script_bus :: "u32 list bus" where
  "script_bus = \<lparr>bus_in = (\<lambda>_ _ d. (case d of [] \<Rightarrow> (0, []) | v # d \<Rightarrow> (v, d))), bus_out = (\<lambda>_ _ _ d. d),
     bus_hlt = (\<lambda>d. ([(0x20, 0)], d)), bus_flags = (\<lambda>_. 0), bus_isr_table = (\<lambda>n. 0x100000 + 16 * ucast n)\<rparr>"

definition kst_script :: "u32 list \<Rightarrow> u32 list kst" where
  "kst_script d = \<lparr>k_dev = d, k_trace = [],
     k_idt = (\<lambda>_. \<lparr>isr_low = 0, idt_cs = 0, idt_reserved = 0, idt_attributes = 0, isr_high = 0\<rparr>),
     k_isr_handlers = (\<lambda>_. NoHandler), k_int_count = 0, k_last_eip = 0, k_cached_mask = 0, k_tick = 0,
     k_pit_freq = 1000, k_kbd_buf = 0, k_receiver_f = (\<lambda>_. 0), k_receiver_num = 0, k_write_buf = (\<lambda>_. 0),
     k_read_buf = (\<lambda>_. 0), k_write_pos = 0, k_read_pos = 0, k_cur_pos = 0, k_time_mode = 0,
     k_floppy_drive = 0, k_floppy_base = 0x3F0, k_floppy_irq_tick = 0, k_floppy_type = (\<lambda>_. 0),
     k_rtl_dev = \<lparr>pd_bus = 0, pd_dev = 0, pd_irq = 0, pd_io_addr = 0\<rparr>, k_rtl_rx_buffer = 0, k_tx_d = 0,
     k_pci_devices = []\<rparr>"

end
