(* ===== verification/Interrupts.thy ===== *)
theory Interrupts
  imports Machine
begin

text \<open>
  The interrupt path: the two interrupt controllers (\<open>src/drivers/pic.c\<close>), the descriptor and handler
  tables and the common interrupt entry (\<open>src/kernel/int.c\<close>), the exception handlers
  (\<open>src/kernel/exceptions.c\<close>), and the handlers of the devices: timer, keyboard (\<open>src/drivers/keyboard.c\<close>,
  \<open>src/drivers/ps2.c\<close>), serial port, floppy controller and network card.
\<close>

section \<open>Interrupt controllers\<close>

abbreviation PIC1_COMMAND :: u16 where "PIC1_COMMAND \<equiv> 0x20"
abbreviation PIC1_DATA :: u16 where "PIC1_DATA \<equiv> 0x21"
abbreviation PIC2_COMMAND :: u16 where "PIC2_COMMAND \<equiv> 0xA0"
abbreviation PIC2_DATA :: u16 where "PIC2_DATA \<equiv> 0xA1"
abbreviation PIC_EOI :: u8 where "PIC_EOI \<equiv> 0x20"
abbreviation PIC1_REMAP :: u8 where "PIC1_REMAP \<equiv> 0x20"
abbreviation PIC2_REMAP :: u8 where "PIC2_REMAP \<equiv> 0x28"

definition ICW1 :: u8 where
  "ICW1 = ((push_bit 4 1 OR 1) AND NOT (push_bit 1 1)) AND NOT (push_bit 2 1)"

definition outb_wait :: "'d bus \<Rightarrow> u16 \<Rightarrow> u8 \<Rightarrow> 'd kst \<Rightarrow> 'd kst" where
  "outb_wait b port val s = io_wait b (outb b port val s)"

definition pic_remap :: "'d bus \<Rightarrow> u16 \<Rightarrow> u16 \<Rightarrow> bool \<Rightarrow> 'd kst \<Rightarrow> 'd kst" where
  "pic_remap b master_offset slave_offset auto_eoi s =
     (let (master_mask, s) = inb b PIC1_DATA s;
          (slave_mask, s) = inb b PIC2_DATA s;
          s = outb_wait b PIC1_COMMAND ICW1 s;
          s = outb_wait b PIC2_COMMAND ICW1 s;
          s = outb_wait b PIC1_DATA (ucast master_offset) s;
          s = outb_wait b PIC2_DATA (ucast slave_offset) s;
          s = outb_wait b PIC1_DATA 4 s;
          s = outb_wait b PIC2_DATA 2 s;
          icw4 = (if auto_eoi then 1 OR 2 else 1);
          s = outb_wait b PIC1_DATA icw4 s;
          s = outb_wait b PIC2_DATA icw4 s;
          s = outb b PIC1_DATA master_mask s
      in outb b PIC2_DATA slave_mask s)"

definition pic_get_irq_reg :: "'d bus \<Rightarrow> u8 \<Rightarrow> 'd kst \<Rightarrow> u16 \<times> 'd kst" where
  "pic_get_irq_reg b ocw3 s =
     (let s = outb b PIC1_COMMAND (8 OR ocw3) s;
          s = outb b PIC2_COMMAND (8 OR ocw3) s;
          (hi, s) = inb b PIC2_COMMAND s;
          (lo, s) = inb b PIC1_COMMAND s
      in (push_bit 8 (ucast hi) OR ucast lo, s))"

definition pic_get_irr :: "'d bus \<Rightarrow> 'd kst \<Rightarrow> u16 \<times> 'd kst" where
  "pic_get_irr b s = pic_get_irq_reg b 2 s"

definition pic_get_isr :: "'d bus \<Rightarrow> 'd kst \<Rightarrow> u16 \<times> 'd kst" where
  "pic_get_isr b s = pic_get_irq_reg b 3 s"

text \<open>\<open>value\<close> is a \<open>uint8_t\<close>: the new mask is cut to 8 bits before it is cached.\<close>

definition pic_mask :: "'d bus \<Rightarrow> u8 \<Rightarrow> 'd kst \<Rightarrow> 'd kst" where
  "pic_mask b irq s =
     (let (port, irq) = (if irq \<ge> 8 then (PIC2_DATA, irq - 8) else (PIC1_DATA, irq));
          val = ucast (ucast (k_cached_mask s) OR shl32 1 (ucast irq)) :: u8
      in outb b port val (s\<lparr>k_cached_mask := ucast val\<rparr>))"

definition pic_mask_set :: "'d bus \<Rightarrow> u16 \<Rightarrow> 'd kst \<Rightarrow> 'd kst" where
  "pic_mask_set b msk s =
     outb b PIC2_DATA (ucast (drop_bit 8 msk AND 0xFF))
       (outb b PIC1_DATA (ucast (msk AND 0xFF)) (s\<lparr>k_cached_mask := msk\<rparr>))"

definition pic_mask_clear :: "'d bus \<Rightarrow> u16 \<Rightarrow> 'd kst \<Rightarrow> 'd kst" where
  "pic_mask_clear b msk s =
     outb b PIC2_DATA (ucast (NOT (drop_bit 8 msk AND 0xFF)))
       (outb b PIC1_DATA (ucast (NOT (msk AND 0xFF))) (s\<lparr>k_cached_mask := msk\<rparr>))"

definition pic_mask_all :: "'d bus \<Rightarrow> 'd kst \<Rightarrow> 'd kst" where
  "pic_mask_all b s = pic_mask_set b 0xFFFF s"

definition pic_unmask :: "'d bus \<Rightarrow> u8 \<Rightarrow> 'd kst \<Rightarrow> 'd kst" where
  "pic_unmask b irq s =
     (let (port, irq) = (if irq \<ge> 8 then (PIC2_DATA, irq - 8) else (PIC1_DATA, irq));
          val = ucast (ucast (k_cached_mask s) AND NOT (shl32 1 (ucast irq))) :: u8
      in outb b port val (s\<lparr>k_cached_mask := ucast val\<rparr>))"

definition pic_eoi :: "'d bus \<Rightarrow> u8 \<Rightarrow> 'd kst \<Rightarrow> 'd kst" where
  "pic_eoi b int_id s =
     outb b PIC1_COMMAND PIC_EOI (if int_id \<ge> PIC2_REMAP then outb b PIC2_COMMAND PIC_EOI s else s)"

definition pic_init :: "'d bus \<Rightarrow> u16 \<Rightarrow> bool \<Rightarrow> 'd kst \<Rightarrow> 'd kst" where
  "pic_init b msk auto_eoi s =
     (let s = pic_mask_all b (pic_remap b (ucast PIC1_REMAP) (ucast PIC2_REMAP) auto_eoi s)
      in if msk \<noteq> 0 then pic_mask_clear b msk s else s)"

section \<open>Descriptor and handler tables\<close>

abbreviation IDTD_DEFAULT :: u8 where "IDTD_DEFAULT \<equiv> 0x8E"
abbreviation IDTD_RING3 :: u8 where "IDTD_RING3 \<equiv> 0x60"

definition idt_set_entry :: "u8 \<Rightarrow> u32 \<Rightarrow> u8 \<Rightarrow> 'd kst \<Rightarrow> 'd kst" where
  "idt_set_entry idt_id isr flags s =
     s\<lparr>k_idt := (k_idt s)(idt_id :=
        \<lparr>isr_low = ucast (isr AND 0xFFFF), idt_cs = 0x08, idt_reserved = 0, idt_attributes = flags,
         isr_high = ucast (drop_bit 16 isr)\<rparr>)\<rparr>"

definition add_irq_handler :: "'d bus \<Rightarrow> u8 \<Rightarrow> handler \<Rightarrow> 'd kst \<Rightarrow> 'd kst" where
  "add_irq_handler b irq_num h s =
     (let int_num = PIC1_REMAP + irq_num;
          s = (if k_isr_handlers s int_num \<noteq> NoHandler then klog ''Redefining irq handler'' s else s)
      in pic_unmask b irq_num (s\<lparr>k_isr_handlers := (k_isr_handlers s)(int_num := h)\<rparr>))"

definition add_isr_handler :: "'d bus \<Rightarrow> u8 \<Rightarrow> handler \<Rightarrow> u8 \<Rightarrow> 'd kst \<Rightarrow> int \<times> 'd kst" where
  "add_isr_handler b int_num h flags s =
     (let s = (if k_isr_handlers s int_num \<noteq> NoHandler then klog ''Redefining isr handler'' s else s);
          s = s\<lparr>k_isr_handlers := (k_isr_handlers s)(int_num := h)\<rparr>
      in (0, if flags \<noteq> 0 then idt_set_entry int_num (bus_isr_table b int_num) (flags OR IDTD_DEFAULT) s
             else s))"

definition exception_handlers_init :: "'d bus \<Rightarrow> 'd kst \<Rightarrow> 'd kst" where
  "exception_handlers_init b s =
     foldl (\<lambda>s (n, h). snd (add_isr_handler b n h 0 s)) s
       [(6, Invalid_opcode), (7, Spurious_handler), (10, Invalid_tss), (13, Gp_fault)]"

definition idt_default :: "'d bus \<Rightarrow> 'd kst \<Rightarrow> nat \<Rightarrow> 'd kst" where
  "idt_default b s i =
     (let s = idt_set_entry (word_of_nat i) (bus_isr_table b (word_of_nat i)) IDTD_DEFAULT s
      in s\<lparr>k_isr_handlers := (k_isr_handlers s)(word_of_nat i := Void_handler)\<rparr>)"

definition idt_init :: "'d bus \<Rightarrow> 'd kst \<Rightarrow> int \<times> 'd kst" where
  "idt_init b s =
     (let s = foldl (idt_default b) s [0..<255];
          s = trace_event LoadIdt s;
          s = pic_init b 0 False s;
          s = exception_handlers_init b s;
          s = trace_event Sti s
      in (0, klog ''Interrupts enabled'' s))"

definition disable_int :: "'d bus \<Rightarrow> 'd kst \<Rightarrow> u32 \<times> 'd kst" where
  "disable_int b s = (bus_flags b (k_dev s), trace_event Cli s)"

definition recover_int :: "u32 \<Rightarrow> 'd kst \<Rightarrow> 'd kst" where
  "recover_int cflags s = trace_event (RestoreFlags cflags) s"

section \<open>Handlers\<close>

definition general_handler :: "u32 \<Rightarrow> string \<Rightarrow> 'd kst \<Rightarrow> 'd kst" where
  "general_handler eip msg s =
     (if k_last_eip s = eip then s else klog msg (s\<lparr>k_last_eip := eip\<rparr>))"

definition void_handler :: "u32 \<Rightarrow> 'd kst \<Rightarrow> 'd kst" where
  "void_handler eip s = general_handler eip ''Unknown interrupt: '' s"

definition gp_fault :: "u32 \<Rightarrow> 'd kst \<Rightarrow> 'd kst" where
  "gp_fault eip s = general_handler eip ''Protection fault'' s"

definition invalid_tss_handler :: "u32 \<Rightarrow> 'd kst \<Rightarrow> 'd kst" where
  "invalid_tss_handler eip s = general_handler eip ''Invalid TSS'' s"

definition invalid_opcode :: "u32 \<Rightarrow> 'd kst \<Rightarrow> 'd kst" where
  "invalid_opcode eip s = general_handler eip ''Invalid opcode'' s"

definition spurious_handler :: "u32 \<Rightarrow> 'd kst \<Rightarrow> 'd kst" where
  "spurious_handler eip s = general_handler eip ''Spuriours interrupt'' s"

definition pit_handler :: "'d kst \<Rightarrow> 'd kst" where
  "pit_handler s = s\<lparr>k_tick := k_tick s + 1\<rparr>"

definition floppy_handler :: "'d kst \<Rightarrow> 'd kst" where
  "floppy_handler s = (klog ''Floppy'' s)\<lparr>k_floppy_irq_tick := k_floppy_irq_tick s + 1\<rparr>"

text \<open>The console is not part of the trace beyond its messages: \<open>fb_print_black\<close> is one as well.\<close>

definition ps2_handler :: "'d bus \<Rightarrow> 'd kst \<Rightarrow> 'd kst" where
  "ps2_handler b s = snd (inb b 0x64 (klog ''mouse'' s))"

definition ps2_read_status :: "'d bus \<Rightarrow> 'd kst \<Rightarrow> u8 \<times> 'd kst" where
  "ps2_read_status b s = inb b 0x64 s"

definition ps2_read_data :: "'d bus \<Rightarrow> 'd kst \<Rightarrow> u8 \<times> 'd kst" where
  "ps2_read_data b s = inb b 0x60 s"

subsection \<open>Keyboard\<close>

text \<open>
  The table of the 128 scan codes: character codes, 27 escape, 8 backspace, 344 and 345 the arrows,
  127 delete.
\<close>

definition kbd_US :: "u32 list" where
  "kbd_US =
     [0, 27] @ map (word_of_nat \<circ> of_char) ''1234567890-='' @ [8, 9] @
     map (word_of_nat \<circ> of_char) ''qwertyuiop[]'' @ [10, 0] @
     map (word_of_nat \<circ> of_char) ''asdfghjkl;'' @ [39, 96, 0, 92] @
     map (word_of_nat \<circ> of_char) ''zxcvbnm,./'' @ [0, 42, 0, 32, 0, 0] @
     replicate 9 0 @ [0, 0, 0, 344, 0, 45, 0, 0, 0, 43, 0, 345, 0, 0, 127] @ replicate 44 0"

definition read_scan_code :: "'d bus \<Rightarrow> 'd kst \<Rightarrow> (u32 \<times> 'd kst) option" where
  "read_scan_code b s =
     (let (c, s) = ps2_read_data b s
      in if unat c < length kbd_US then Some (kbd_US ! unat c, s) else None)"

definition kbd_add_receiver :: "u32 \<Rightarrow> 'd kst \<Rightarrow> 'd kst option" where
  "kbd_add_receiver f s =
     (if k_receiver_num s < 256
      then Some (s\<lparr>k_receiver_f := (k_receiver_f s)(unat (k_receiver_num s) := f),
                   k_receiver_num := k_receiver_num s + 1\<rparr>)
      else None)"

text \<open>The receivers up to the first empty entry are called; the array has 256 entries.\<close>

fun call_receivers :: "u32 \<Rightarrow> nat list \<Rightarrow> 'd kst \<Rightarrow> 'd kst option" where
  "call_receivers keycode [] s = None"
| "call_receivers keycode (r # rs) s =
     (if k_receiver_f s r = 0 then Some s
      else call_receivers keycode rs (trace_event (Callback (k_receiver_f s r) keycode) s))"

definition kbd_interrupt :: "'d bus \<Rightarrow> 'd kst \<Rightarrow> 'd kst option" where
  "kbd_interrupt b s =
     (let (stat, s) = ps2_read_status b s in
      if stat AND 1 \<noteq> 0
      then do {
        (keycode, s) \<leftarrow> read_scan_code b s;
        if keycode \<noteq> 0 \<and> keycode < 512
        then call_receivers keycode [0..<256] (s\<lparr>k_kbd_buf := keycode\<rparr>)
        else Some s
      }
      else Some s)"

definition kbd_read :: "'d kst \<Rightarrow> u32" where
  "kbd_read s = k_kbd_buf s"

definition kbd_init :: "'d bus \<Rightarrow> 'd kst \<Rightarrow> 'd kst" where
  "kbd_init b s = klog ''Keyboard interrupts actived'' (add_irq_handler b 1 Kbd_interrupt s)"

subsection \<open>Serial port and network card\<close>

definition rx_ready :: "'d bus \<Rightarrow> u16 \<Rightarrow> 'd kst \<Rightarrow> bool \<times> 'd kst" where
  "rx_ready b port s = (let (v, s) = inb b (port + 5) s in (v AND 1 \<noteq> 0, s))"

definition tx_free :: "'d bus \<Rightarrow> u16 \<Rightarrow> 'd kst \<Rightarrow> bool \<times> 'd kst" where
  "tx_free b port s = (let (v, s) = inb b (port + 5) s in (v AND 32 \<noteq> 0, s))"

definition serial_send :: "'d bus \<Rightarrow> u16 \<Rightarrow> u8 \<Rightarrow> 'd kst \<Rightarrow> 'd kst" where
  "serial_send b port d s = outb b (port + 0) d s"

definition serial_read :: "'d bus \<Rightarrow> u16 \<Rightarrow> 'd kst \<Rightarrow> u8 \<times> 'd kst" where
  "serial_read b port s = inb b (port + 0) s"

abbreviation COM1 :: u16 where "COM1 \<equiv> 0x3F8"

text \<open>\<open>write_buf\<close> and \<open>read_buf\<close> have 1024 bytes.\<close>

definition serial_interrupt :: "'d bus \<Rightarrow> 'd kst \<Rightarrow> 'd kst option" where
  "serial_interrupt b s = do {
     s \<leftarrow> (let (free, s) = tx_free b COM1 s in
           if free \<and> k_cur_pos s \<noteq> k_write_pos s
           then if k_cur_pos s < 1024
                then Some (serial_send b COM1 (k_write_buf s (unat (k_cur_pos s))) (s\<lparr>k_cur_pos := k_cur_pos s + 1\<rparr>))
                else None
           else Some s);
     let (ready, s) = rx_ready b COM1 s in
     if ready
     then if k_read_pos s < 1024
          then let pos = k_read_pos s; (v, s) = serial_read b COM1 (s\<lparr>k_read_pos := pos + 1\<rparr>)
               in Some (s\<lparr>k_read_buf := (k_read_buf s)(unat pos := v)\<rparr>)
          else None
     else Some s
   }"

text \<open>The register of the interrupts of the network card and its bits for a packet received and sent.\<close>

abbreviation RTL_ISR :: u16 where "RTL_ISR \<equiv> 0x3E"
abbreviation ISR_ROK :: u16 where "ISR_ROK \<equiv> 1"
abbreviation ISR_TOK :: u16 where "ISR_TOK \<equiv> 4"

definition rtl_handler :: "'d bus \<Rightarrow> 'd kst \<Rightarrow> 'd kst" where
  "rtl_handler b s =
     (let io_addr = pd_io_addr (k_rtl_dev s);
          (isr, s) = inw b (io_addr + RTL_ISR) (klog ''RTL isr'' s);
          s = (if isr AND ISR_ROK \<noteq> 0 then outw b (io_addr + RTL_ISR) ISR_ROK s else s)
      in if isr AND ISR_TOK \<noteq> 0 then outw b (io_addr + RTL_ISR) ISR_TOK s else s)"

section \<open>Common entry\<close>

text \<open>
  The page fault handler and the system call entry belong to other components; their calls are events.
\<close>

definition call_handler :: "'d bus \<Rightarrow> handler \<Rightarrow> u32 \<Rightarrow> 'd kst \<Rightarrow> 'd kst option" where
  "call_handler b h eip s =
     (case h of
        NoHandler \<Rightarrow> None
      | Void_handler \<Rightarrow> Some (void_handler eip s)
      | Invalid_opcode \<Rightarrow> Some (invalid_opcode eip s)
      | Spurious_handler \<Rightarrow> Some (spurious_handler eip s)
      | Invalid_tss \<Rightarrow> Some (invalid_tss_handler eip s)
      | Gp_fault \<Rightarrow> Some (gp_fault eip s)
      | Pit_handler \<Rightarrow> Some (pit_handler s)
      | Kbd_interrupt \<Rightarrow> kbd_interrupt b s
      | Ps2_handler \<Rightarrow> Some (ps2_handler b s)
      | Serial_interrupt \<Rightarrow> serial_interrupt b s
      | Floppy_handler \<Rightarrow> Some (floppy_handler s)
      | Rtl_handler \<Rightarrow> Some (rtl_handler b s)
      | Page_fault_handler \<Rightarrow> Some (trace_event PageFault s)
      | Scall_wrapper \<Rightarrow> Some (trace_event Syscall s))"

definition isr_x86 :: "'d bus \<Rightarrow> u8 \<Rightarrow> u32 \<Rightarrow> 'd kst \<Rightarrow> 'd kst option" where
  "isr_x86 b int_num eip s =
     (let s = pic_eoi b int_num s;
          s = (if int_num = 33 then klog ''Eip: %x'' s else s);
          s = s\<lparr>k_int_count := k_int_count s + 1\<rparr>
      in call_handler b (k_isr_handlers s int_num) eip s)"

section \<open>Frame facts\<close>

lemma pic_frame [simp]:
  "k_isr_handlers (pic_unmask b i s) = k_isr_handlers s" "k_idt (pic_unmask b i s) = k_idt s"
  "k_isr_handlers (pic_init b m e s) = k_isr_handlers s" "k_idt (pic_init b m e s) = k_idt s"
  "k_isr_handlers (pic_eoi b n s) = k_isr_handlers s" "k_tick (pic_eoi b n s) = k_tick s"
  "k_pit_freq (pic_eoi b n s) = k_pit_freq s"
  by (simp_all add: pic_unmask_def pic_init_def pic_remap_def outb_wait_def pic_mask_all_def pic_mask_set_def
      pic_mask_clear_def pic_eoi_def io_defs case_prod_unfold)

lemma handler_frame [simp]:
  "k_isr_handlers (trace_event e s) = k_isr_handlers s" "k_idt (trace_event e s) = k_idt s"
  "k_idt (klog m s) = k_idt s"
  by (simp_all add: klog_def trace_event_def)

text \<open>The address that a descriptor holds.\<close>

definition idt_target :: "idt_entry \<Rightarrow> u32" where
  "idt_target e = push_bit 16 (ucast (isr_high e)) OR ucast (isr_low e)"

lemma idt_target_set:
  "idt_target (k_idt (idt_set_entry n isr flags s) n) = isr"
proof -
  have low: "isr AND 0xFFFF = take_bit 16 isr" by (simp add: take_bit_eq_mask mask_eq_exp_minus_1)
  have "push_bit 16 (ucast (ucast (drop_bit 16 isr) :: u16)) OR ucast (ucast (take_bit 16 isr) :: u16) = isr"
    by (rule bit_word_eqI)
      (auto simp: bit_or_iff bit_push_bit_iff bit_ucast_iff bit_drop_bit_eq bit_take_bit_iff)
  then show ?thesis by (simp add: idt_target_def idt_set_entry_def low)
qed

lemma idt_fill:
  "m \<le> 256 \<Longrightarrow>
    k_isr_handlers (foldl (idt_default b) s [0..<m]) n = (if unat n < m then Void_handler else k_isr_handlers s n) \<and>
    (unat n < m \<longrightarrow> idt_target (k_idt (foldl (idt_default b) s [0..<m]) n) = bus_isr_table b n \<and>
       idt_attributes (k_idt (foldl (idt_default b) s [0..<m]) n) = IDTD_DEFAULT)"
proof (induction m)
  case (Suc m)
  let ?s = "foldl (idt_default b) s [0..<m]"
  have m: "unat n = m \<longleftrightarrow> n = word_of_nat m"
    using Suc.prems by (auto simp: unat_of_nat take_bit_nat_eq_self_iff)
  show ?case
  proof (cases "n = word_of_nat m")
    case True
    then show ?thesis using m idt_target_set [of n "bus_isr_table b n" IDTD_DEFAULT ?s]
      by (simp add: idt_default_def Let_def) (simp add: idt_set_entry_def idt_target_def)
  next
    case False
    then show ?thesis using m Suc by (auto simp: idt_default_def Let_def idt_set_entry_def less_Suc_eq)
  qed
qed simp

lemma exception_handlers:
  "k_isr_handlers (exception_handlers_init b s) =
     (k_isr_handlers s)(6 := Invalid_opcode, 7 := Spurious_handler, 10 := Invalid_tss, 13 := Gp_fault)"
  "k_idt (exception_handlers_init b s) = k_idt s"
  by (simp_all add: exception_handlers_init_def add_isr_handler_def Let_def)

section \<open>Properties\<close>

text \<open>
  \<open>idt_init\<close> fills the tables: every vector below 255 has a present 32-bit interrupt gate that holds
  exactly the address of its entry stub, and a handler, the exceptions 6, 7, 10 and 13 their own one.
  The loop ends one short: the handler of vector 255 is what it was before.
\<close>

lemma idt_init_tables:
  "snd (idt_init b s) = s' \<Longrightarrow>
     (\<forall>n. unat n < 255 \<longrightarrow> idt_target (k_idt s' n) = bus_isr_table b n \<and>
        idt_attributes (k_idt s' n) = IDTD_DEFAULT \<and> k_isr_handlers s' n \<noteq> NoHandler) \<and>
     k_isr_handlers s' 6 = Invalid_opcode \<and> k_isr_handlers s' 7 = Spurious_handler \<and>
     k_isr_handlers s' 10 = Invalid_tss \<and> k_isr_handlers s' 13 = Gp_fault \<and>
     k_isr_handlers s' 255 = k_isr_handlers s 255"
  using idt_fill [of 255 b s]
  by (auto simp: idt_init_def exception_handlers Let_def split: if_splits)

text \<open>
  \<open>pic_init\<close> performs the documented initialisation: after reading both masks it sends the four
  initialisation words to both controllers (edge triggered and cascaded, offsets 0x20 and 0x28, slave on
  line 2, 8086 mode with the requested end of interrupt mode), each followed by the delay write, then
  restores the masks and finally masks every line.
\<close>

lemma pic_init_sequence:
  "\<exists>m1 m2. k_trace (pic_init b 0 auto_eoi s) = k_trace s @
     [Inb 0x21 m1, Inb 0xA1 m2,
      Outb 0x20 0x11, Outb 0x80 0, Outb 0xA0 0x11, Outb 0x80 0,
      Outb 0x21 0x20, Outb 0x80 0, Outb 0xA1 0x28, Outb 0x80 0,
      Outb 0x21 4, Outb 0x80 0, Outb 0xA1 2, Outb 0x80 0,
      Outb 0x21 (if auto_eoi then 3 else 1), Outb 0x80 0, Outb 0xA1 (if auto_eoi then 3 else 1), Outb 0x80 0,
      Outb 0x21 m1, Outb 0xA1 m2, Outb 0x21 0xFF, Outb 0xA1 0xFF]"
proof -
  have "ICW1 = 0x11" by (simp add: ICW1_def)
  then show ?thesis
    by (simp add: pic_init_def pic_remap_def outb_wait_def pic_mask_all_def pic_mask_set_def inb_def Let_def
        case_prod_unfold)
qed

lemma ucast_u8_u16: "ucast (ucast (x :: u8) :: u16) = x"
  by (rule bit_word_eqI) (simp add: bit_ucast_iff)

lemma unmask_bits:
  assumes "i < 8"
  shows "ucast (ucast (m :: u16) AND NOT (shl32 1 (ucast (i :: u8)))) =
    (ucast m AND NOT (push_bit (unat i) 1) :: u8)"
proof (rule bit_word_eqI)
  fix k assume k: "k < LENGTH(8)"
  have "unat i < 8" using assms by (simp add: word_less_nat_alt)
  then have "unat (ucast i :: u32) mod 32 = unat i" by (simp add: unat_ucast_u8)
  with k show "bit (ucast (ucast m AND NOT (shl32 1 (ucast i)) :: u32) :: u8) k =
      bit (ucast m AND NOT (push_bit (unat i) 1) :: u8) k"
    by (auto simp: bit_ucast_iff bit_and_iff bit_not_iff bit_shl32_one bit_exp_iff)
qed

text \<open>
  The two controllers share one cached mask of 8 bits: after all lines are masked, unmasking a line of
  the slave and then a line of the master also unmasks the master line of the same position as the
  slave line.
\<close>

theorem pic_unmask_shared_mask:
  assumes "slave < 8" and "line < 8"
  shows "last (k_trace (pic_unmask b line (pic_unmask b (8 + slave) (pic_mask_all b s)))) =
    Outb PIC1_DATA (NOT (push_bit (unat slave) 1) AND NOT (push_bit (unat line) 1))"
proof -
  have u: "unat slave < 8" "unat line < 8" using assms by (simp_all add: word_less_nat_alt)
  then have "unat (8 + slave) = 8 + unat slave" by (simp add: unat_word_ariths)
  then have ge: "8 \<le> 8 + slave" by (simp add: word_le_nat_alt)
  have l: "\<not> 8 \<le> line" using assms(2) by simp
  have m: "(ucast (0xFFFF :: u16) :: u8) = -1" "(ucast (0xFFFF :: u16) :: u32) = 0xFFFF" by simp_all
  have "ucast (0xFFFF AND NOT (shl32 1 (ucast slave))) = (NOT (push_bit (unat slave) 1) :: u8)"
    using unmask_bits [OF assms(1), of "0xFFFF"] unfolding m by simp
  then show ?thesis using ge l assms
    by (simp add: pic_unmask_def pic_mask_all_def pic_mask_set_def Let_def unmask_bits ucast_u8_u16)
qed

theorem pic_unmask_shared_mask_witness:
  "last (k_trace (pic_unmask script_bus 3 (pic_unmask script_bus (8 + 1)
     (pic_mask_all script_bus (kst_script []))))) = Outb PIC1_DATA 0xF5"
  using pic_unmask_shared_mask [of 1 3 script_bus "kst_script []"] by simp

lemma call_receivers_all:
  assumes "\<forall>r. i \<le> r \<and> r < n \<longrightarrow> k_receiver_f s r \<noteq> 0" and "k_receiver_f s n = 0" and "i \<le> n" and "n < 256"
  shows "call_receivers key [i..<256] s =
    Some (s\<lparr>k_trace := k_trace s @ map (\<lambda>r. Callback (k_receiver_f s r) key) [i..<n]\<rparr>)"
  using assms
proof (induction "n - i" arbitrary: i s)
  case 0
  then have "i = n" by simp
  with 0 show ?case by (simp add: upt_conv_Cons)
next
  case (Suc m)
  then have i: "i < n" "[i..<256] = i # [Suc i..<256]" "[i..<n] = i # [Suc i..<n]"
    by (simp_all add: upt_conv_Cons)
  let ?s = "trace_event (Callback (k_receiver_f s i) key) s"
  have r: "k_receiver_f ?s = k_receiver_f s" by (simp add: trace_event_def)
  have "call_receivers key [Suc i..<256] ?s =
      Some (?s\<lparr>k_trace := k_trace ?s @ map (\<lambda>r. Callback (k_receiver_f ?s r) key) [Suc i..<n]\<rparr>)"
    using Suc.hyps(2) Suc.prems i(1) by (intro Suc.hyps(1)) (simp_all add: r)
  then show ?case using Suc.prems(1) i by (simp add: r) (simp add: trace_event_def)
qed

text \<open>
  A key press reaches everyone: when the controller has a byte, the scan code is below 128 and the
  table gives it a key, \<open>kbd_interrupt\<close> stores the key for \<open>kbd_read\<close> and calls every registered receiver
  once with it, in the order of registration.
\<close>

lemma kbd_interrupt_delivers:
  assumes "bus_in b 1 0x64 (k_dev s) = (v, d)" and "(ucast v :: u8) AND 1 \<noteq> 0"
    and "bus_in b 1 0x60 d = (c, d')" and "unat (ucast c :: u8) < 128"
    and "key = kbd_US ! unat (ucast c :: u8)" and "key \<noteq> 0" and "key < 512"
    and "\<forall>r < n. k_receiver_f s r \<noteq> 0" and "k_receiver_f s n = 0" and "n < 256"
  shows "\<exists>s'. kbd_interrupt b s = Some s' \<and> kbd_read s' = key \<and>
    k_trace s' = k_trace s @ [Inb 0x64 (ucast v), Inb 0x60 (ucast c)] @
      map (\<lambda>r. Callback (k_receiver_f s r) key) [0..<n]"
proof -
  let ?s = "s\<lparr>k_dev := d', k_trace := k_trace s @ [Inb 0x64 (ucast v), Inb 0x60 (ucast c)], k_kbd_buf := key\<rparr>"
  have len: "length kbd_US = 128" by (simp add: kbd_US_def)
  have "kbd_interrupt b s = call_receivers key [0..<256] ?s"
    using assms(1-7) len by (simp add: kbd_interrupt_def ps2_read_status_def ps2_read_data_def read_scan_code_def
        inb_def trace_event_def Let_def)
  moreover have "call_receivers key [0..<256] ?s =
      Some (?s\<lparr>k_trace := k_trace ?s @ map (\<lambda>r. Callback (k_receiver_f ?s r) key) [0..<n]\<rparr>)"
    using assms(8-10) by (intro call_receivers_all) simp_all
  ultimately show ?thesis by (simp add: kbd_read_def)
qed

text \<open>
  A key release leaves the table: a scan code with the top bit set, which the keyboard sends for every
  release, indexes \<open>kbd_US\<close> behind its 128 entries.
\<close>

theorem kbd_release_out_of_bounds:
  assumes "bus_in b 1 0x64 (k_dev s) = (v, d)" and "(ucast v :: u8) AND 1 \<noteq> 0"
    and "bus_in b 1 0x60 d = (c, d')" and "128 \<le> unat (ucast c :: u8)"
  shows "kbd_interrupt b s = None"
proof -
  have "length kbd_US = 128" by (simp add: kbd_US_def)
  then show ?thesis using assms
    by (simp add: kbd_interrupt_def ps2_read_status_def ps2_read_data_def read_scan_code_def inb_def Let_def)
qed

theorem kbd_release_out_of_bounds_witness:
  "kbd_interrupt script_bus (kst_script [1, 0x9E]) = None"
  using kbd_release_out_of_bounds [of script_bus "kst_script [1, 0x9E]" 1 "[0x9E]" "0x9E" "[]"]
  by (simp add: script_bus_def kst_script_def)

end
