(* ===== verification/Timer.thy ===== *)
theory Timer
  imports Interrupts
begin

text \<open>
  The interval timer and the delays built on it, \<open>src/drivers/pit.c\<close>, and the CMOS ports
  (\<open>src/drivers/cmos.c\<close>), whose register selection sleeps. A delay halts the processor until enough timer
  interrupts have been counted. Interrupts are delivered while the processor is halted, through the
  common entry \<open>isr_x86\<close>; between two reads of \<open>tick\<close> without a halt it does not change.
\<close>

section \<open>Waiting\<close>

definition XTAL_FREQ :: u32 where "XTAL_FREQ = 1193182"

fun deliver :: "'d bus \<Rightarrow> (u8 \<times> u32) list \<Rightarrow> 'd kst \<Rightarrow> 'd kst option" where
  "deliver b [] s = Some s"
| "deliver b ((n, eip) # irqs) s = do { s \<leftarrow> isr_x86 b n eip s; deliver b irqs s }"

definition halt :: "'d bus \<Rightarrow> 'd kst \<Rightarrow> 'd kst option" where
  "halt b s = (let (irqs, d) = bus_hlt b (k_dev s) in deliver b irqs (trace_event Hlt (s\<lparr>k_dev := d\<rparr>)))"

partial_function (option) halt_while :: "('d kst \<Rightarrow> bool) \<Rightarrow> 'd bus \<Rightarrow> 'd kst \<Rightarrow> 'd kst option" where
  "halt_while c b s = (if c s then do { s \<leftarrow> halt b s; halt_while c b s } else Some s)"

declare halt_while.simps [code]

definition wait_ticks :: "'d bus \<Rightarrow> u32 \<Rightarrow> 'd kst \<Rightarrow> 'd kst option" where
  "wait_ticks b delay s =
     (let init_tick = k_tick s in do {
        (delay, init_tick, s) \<leftarrow>
          (if init_tick + delay < k_tick s
           then do {
             s \<leftarrow> halt_while (\<lambda>s. k_tick s \<ge> init_tick) b s;
             Some (delay - (0xFFFFFFFF - init_tick), k_tick s, s)
           }
           else Some (delay, init_tick, s));
        halt_while (\<lambda>s. k_tick s < init_tick + delay) b s
      })"

definition sleep_us :: "'d bus \<Rightarrow> u32 \<Rightarrow> 'd kst \<Rightarrow> 'd kst option" where
  "sleep_us b delay s =
     (if delay = 0 then Some s
      else let min_delay = (1000 * 1000) div k_pit_freq s;
               delay = (if delay < min_delay then min_delay else delay);
               delay_ticks =
                 (if delay < 1000 then delay * k_pit_freq s div (1000 * 1000)
                  else if delay < 1000 * 1000 then (delay div 1000 * k_pit_freq s) div 1000
                  else delay div (1000 * 1000) * k_pit_freq s)
           in wait_ticks b delay_ticks s)"

definition sleep_ms :: "'d bus \<Rightarrow> u32 \<Rightarrow> 'd kst \<Rightarrow> 'd kst option" where
  "sleep_ms b delay s =
     (if delay = 0 then Some s
      else let delay_ticks = (delay * k_pit_freq s) div 1000
           in if delay_ticks = 1 then sleep_us b (delay * 1000) s else wait_ticks b delay_ticks s)"

definition sleep_sec :: "'d bus \<Rightarrow> u32 \<Rightarrow> 'd kst \<Rightarrow> 'd kst option" where
  "sleep_sec b delay s =
     (if delay = 0 then Some s
      else let delay_ticks = delay * k_pit_freq s
           in if delay_ticks = 1 then sleep_ms b (delay * 1000) s else wait_ticks b delay_ticks s)"

section \<open>Programming the timer\<close>

definition get_pit_count :: "'d bus \<Rightarrow> u16 \<Rightarrow> 'd kst \<Rightarrow> u16 \<times> 'd kst" where
  "get_pit_count b ch s =
     (let s = outb b 0x43 (ucast (push_bit 6 (ch AND 0x0F))) s;
          (lo, s) = inb b ch s;
          (hi, s) = inb b ch s
      in (ucast lo OR push_bit 8 (ucast hi), s))"

definition pit_init :: "'d bus \<Rightarrow> u32 \<Rightarrow> 'd kst \<Rightarrow> int \<times> 'd kst" where
  "pit_init b freq s =
     (if freq > XTAL_FREQ then (1, s)
      else let (cflags, s) = disable_int b s;
               (freq, s) = (if freq \<noteq> 0 then (freq, s\<lparr>k_pit_freq := freq\<rparr>) else (k_pit_freq s, s));
               s = io_wait b (outb b 0x43 (0x30 OR 0x6) s);
               divisor = ucast (XTAL_FREQ div freq) :: u16;
               s = outb b 0x40 (ucast (divisor AND 0xFF)) s;
               s = outb b 0x40 (ucast (drop_bit 8 divisor AND 0xFF)) s;
               s = io_wait b s;
               s = add_irq_handler b 0 Pit_handler s;
               s = recover_int cflags s
           in (0, klog ''PIT initialized'' s))"

section \<open>CMOS\<close>

definition cmos_select_reg :: "'d bus \<Rightarrow> u8 \<Rightarrow> 'd kst \<Rightarrow> 'd kst option" where
  "cmos_select_reg b reg s = sleep_ms b 50 (outb b 0x70 reg s)"

definition cmos_read_data :: "'d bus \<Rightarrow> 'd kst \<Rightarrow> u8 \<times> 'd kst" where
  "cmos_read_data b s = inb b 0x71 s"

definition cmos_write_data :: "'d bus \<Rightarrow> u8 \<Rightarrow> 'd kst \<Rightarrow> 'd kst" where
  "cmos_write_data b d s = io_wait b (outb b 0x71 d s)"

section \<open>Delays end\<close>

text \<open>
  A running timer: every halt ends with one timer interrupt, and its handler is installed.
\<close>

definition timer_only :: "'d bus \<Rightarrow> bool" where
  "timer_only b \<longleftrightarrow> (\<forall>d. \<exists>eip d'. bus_hlt b d = ([(0x20, eip)], d'))"

definition ticking :: "'d kst \<Rightarrow> bool" where
  "ticking s \<longleftrightarrow> k_isr_handlers s 0x20 = Pit_handler"

lemma halt_tick:
  assumes "timer_only b" and "ticking s"
  shows "\<exists>s'. halt b s = Some s' \<and> k_tick s' = k_tick s + 1 \<and> ticking s' \<and> k_pit_freq s' = k_pit_freq s"
proof -
  obtain eip d' where h: "bus_hlt b (k_dev s) = ([(0x20, eip)], d')"
    using assms(1) unfolding timer_only_def by blast
  show ?thesis using assms(2)
    by (simp add: halt_def h isr_x86_def call_handler_def pit_handler_def ticking_def pic_eoi_def io_defs)
qed

lemma halt_until:
  assumes "timer_only b" and "ticking s" and "\<forall>j < n. c (k_tick s + word_of_nat j)"
    and "\<not> c (k_tick s + word_of_nat n)"
  shows "\<exists>s'. halt_while (\<lambda>s. c (k_tick s)) b s = Some s' \<and> k_tick s' = k_tick s + word_of_nat n \<and>
    ticking s' \<and> k_pit_freq s' = k_pit_freq s"
  using assms(2-4)
proof (induction n arbitrary: s)
  case 0
  then show ?case by (simp add: halt_while.simps)
next
  case (Suc n)
  obtain s1 where s1: "halt b s = Some s1" "k_tick s1 = k_tick s + 1" "ticking s1" "k_pit_freq s1 = k_pit_freq s"
    using halt_tick [OF assms(1) Suc.prems(1)] by blast
  have "c (k_tick s + word_of_nat 0)" using Suc.prems(2) by blast
  then have "halt_while (\<lambda>s. c (k_tick s)) b s = halt_while (\<lambda>s. c (k_tick s)) b s1"
    using s1(1) by (subst halt_while.simps) simp
  moreover have "\<forall>j < n. c (k_tick s1 + word_of_nat j)"
    using Suc.prems(2) s1(2) by (metis (no_types, opaque_lifting) Suc_less_eq add.assoc of_nat_Suc)
  moreover have "\<not> c (k_tick s1 + word_of_nat n)"
    using Suc.prems(3) s1(2) by (simp add: add.assoc)
  ultimately show ?case using Suc.IH [OF s1(3)] s1(2,4) by (auto simp: add.assoc)
qed

lemma unat_add_nat:
  "unat (t :: u32) + j < 2 ^ 32 \<Longrightarrow> unat (t + word_of_nat j) = unat t + j"
  by (simp add: unat_simps)

text \<open>Waiting for a tick that is ahead without a wrap-around.\<close>

lemma halt_until_tick:
  assumes "timer_only b" and "ticking s" and "k_tick s = t" and "unat t + unat delay < 2 ^ 32"
  shows "\<exists>s'. halt_while (\<lambda>s. k_tick s < t + delay) b s = Some s' \<and> k_tick s' = t + delay \<and> ticking s' \<and>
    k_pit_freq s' = k_pit_freq s"
proof -
  have "unat (t + delay) = unat t + unat delay" using assms(4) by (simp add: unat_simps)
  then have "\<forall>j < unat delay. k_tick s + word_of_nat j < t + delay"
    using assms(3,4) by (simp add: word_less_nat_alt unat_add_nat)
  from halt_until [OF assms(1,2) this] assms(3) show ?thesis by simp
qed

lemma wait_ticks_plain:
  assumes "timer_only b" and "ticking s" and "unat (k_tick s) + unat delay < 2 ^ 32"
  shows "\<exists>s'. wait_ticks b delay s = Some s' \<and> k_tick s' = k_tick s + delay \<and> ticking s' \<and>
    k_pit_freq s' = k_pit_freq s"
proof -
  have "\<not> k_tick s + delay < k_tick s" using assms(3) by (simp add: word_less_nat_alt unat_simps)
  with halt_until_tick [OF assms(1,2) refl assms(3)] show ?thesis by (simp add: wait_ticks_def)
qed

lemma wait_ticks_wrap:
  assumes "timer_only b" and "ticking s" and "2 ^ 32 \<le> unat (k_tick s) + unat delay"
  shows "\<exists>s'. wait_ticks b delay s = Some s' \<and> k_tick s' = k_tick s + delay + 1 \<and> ticking s' \<and>
    k_pit_freq s' = k_pit_freq s"
proof -
  let ?t = "k_tick s" and ?n = "2 ^ 32 - unat (k_tick s)"
  have t: "unat ?t < 2 ^ 32" "unat delay < 2 ^ 32" using unat_u32_lt [of ?t] unat_u32_lt [of delay] by simp_all
  have u: "unat (?t + delay) = unat ?t + unat delay - 2 ^ 32"
    using assms(3) t by (simp add: unat_word_ariths mod_if)
  have "unat (?t + delay) < unat ?t" unfolding u using assms(3) t by linarith
  then have lt: "?t + delay < ?t" by (simp add: word_less_nat_alt)
  have "\<forall>j < ?n. ?t \<le> ?t + word_of_nat j"
    using t by (auto simp: word_le_nat_alt unat_add_nat)
  moreover have z: "?t + word_of_nat ?n = 0"
  proof -
    have "?t + word_of_nat ?n = word_of_nat (unat ?t + ?n)" by simp
    also have "unat ?t + ?n = 2 ^ 32" using t by simp
    finally show ?thesis by (simp only: of_nat_power) simp
  qed
  moreover have "\<not> ?t \<le> ?t + word_of_nat ?n"
    using lt by (simp only: z) (metis word_le_0_iff word_not_simps(1))
  ultimately obtain s1 where s1: "halt_while (\<lambda>s. ?t \<le> k_tick s) b s = Some s1" "k_tick s1 = 0" "ticking s1"
      "k_pit_freq s1 = k_pit_freq s"
    using halt_until [OF assms(1,2), of ?n "\<lambda>x. ?t \<le> x"] by auto
  let ?d = "delay - (0xFFFFFFFF - ?t)"
  have "unat (0 :: u32) + unat ?d < 2 ^ 32" using unat_u32_lt [of ?d] by simp
  from halt_until_tick [OF assms(1) s1(3,2) this] obtain s2 where
    s2: "halt_while (\<lambda>s. k_tick s < 0 + ?d) b s1 = Some s2" "k_tick s2 = 0 + ?d" "ticking s2"
      "k_pit_freq s2 = k_pit_freq s1" by blast
  have e: "(0xFFFFFFFF :: u32) = -1" by simp
  have "k_tick s2 = ?t + delay + 1" using s2(2) unfolding e by simp
  then show ?thesis using s1(1,2,4) lt s2(1,3,4) by (intro exI [of _ s2]) (simp add: wait_ticks_def)
qed

section \<open>Properties\<close>

text \<open>
  C37. A delay ends, after the right time: with a running timer \<open>wait_ticks\<close> returns after exactly the
  requested number of timer interrupts, one more when the tick counter wraps around meanwhile.
\<close>

theorem wait_ticks_returns:
  assumes "timer_only b" and "ticking s"
  shows "\<exists>s'. wait_ticks b delay s = Some s' \<and> ticking s' \<and>
    k_tick s' = k_tick s + delay + (if unat (k_tick s) + unat delay < 2 ^ 32 then 0 else 1)"
proof (cases "unat (k_tick s) + unat delay < 2 ^ 32")
  case True
  with wait_ticks_plain [OF assms True] show ?thesis by auto
next
  case False
  with wait_ticks_wrap [OF assms, of delay] show ?thesis by auto
qed

theorem wait_ticks_returns_witness:
  "\<exists>s'. wait_ticks script_bus 3 ((kst_script [])\<lparr>k_isr_handlers := (\<lambda>_. Pit_handler), k_tick := 0xFFFFFFFE\<rparr>)
     = Some s' \<and> k_tick s' = 2"
proof -
  let ?s = "(kst_script [])\<lparr>k_isr_handlers := (\<lambda>_. Pit_handler), k_tick := 0xFFFFFFFE\<rparr>"
  have "timer_only script_bus" "ticking ?s" "k_tick ?s = 0xFFFFFFFE"
    by (simp_all add: timer_only_def script_bus_def ticking_def)
  with wait_ticks_returns [of script_bus ?s 3] show ?thesis by auto
qed

text \<open>
  \<open>sleep_ms\<close> waits for the number of milliseconds: at the default rate of 1000 interrupts per second
  it returns after exactly \<open>delay\<close> timer interrupts, as long as \<open>delay * 1000\<close> does not overflow.
\<close>

theorem sleep_ms_exact:
  assumes "timer_only b" and "ticking s" and "k_pit_freq s = 1000" and "unat delay \<le> 4294967"
    and "unat (k_tick s) + unat delay < 2 ^ 32"
  shows "\<exists>s'. sleep_ms b delay s = Some s' \<and> k_tick s' = k_tick s + delay \<and> ticking s'"
proof -
  have d: "(delay * 1000) div 1000 = delay"
    using assms(4) by (simp add: word_unat_eq_iff unat_simps)
  show ?thesis
  proof (cases "delay = 0 \<or> delay = 1")
    case True
    then show ?thesis
    proof
      assume "delay = 1"
      with wait_ticks_plain [OF assms(1,2,5)] show ?thesis
        by (auto simp: sleep_ms_def sleep_us_def assms(3))
    qed (use assms(2) in \<open>simp add: sleep_ms_def\<close>)
  next
    case False
    with wait_ticks_plain [OF assms(1,2,5)] show ?thesis
      by (auto simp: sleep_ms_def assms(3) d Let_def)
  qed
qed

theorem sleep_ms_exact_witness:
  "\<exists>s'. sleep_ms script_bus 50 ((kst_script [])\<lparr>k_isr_handlers := (\<lambda>_. Pit_handler)\<rparr>) = Some s' \<and>
     k_tick s' = 50"
proof -
  let ?s = "(kst_script [])\<lparr>k_isr_handlers := (\<lambda>_. Pit_handler)\<rparr>"
  have "timer_only script_bus" "ticking ?s" "k_pit_freq ?s = 1000" "k_tick ?s = 0"
    by (simp_all add: timer_only_def script_bus_def ticking_def kst_script_def)
  with sleep_ms_exact [of script_bus ?s 50] show ?thesis by auto
qed

lemma divisor_bytes:
  fixes w :: u16
  shows "unat (ucast (w AND 0xFF) :: u8) + 256 * unat (ucast (drop_bit 8 w AND 0xFF) :: u8) = unat w"
proof -
  have m: "x AND 0xFF = take_bit 8 x" for x :: u16 by (simp add: take_bit_eq_mask mask_eq_exp_minus_1)
  have "unat w < 65536" using unsigned_less [of w] by simp
  then have "unat w div 256 mod 256 = unat w div 256" by simp
  then show ?thesis
    unfolding m by (simp add: unsigned_ucast_eq unsigned_take_bit_eq unsigned_drop_bit_eq)
      (simp add: take_bit_eq_mod drop_bit_eq_div)
qed

text \<open>
  \<open>pit_init\<close> programs the requested rate: for a rate that the crystal can give with a 16-bit divisor it
  succeeds, selects the square wave mode, sends the low and then the high byte of the divisor of the
  crystal frequency, installs the tick handler and unmasks its line.
\<close>

theorem pit_init_divisor:
  assumes "19 \<le> unat freq" and "freq \<le> XTAL_FREQ"
  shows "\<exists>s' lo hi m rest. pit_init b freq s = (0, s') \<and> k_pit_freq s' = freq \<and> ticking s' \<and>
    k_trace s' = k_trace s @ [Cli, Outb 0x43 0x36, Outb 0x80 0, Outb 0x40 lo, Outb 0x40 hi, Outb 0x80 0] @
      rest @ [Outb 0x21 m, RestoreFlags (bus_flags b (k_dev s)), Klog ''PIT initialized''] \<and>
    unat lo + 256 * unat hi = 1193182 div unat freq"
proof -
  let ?q = "XTAL_FREQ div freq"
  have x: "unat XTAL_FREQ = 1193182" by (simp add: XTAL_FREQ_def)
  have "1193182 div unat freq \<le> 1193182 div 19" using assms(1) by (intro div_le_mono2) simp_all
  then have q: "unat ?q = 1193182 div unat freq" "unat ?q < 65536" by (simp_all add: unat_simps x)
  then have "unat (ucast ?q :: u16) = unat ?q"
    by (simp add: unsigned_ucast_eq take_bit_nat_eq_self_iff)
  note d = divisor_bytes [of "ucast ?q", unfolded this q(1)]
  have f: "\<not> XTAL_FREQ < freq" "freq \<noteq> 0" using assms by auto
  have o: "(0x30 OR 0x6 :: u8) = 0x36" by simp
  show ?thesis
    by (rule exI [of _ "snd (pit_init b freq s)"], rule exI [of _ "ucast ((ucast ?q :: u16) AND 0xFF)"],
        rule exI [of _ "ucast (drop_bit 8 (ucast ?q :: u16) AND 0xFF)"],
        rule exI [of _ "ucast (ucast (k_cached_mask s) AND NOT (shl32 1 0))"],
        rule exI [of _ "if k_isr_handlers s 0x20 \<noteq> NoHandler then [Klog ''Redefining irq handler''] else []"])
      (use d f o in \<open>simp add: pit_init_def disable_int_def recover_int_def add_irq_handler_def pic_unmask_def
        ticking_def io_defs\<close>)
qed

theorem pit_init_divisor_witness:
  "\<exists>s' lo hi. pit_init script_bus 100 (kst_script []) = (0, s') \<and> k_pit_freq s' = 100 \<and> ticking s' \<and>
     unat (lo :: u8) + 256 * unat (hi :: u8) = 11931"
  using pit_init_divisor [of 100 script_bus "kst_script []"] by (auto simp: XTAL_FREQ_def)

end
