(* ===== verification/Storage.thy ===== *)
theory Storage
  imports Timer
begin

text \<open>
  The disk controllers: detection of ATA drives (\<open>src/drivers/storage/ata.c\<close>) and the floppy controller
  (\<open>src/drivers/storage/floppy.c\<close>). The floppy driver polls with timeouts that it measures by sleeping.
\<close>

section \<open>ATA\<close>

record ata_bus =
  ata_io_base :: u16
  ata_control_base :: u16

definition ata_type_msg :: "u16 \<Rightarrow> string" where
  "ata_type_msg ata =
     (if ata = 0xEB14 then ''Detected PATAPI drive''
      else if ata = 0x9669 then ''Detected SATAPI drive''
      else if ata = 0x0000 then ''Detected PATA drive''
      else if ata = 0xC33C then ''Detected SATA drive''
      else ''Unknown ATA drive detected: %x'')"

definition ata_detect :: "'d bus \<Rightarrow> ata_bus \<Rightarrow> u8 \<Rightarrow> 'd kst \<Rightarrow> 'd kst" where
  "ata_detect b bus drive s =
     (let s = outb b (ata_io_base bus + 6) (0xA OR push_bit 4 drive) s;
          s = ((\<lambda>s. snd (inb b (ata_control_base bus) s)) ^^ 14) s;
          (lo, s) = inb b (ata_io_base bus + 4) s;
          (hi, s) = inb b (ata_io_base bus + 5) s;
          ata = (ucast lo AND 0xFF) OR push_bit 8 (ucast hi)
      in klog (ata_type_msg ata) s)"

definition ata_init :: "'d bus \<Rightarrow> 'd kst \<Rightarrow> 'd kst" where
  "ata_init b s = klog ''ATA controller set up'' (ata_detect b \<lparr>ata_io_base = 0x1F0, ata_control_base = 0x3F6\<rparr> 1 s)"

section \<open>Floppy controller\<close>

abbreviation FLOPPY_TIMEOUT :: int where "FLOPPY_TIMEOUT \<equiv> -1"
abbreviation FLOPPY_FAULT :: int where "FLOPPY_FAULT \<equiv> -2"

text \<open>Registers as offsets from the base, bits of the status and output registers, commands.\<close>

abbreviation FLOPPY_DIGITAL_OUT_REG :: u16 where "FLOPPY_DIGITAL_OUT_REG \<equiv> 2"
abbreviation FLOPPY_MAIN_STATUS_REG :: u16 where "FLOPPY_MAIN_STATUS_REG \<equiv> 4"
abbreviation FLOPPY_DATA_FIFO :: u16 where "FLOPPY_DATA_FIFO \<equiv> 5"
abbreviation FLOPPY_CONFIG_REG :: u16 where "FLOPPY_CONFIG_REG \<equiv> 7"
abbreviation MSR_RQM :: u8 where "MSR_RQM \<equiv> 0x80"
abbreviation MSR_DIO :: u8 where "MSR_DIO \<equiv> 0x40"
abbreviation DOR_IRQ :: u8 where "DOR_IRQ \<equiv> 8"
abbreviation DOR_RESET :: u8 where "DOR_RESET \<equiv> 4"
abbreviation CMD_SPECIFY :: u16 where "CMD_SPECIFY \<equiv> 3"
abbreviation CMD_RECALIBRATE :: u8 where "CMD_RECALIBRATE \<equiv> 7"
abbreviation CMD_SENSE_INTERRUPT :: u8 where "CMD_SENSE_INTERRUPT \<equiv> 8"
abbreviation FLOPPY_500KBPS :: u8 where "FLOPPY_500KBPS \<equiv> 0"
abbreviation FLOPPY_1MBPS :: u8 where "FLOPPY_1MBPS \<equiv> 3"
abbreviation FLOPPY_2_88MB_3_5 :: u8 where "FLOPPY_2_88MB_3_5 \<equiv> 5"
abbreviation FLOPPY_IRQ :: u8 where "FLOPPY_IRQ \<equiv> 6"

text \<open>The controller is ready for a byte: \<open>MSR_RQM\<close> set and \<open>MSR_DIO\<close> clear.\<close>

definition msr_ready :: "u8 \<Rightarrow> bool" where
  "msr_ready msr \<longleftrightarrow> msr AND MSR_RQM \<noteq> 0 \<and> msr AND MSR_DIO = 0"

text \<open>
  The polling loop of \<open>floppy_wait\<close>. \<open>ticks\<close> grows by 10 in each iteration and the loop gives up when it
  reaches 30000: \<open>left\<close> counts the iterations that are left, 3000 at first.
\<close>

fun floppy_wait_loop :: "'d bus \<Rightarrow> u16 \<Rightarrow> nat \<Rightarrow> u8 \<Rightarrow> 'd kst \<Rightarrow> (int \<times> 'd kst) option" where
  "floppy_wait_loop b base 0 msr s = Some (1, s)"
| "floppy_wait_loop b base (Suc left) msr s =
     (if msr_ready msr then Some (0, s)
      else let (msr, s) = inb b (base + FLOPPY_MAIN_STATUS_REG) s in
        if left = 0 then Some (1, s)
        else do { s \<leftarrow> sleep_ms b 10 s; floppy_wait_loop b base left msr s })"

definition floppy_wait :: "'d bus \<Rightarrow> u16 \<Rightarrow> 'd kst \<Rightarrow> (int \<times> 'd kst) option" where
  "floppy_wait b base s = (let (msr, s) = inb b (base + FLOPPY_MAIN_STATUS_REG) s in floppy_wait_loop b base 3000 msr s)"

definition floppy_read :: "'d bus \<Rightarrow> u16 \<Rightarrow> 'd kst \<Rightarrow> (int \<times> 'd kst) option" where
  "floppy_read b base s = do {
     (ret, s) \<leftarrow> floppy_wait b base s;
     if ret \<noteq> 0 then Some (FLOPPY_TIMEOUT, s)
     else let (v, s) = inb b (base + FLOPPY_DATA_FIFO) s in Some (uint v, s)
   }"

text \<open>
  The parameters of a command: \<open>param_cnt\<close> of them are taken from the arguments of the call. \<open>None\<close> when
  there are not enough.
\<close>

fun floppy_params :: "'d bus \<Rightarrow> u16 \<Rightarrow> nat \<Rightarrow> u8 list \<Rightarrow> 'd kst \<Rightarrow> (int \<times> 'd kst) option" where
  "floppy_params b base 0 args s = Some (0, s)"
| "floppy_params b base (Suc n) args s = do {
     (ret, s) \<leftarrow> floppy_wait b base s;
     if ret \<noteq> 0 then Some (FLOPPY_TIMEOUT, s)
     else case args of [] \<Rightarrow> None | a # as \<Rightarrow> floppy_params b base n as (outb b (base + FLOPPY_DATA_FIFO) a s)
   }"

definition floppy_write_cmd ::
  "'d bus \<Rightarrow> u16 \<Rightarrow> u8 \<Rightarrow> u32 \<Rightarrow> u8 list \<Rightarrow> 'd kst \<Rightarrow> (int \<times> 'd kst) option" where
  "floppy_write_cmd b base cmd param_cnt args s =
     (let (msr, s) = inb b (base + FLOPPY_MAIN_STATUS_REG) s in
      if \<not> msr_ready msr then Some (FLOPPY_FAULT, s)
      else floppy_params b base (unat param_cnt) args (outb b (base + FLOPPY_DATA_FIFO) cmd s))"

text \<open>
  \<open>timeout_tick\<close> grows by 10 per iteration and the loop gives up above 30000, in iteration 3001.
\<close>

fun floppy_irq_loop :: "'d bus \<Rightarrow> u32 \<Rightarrow> nat \<Rightarrow> 'd kst \<Rightarrow> (int \<times> 'd kst) option" where
  "floppy_irq_loop b init_tick 0 s = Some (FLOPPY_TIMEOUT, s)"
| "floppy_irq_loop b init_tick (Suc left) s =
     (if k_floppy_irq_tick s = init_tick
      then do {
        s \<leftarrow> sleep_ms b 10 s;
        if left = 0 then Some (FLOPPY_TIMEOUT, s) else floppy_irq_loop b init_tick left s
      }
      else Some (0, s))"

definition floppy_irq_wait :: "'d bus \<Rightarrow> u32 \<Rightarrow> 'd kst \<Rightarrow> (int \<times> 'd kst) option" where
  "floppy_irq_wait b init_tick s = floppy_irq_loop b init_tick 3001 s"

definition floppy_sense_interrupt :: "'d bus \<Rightarrow> u16 \<Rightarrow> 'd kst \<Rightarrow> (int \<times> 'd kst) option" where
  "floppy_sense_interrupt b base s = do {
     (ret, s) \<leftarrow> floppy_write_cmd b base CMD_SENSE_INTERRUPT 0 [] s;
     if ret \<noteq> 0 then Some (ret, s) else do {
       (val, s) \<leftarrow> floppy_read b base s;
       if val < 0 then Some (val, s) else do {
         (lh, s) \<leftarrow> floppy_read b base s;
         if lh < 0 then Some (lh, s)
         else Some (val OR push_bit 8 lh, klog ''Interrupt sensed'' s)
       }
     }
   }"

definition floppy_motor :: "'d bus \<Rightarrow> u16 \<Rightarrow> u8 \<Rightarrow> u8 \<Rightarrow> 'd kst \<Rightarrow> 'd kst option" where
  "floppy_motor b base drive motor_on s =
     (let motor = push_bit 4 (push_bit (unat drive) 1 AND push_bit (unat drive) motor_on)
      in sleep_ms b 1000 (outb b (base + FLOPPY_DIGITAL_OUT_REG) (DOR_IRQ OR DOR_RESET OR (drive AND 0x3) OR motor) s))"

text \<open>
  The three attempts of \<open>floppy_calibrate\<close>. A command that cannot be sent ends the function with -1; a
  successful attempt switches the motor off and goes on with the next one.
\<close>

fun floppy_calibrate_loop :: "'d bus \<Rightarrow> u16 \<Rightarrow> nat \<Rightarrow> 'd kst \<Rightarrow> (int \<times> 'd kst) option" where
  "floppy_calibrate_loop b base 0 s = do {
     s \<leftarrow> floppy_motor b base (k_floppy_drive s) 0 (klog ''Floppy calibration failed'' s);
     Some (1, s)
   }"
| "floppy_calibrate_loop b base (Suc n) s =
     (let s = klog ''Floppy calibration'' s; irq_tick = k_floppy_irq_tick s; drive = k_floppy_drive s in do {
        (ret, s) \<leftarrow> floppy_write_cmd b base CMD_RECALIBRATE 1 [drive] s;
        if ret \<noteq> 0 then Some (-1, s) else do {
          (ret, s) \<leftarrow> floppy_irq_wait b irq_tick s;
          if ret \<noteq> 0 then floppy_calibrate_loop b base n (klog ''Floppy IRQ wait timeout'' s) else do {
            (sense, s) \<leftarrow> floppy_sense_interrupt b base s;
            if sense = -1 then floppy_calibrate_loop b base n (klog ''Sense interupt failed'' s) else
            let usense = word_of_int sense :: u16; st1 = ucast (drop_bit 8 usense) :: u8;
                cyl = ucast (usense AND 0xFF) :: u8 in
            if st1 AND (0xC0 OR drive) \<noteq> 0xC0 OR drive
            then floppy_calibrate_loop b base n (klog ''Sense interupt failed'' s)
            else do {
              s \<leftarrow> (if cyl = 0 then floppy_motor b base drive 0 s else Some s);
              floppy_calibrate_loop b base n s
            }
          }
        }
      })"

definition floppy_calibrate :: "'d bus \<Rightarrow> u16 \<Rightarrow> 'd kst \<Rightarrow> (int \<times> 'd kst) option" where
  "floppy_calibrate b base s = do {
     s \<leftarrow> floppy_motor b base (k_floppy_drive s) 1 s;
     floppy_calibrate_loop b base 3 s
   }"

text \<open>
  The commands are sent as the source sends them: the data rate goes to \<open>base + 7\<close> as a command without
  parameters, and the specify command passes 223 as the number of parameters and 2 as the only one.
\<close>

definition floppy_reset :: "'d bus \<Rightarrow> u16 \<Rightarrow> 'd kst \<Rightarrow> (int \<times> 'd kst) option" where
  "floppy_reset b base s =
     (let (dor, s) = inb b (base + FLOPPY_DIGITAL_OUT_REG) s in do {
        s \<leftarrow> sleep_us b 100 s;
        s \<leftarrow> sleep_ms b 5 (outb b (base + FLOPPY_DIGITAL_OUT_REG) 0 s);
        (sense, s) \<leftarrow> floppy_sense_interrupt b base (outb b (base + FLOPPY_DIGITAL_OUT_REG) (DOR_IRQ OR DOR_RESET) s);
        if sense = -1 then Some (-1, s) else
        let speed = (if k_floppy_type s (unat (k_floppy_drive s)) = FLOPPY_2_88MB_3_5 then FLOPPY_1MBPS else FLOPPY_500KBPS) in do {
          (ret, s) \<leftarrow> floppy_write_cmd b (base + FLOPPY_CONFIG_REG) speed 0 [] s;
          if ret = -1 then Some (-1, s) else do {
            (ret, s) \<leftarrow> floppy_write_cmd b (base + CMD_SPECIFY) 2 0xDF [0x02] s;
            if ret = -1 then Some (-1, s) else do {
              (ret, s) \<leftarrow> floppy_calibrate b base s;
              if ret \<noteq> 0 then Some (-1, s) else Some (0, s)
            }
          }
        }
      })"

text \<open>The table of the drive names has 8 entries.\<close>

definition floppy_detect :: "'d bus \<Rightarrow> 'd kst \<Rightarrow> 'd kst option" where
  "floppy_detect b s = do {
     s \<leftarrow> cmos_select_reg b 0x10 s;
     let (dtypes, s) = cmos_read_data b s; master = drop_bit 4 dtypes; slave = dtypes AND 0x0F;
         drive = unat (k_floppy_drive s) in
     if master \<ge> 8 \<or> slave \<ge> 8 \<or> drive \<ge> 4 then None else
     let s = (if master \<noteq> 0 then (klog ''Detected Master floppy drive: %s'' s)
                \<lparr>k_floppy_type := (k_floppy_type s)(drive := master)\<rparr> else s);
         s = (if slave \<noteq> 0 then (klog ''Detected Slave floppy drive: %s'' s)
                \<lparr>k_floppy_type := (k_floppy_type s)(drive := slave)\<rparr> else s)
     in Some (s\<lparr>k_floppy_base := 0x3F0\<rparr>)
   }"

definition floppy_init :: "'d bus \<Rightarrow> 'd kst \<Rightarrow> 'd kst option" where
  "floppy_init b s = do {
     s \<leftarrow> floppy_detect b s;
     let s = add_irq_handler b FLOPPY_IRQ Floppy_handler s in do {
       (ret, s) \<leftarrow> floppy_reset b (k_floppy_base s) s;
       Some (klog ''Floppy controller initialized''
         (if ret = -1 then klog ''error: Could not configure floppy disk'' s else s))
     }
   }"

section \<open>Timeouts\<close>

text \<open>A machine whose timer runs at the default rate.\<close>

definition clock_ok :: "'d kst \<Rightarrow> bool" where
  "clock_ok s \<longleftrightarrow> ticking s \<and> k_pit_freq s = 1000"

lemma clock_ok_io [simp]:
  "clock_ok (outb b p v s) = clock_ok s" "clock_ok (snd (inb b p s)) = clock_ok s" "clock_ok (klog m s) = clock_ok s"
  by (simp_all add: clock_ok_def ticking_def io_defs case_prod_unfold)

lemma wait_ticks_clock:
  assumes "timer_only b" and "clock_ok s"
  shows "\<exists>s'. wait_ticks b delay s = Some s' \<and> clock_ok s'"
proof (cases "unat (k_tick s) + unat delay < 2 ^ 32")
  case True
  from assms(2) wait_ticks_plain [OF assms(1) _ True] show ?thesis by (auto simp: clock_ok_def)
next
  case False
  from assms(2) wait_ticks_wrap [OF assms(1), of s delay] False show ?thesis by (auto simp: clock_ok_def)
qed

lemma sleep_clock:
  assumes "timer_only b" and "clock_ok s"
  shows "\<exists>s'. sleep_ms b delay s = Some s' \<and> clock_ok s'"
  using wait_ticks_clock [OF assms] assms(2)
  by (simp add: sleep_ms_def sleep_us_def Let_def)

lemma floppy_wait_loop_returns:
  assumes "timer_only b"
  shows "clock_ok s \<Longrightarrow> \<exists>ret s'. floppy_wait_loop b base n msr s = Some (ret, s') \<and> ret \<in> {0, 1} \<and> clock_ok s'"
proof (induction n arbitrary: msr s)
  case (Suc n)
  let ?r = "inb b (base + 4) s"
  have "clock_ok (snd ?r)" using Suc.prems by simp
  then obtain s1 where s1: "sleep_ms b 10 (snd ?r) = Some s1" "clock_ok s1"
    using sleep_clock [OF assms] by blast
  with Suc.IH [OF s1(2), of "fst ?r"] Suc.prems show ?case by (simp add: case_prod_unfold Let_def)
qed simp

text \<open>
  Waiting for the floppy controller ends, even when it never becomes ready: with a timer that runs at
  the default rate \<open>floppy_wait\<close> returns 0 or, after at most 3000 polls, 1.
\<close>

theorem floppy_wait_returns:
  assumes "timer_only b" and "ticking s" and "k_pit_freq s = 1000"
  shows "\<exists>ret s'. floppy_wait b base s = Some (ret, s') \<and> ret \<in> {0, 1}"
  using floppy_wait_loop_returns [OF assms(1), of "snd (inb b (base + 4) s)" base 3000 "fst (inb b (base + 4) s)"] assms(2,3)
  by (auto simp: floppy_wait_def case_prod_unfold Let_def clock_ok_def [of s])

theorem floppy_wait_returns_witness:
  "\<exists>ret s'. floppy_wait script_bus 0x3F0 ((kst_script [])\<lparr>k_isr_handlers := (\<lambda>_. Pit_handler)\<rparr>) = Some (ret, s')"
proof -
  let ?s = "(kst_script [])\<lparr>k_isr_handlers := (\<lambda>_. Pit_handler)\<rparr>"
  have "timer_only script_bus" "ticking ?s" "k_pit_freq ?s = 1000"
    by (simp_all add: timer_only_def script_bus_def ticking_def kst_script_def)
  from floppy_wait_returns [OF this] show ?thesis by blast
qed

lemma floppy_calibrate_loop_fails:
  "floppy_calibrate_loop b base n s = Some (ret, s') \<Longrightarrow> ret = 1 \<or> ret = -1"
proof (induction n arbitrary: s)
  case 0
  then show ?case by (auto split: bind_splits)
next
  case (Suc n)
  then show ?case by (auto simp: Let_def split: bind_splits if_splits)
qed

text \<open>
  The calibration of the floppy drive never reports success: the loop goes on after an attempt that
  found cylinder 0, and the function ends with 1 or, when a command cannot be sent, with -1.
\<close>

theorem floppy_calibrate_fails:
  assumes "floppy_calibrate b base s = Some (ret, s')"
  shows "ret = 1 \<or> ret = -1"
proof -
  obtain s1 where "floppy_calibrate_loop b base 3 s1 = Some (ret, s')"
    using assms by (auto simp: floppy_calibrate_def split: bind_splits)
  then show ?thesis by (rule floppy_calibrate_loop_fails)
qed

text \<open>A machine with a running timer and no floppy controller: every port reads as zero.\<close>

definition zero_bus :: "u32 list bus" where
  "zero_bus = script_bus\<lparr>bus_in := (\<lambda>_ _ d. (0, d))\<rparr>"

theorem floppy_calibrate_fails_witness:
  "\<exists>ret s'. floppy_calibrate zero_bus 0x3F0 ((kst_script [])\<lparr>k_isr_handlers := (\<lambda>_. Pit_handler)\<rparr>) = Some (ret, s') \<and>
     (ret = 1 \<or> ret = -1)"
proof -
  let ?s = "(kst_script [])\<lparr>k_isr_handlers := (\<lambda>_. Pit_handler)\<rparr>"
  have t: "timer_only zero_bus" by (simp add: timer_only_def zero_bus_def script_bus_def)
  have "clock_ok ?s" by (simp add: clock_ok_def ticking_def kst_script_def)
  then have "clock_ok (outb zero_bus 0x3F2 v ?s)" for v by simp
  then obtain s1 where "floppy_motor zero_bus 0x3F0 (k_floppy_drive ?s) 1 ?s = Some s1"
    using sleep_clock [OF t] by (fastforce simp: floppy_motor_def Let_def)
  moreover have "\<exists>ret s'. floppy_calibrate_loop zero_bus 0x3F0 3 s1 = Some (ret, s')"
    by (simp add: eval_nat_numeral floppy_write_cmd_def inb_def zero_bus_def msr_ready_def Let_def)
  ultimately obtain ret s' where "floppy_calibrate zero_bus 0x3F0 ?s = Some (ret, s')"
    by (auto simp: floppy_calibrate_def)
  with floppy_calibrate_fails [OF this] show ?thesis by blast
qed

end
