(* ===== verification/Flat_Alloc.thy ===== *)
theory Flat_Alloc
  imports Kernel_Prelude
begin

text \<open>
  The page pool of \<open>src/mem/flat.c\<close>: an array of 128 page descriptors, from which \<open>malloc\<close> takes the first
  unused one.
\<close>

section \<open>Operations\<close>

record flat_page =
  fp_base :: u32
  fp_limit :: u32
  fp_used :: bool
  fp_map :: u8

abbreviation PDT_SIZE :: nat where "PDT_SIZE \<equiv> 128"

definition pdt_init :: "flat_page list" where
  "pdt_init = map (\<lambda>i. \<lparr>fp_base = 0xFFFF + word_of_nat i * 0x1000, fp_limit = 0x1000, fp_used = False, fp_map = 0\<rparr>)
     [0..<PDT_SIZE]"

text \<open>The pointer is 0 when no page is left. A page that is too small is marked on the way.\<close>

fun malloc :: "u32 \<Rightarrow> flat_page list \<Rightarrow> u32 \<times> flat_page list" where
  "malloc siz [] = (0, [])"
| "malloc siz (p # ps) =
     (if \<not> fp_used p
      then if siz \<le> fp_limit p then (fp_base p, p\<lparr>fp_used := True\<rparr> # ps)
           else let (r, ps') = malloc siz ps in (r, p\<lparr>fp_map := 1\<rparr> # ps')
      else let (r, ps') = malloc siz ps in (r, p # ps'))"

fun free_page :: "u32 \<Rightarrow> flat_page list \<Rightarrow> flat_page list" where
  "free_page ptr [] = []"
| "free_page ptr (p # ps) =
     (if fp_base p \<le> ptr \<and> fp_base p + fp_limit p > ptr then p\<lparr>fp_used := False\<rparr> # ps
      else p # free_page ptr ps)"

definition flat_free :: "u32 \<Rightarrow> flat_page list \<Rightarrow> flat_page list" where
  "flat_free ptr pdt = (if ptr = 0 then pdt else free_page ptr pdt)"

definition flat_init :: "flat_page list" where
  "flat_init = pdt_init"

section \<open>Properties\<close>

text \<open>Pages of 4096 bytes at the places where the initialisation puts them.\<close>

definition pool_ok :: "flat_page list \<Rightarrow> bool" where
  "pool_ok pdt \<longleftrightarrow> length pdt = PDT_SIZE \<and>
     (\<forall>i < PDT_SIZE. fp_base (pdt ! i) = 0xFFFF + word_of_nat i * 0x1000 \<and> fp_limit (pdt ! i) = 0x1000)"

definition used_pages :: "flat_page list \<Rightarrow> nat set" where
  "used_pages pdt = {i. i < length pdt \<and> fp_used (pdt ! i)}"

lemma page_base_unat: "i < PDT_SIZE \<Longrightarrow> unat (0xFFFF + word_of_nat i * 0x1000 :: u32) = 65535 + 4096 * i"
  by (simp add: unat_simps)

lemma malloc_spec:
  "malloc siz pdt = (r, pdt') \<Longrightarrow>
    (\<forall>i < length pdt. fp_used (pdt ! i) \<or> siz > fp_limit (pdt ! i)) \<and> r = 0 \<and> used_pages pdt' = used_pages pdt \<and>
      map fp_base pdt' = map fp_base pdt \<and> map fp_limit pdt' = map fp_limit pdt \<or>
    (\<exists>i < length pdt. \<not> fp_used (pdt ! i) \<and> siz \<le> fp_limit (pdt ! i) \<and> r = fp_base (pdt ! i) \<and>
      used_pages pdt' = insert i (used_pages pdt) \<and>
      map fp_base pdt' = map fp_base pdt \<and> map fp_limit pdt' = map fp_limit pdt)"
proof (induction pdt arbitrary: r pdt')
  case Nil
  then show ?case by (auto simp: used_pages_def)
next
  case (Cons p ps)
  have used: "used_pages (q # qs) = (if fp_used q then {0} else {}) \<union> Suc ` used_pages qs" for q qs
    unfolding used_pages_def by (auto simp: less_Suc_eq_0_disj image_iff)
  show ?case
  proof (cases "\<not> fp_used p \<and> siz \<le> fp_limit p")
    case True
    then have "r = fp_base p" "pdt' = p\<lparr>fp_used := True\<rparr> # ps" using Cons.prems by auto
    then show ?thesis using True by (intro disjI2 exI [of _ 0]) (simp add: used)
  next
    case False
    obtain ps' where m: "malloc siz ps = (r, ps')" and q: "pdt' = (if fp_used p then p else p\<lparr>fp_map := 1\<rparr>) # ps'"
      using Cons.prems False by (auto split: if_splits prod.splits)
    from Cons.IH [OF m] show ?thesis
    proof (elim disjE exE conjE)
      assume a: "\<forall>i < length ps. fp_used (ps ! i) \<or> fp_limit (ps ! i) < siz" and "r = 0"
        and "used_pages ps' = used_pages ps" "map fp_base ps' = map fp_base ps" "map fp_limit ps' = map fp_limit ps"
      then show ?thesis using q False by (intro disjI1) (auto simp: used less_Suc_eq_0_disj)
    next
      fix i assume "i < length ps" "\<not> fp_used (ps ! i)" "siz \<le> fp_limit (ps ! i)" "r = fp_base (ps ! i)"
        "used_pages ps' = insert i (used_pages ps)" "map fp_base ps' = map fp_base ps" "map fp_limit ps' = map fp_limit ps"
      then show ?thesis using q by (intro disjI2 exI [of _ "Suc i"]) (auto simp: used)
    qed
  qed
qed

lemma free_page_spec:
  assumes "i < length pdt" and "fp_base (pdt ! i) \<le> ptr" and "ptr < fp_base (pdt ! i) + fp_limit (pdt ! i)"
    and "\<forall>j < i. \<not> (fp_base (pdt ! j) \<le> ptr \<and> ptr < fp_base (pdt ! j) + fp_limit (pdt ! j))"
  shows "free_page ptr pdt = pdt[i := (pdt ! i)\<lparr>fp_used := False\<rparr>]"
  using assms
proof (induction pdt arbitrary: i)
  case Nil
  then show ?case by simp
next
  case (Cons p ps)
  show ?case
  proof (cases i)
    case 0
    then show ?thesis using Cons.prems by simp
  next
    case (Suc k)
    have "\<not> (fp_base p \<le> ptr \<and> ptr < fp_base p + fp_limit p)" using Cons.prems(4) Suc by force
    moreover have "free_page ptr ps = ps[k := (ps ! k)\<lparr>fp_used := False\<rparr>]"
      using Cons.IH [of k] Cons.prems Suc by force
    ultimately show ?thesis using Suc by auto
  qed
qed

text \<open>
  \<open>malloc\<close> and \<open>free\<close> keep the pool: a request of at most a page gets the base of an unused page, which
  alone is then used, as long as there is one, and \<open>free\<close> of this pointer releases exactly this page; a
  larger request or one on a full pool returns \<open>NULL\<close> and changes no use.
\<close>

lemma flat_malloc_free:
  assumes "pool_ok pdt" and "malloc siz pdt = (r, pdt')"
  shows "pool_ok pdt' \<and>
    (if siz \<le> 0x1000 \<and> used_pages pdt \<noteq> {..<PDT_SIZE}
     then \<exists>i < PDT_SIZE. i \<notin> used_pages pdt \<and> r = 0xFFFF + word_of_nat i * 0x1000 \<and>
       used_pages pdt' = insert i (used_pages pdt) \<and> used_pages (flat_free r pdt') = used_pages pdt
     else r = 0 \<and> used_pages pdt' = used_pages pdt)"
proof -
  have len: "length pdt = PDT_SIZE" and lim: "i < PDT_SIZE \<Longrightarrow> fp_limit (pdt ! i) = 0x1000" for i
    using assms(1) by (simp_all add: pool_ok_def)
  have mm: "map fp_base pdt' = map fp_base pdt" "map fp_limit pdt' = map fp_limit pdt"
    using malloc_spec [OF assms(2)] by blast+
  have len': "length pdt' = PDT_SIZE" using mm(1) len by (metis length_map)
  have nth: "fp_base (pdt' ! i) = fp_base (pdt ! i)" "fp_limit (pdt' ! i) = fp_limit (pdt ! i)" if "i < PDT_SIZE" for i
    using mm that len len' by (metis nth_map)+
  have ok': "pool_ok pdt'" using assms(1) nth len' by (simp add: pool_ok_def)
  show ?thesis
  proof (cases "\<exists>i < length pdt. \<not> fp_used (pdt ! i) \<and> siz \<le> fp_limit (pdt ! i)")
    case True
    then have "siz \<le> 0x1000 \<and> used_pages pdt \<noteq> {..<PDT_SIZE}"
      using len lim by (auto simp: used_pages_def set_eq_iff)
    moreover obtain i where i: "i < length pdt" "\<not> fp_used (pdt ! i)" "r = fp_base (pdt ! i)"
      "used_pages pdt' = insert i (used_pages pdt)"
      using malloc_spec [OF assms(2)] True by (auto simp: not_less [symmetric])
    have iB: "i < PDT_SIZE" using i(1) len by simp
    have r: "r = 0xFFFF + word_of_nat i * 0x1000" using i(3) assms(1) iB by (simp add: pool_ok_def)
    have in_page: "fp_base (pdt' ! j) \<le> r \<and> r < fp_base (pdt' ! j) + fp_limit (pdt' ! j) \<longleftrightarrow> j = i" if "j < PDT_SIZE" for j
    proof -
      have b: "fp_base (pdt' ! j) = 0xFFFF + word_of_nat j * 0x1000" "fp_limit (pdt' ! j) = 0x1000"
        using ok' that by (simp_all add: pool_ok_def)
      have "unat (fp_base (pdt' ! j)) = 65535 + 4096 * j" "unat r = 65535 + 4096 * i"
        "unat (fp_base (pdt' ! j) + fp_limit (pdt' ! j)) = 65535 + 4096 * j + 4096"
        using that iB unfolding b r by (simp_all add: unat_simps)
      then show ?thesis by (simp add: word_le_nat_alt word_less_nat_alt) linarith
    qed
    have "r \<noteq> 0" using page_base_unat [OF iB] r by auto
    then have "flat_free r pdt' = pdt'[i := (pdt' ! i)\<lparr>fp_used := False\<rparr>]"
      unfolding flat_free_def using free_page_spec [of i pdt' r] in_page iB len' by auto
    then have "used_pages (flat_free r pdt') = used_pages pdt' - {i}"
      using iB len' by (auto simp: used_pages_def nth_list_update)
    then show ?thesis using ok' calculation i(2,4) iB r by (auto simp: used_pages_def)
  next
    case False
    then have "r = 0 \<and> used_pages pdt' = used_pages pdt" using malloc_spec [OF assms(2)] by blast
    moreover have "\<not> (siz \<le> 0x1000 \<and> used_pages pdt \<noteq> {..<PDT_SIZE})"
      using False len lim by (auto simp: used_pages_def)
    ultimately show ?thesis using ok' by (simp only: if_False simp_thms)
  qed
qed

end
