(* ===== verification/Byte_Strings.thy ===== *)
theory Byte_Strings
  imports Kernel_Prelude
begin

text \<open>
  The string and memory routines of the kernel, \<open>src/lib/slibc.c\<close>, on a byte memory with 32-bit
  addresses. Characters are signed: their value in an expression is the sign extended byte.
\<close>

type_synonym mem8 = "u32 \<Rightarrow> u8"

section \<open>Routines\<close>

text \<open>\<open>atoi\<close> ignores its length argument: it reads the 12 bytes at \<open>str\<close>, last to first, and skips zeros.\<close>

definition atoi_step :: "mem8 \<Rightarrow> u32 \<Rightarrow> u32 \<Rightarrow> u32 \<times> u32 \<Rightarrow> nat \<Rightarrow> u32 \<times> u32" where
  "atoi_step m str radix = (\<lambda>(order, res) i. let c = m (str + word_of_nat i) in
     if c \<noteq> 0 then (order * radix, res + (scast c - 48) * order) else (order, res))"

definition atoi :: "mem8 \<Rightarrow> u32 \<Rightarrow> u32 \<Rightarrow> u32 \<Rightarrow> u32" where
  "atoi m str len radix = snd (foldl (atoi_step m str radix) (1, 0) (rev [0..<12]))"

definition memset :: "u32 \<Rightarrow> u8 \<Rightarrow> u32 \<Rightarrow> mem8 \<Rightarrow> mem8" where
  "memset buf val siz m = foldl (\<lambda>m i. m(buf + word_of_nat i := val)) m [0..<unat siz]"

definition copy_bytes :: "u32 \<Rightarrow> u32 \<Rightarrow> nat \<Rightarrow> mem8 \<Rightarrow> mem8" where
  "copy_bytes dst src n m = foldl (\<lambda>m i. m(dst + word_of_nat i := m (src + word_of_nat i))) m [0..<n]"

definition memcpy :: "u32 \<Rightarrow> u32 \<Rightarrow> u32 \<Rightarrow> mem8 \<Rightarrow> u32 \<times> mem8" where
  "memcpy buf cpy len m = (if buf = 0 \<or> cpy = 0 then (0, m) else (buf, copy_bytes buf cpy (unat len) m))"

partial_function (option) strcmp_loop :: "mem8 \<Rightarrow> u32 \<Rightarrow> u32 \<Rightarrow> u32 \<Rightarrow> u32 \<Rightarrow> u32 option" where
  "strcmp_loop m str cmp i diff =
     (let diff = diff + (scast (m (str + i)) - scast (m (cmp + i)))
      in if m (str + i) = 0 \<or> m (cmp + i) = 0 then Some diff else strcmp_loop m str cmp (i + 1) diff)"

definition strcmp :: "mem8 \<Rightarrow> u32 \<Rightarrow> u32 \<Rightarrow> u32 option" where
  "strcmp m str cmp = (if str = 0 \<or> cmp = 0 then Some (-1) else strcmp_loop m str cmp 0 0)"

definition strcpy :: "u32 \<Rightarrow> u32 \<Rightarrow> u32 \<Rightarrow> mem8 \<Rightarrow> u32 \<times> mem8" where
  "strcpy str cpy len m = (if str = 0 \<or> cpy = 0 then (0, m) else (str, copy_bytes str cpy (unat len) m))"

function strnlen_loop :: "mem8 \<Rightarrow> u32 \<Rightarrow> u32 \<Rightarrow> u32 \<Rightarrow> u32" where
  "strnlen_loop m str len i =
     (if m (str + i) \<noteq> 0 \<and> i < len then strnlen_loop m str len (i + 1) else i)"
  by pat_completeness auto
termination
proof (relation "measure (\<lambda>(m, str, len, i). unat len - unat i)")
  fix m :: mem8 and str len i :: u32
  assume a: "m (str + i) \<noteq> 0 \<and> i < len"
  then have "unat i + 1 < 4294967296" using unat_u32_lt [of len] by (simp add: word_less_nat_alt)
  then show "((m, str, len, i + 1), (m, str, len, i)) \<in> measure (\<lambda>(m, str, len, i). unat len - unat i)"
    using a by (auto simp: word_less_nat_alt unat_u32_add)
qed simp

definition strnlen :: "mem8 \<Rightarrow> u32 \<Rightarrow> u32 \<Rightarrow> u32" where
  "strnlen m str len = strnlen_loop m str len 0"

partial_function (option) strlen_loop :: "mem8 \<Rightarrow> u32 \<Rightarrow> u32 \<Rightarrow> u32 option" where
  "strlen_loop m str i = (if m (str + i) \<noteq> 0 then strlen_loop m str (i + 1) else Some i)"

definition strlen :: "mem8 \<Rightarrow> u32 \<Rightarrow> u32 option" where
  "strlen m str = strlen_loop m str 0"

declare strcmp_loop.simps [code] strlen_loop.simps [code] strnlen_loop.simps [simp del]

fun strneq_loop :: "mem8 \<Rightarrow> u32 \<Rightarrow> u32 \<Rightarrow> nat list \<Rightarrow> int" where
  "strneq_loop m str cmp [] = 0"
| "strneq_loop m str cmp (i # is) =
     (let a = m (str + word_of_nat i); b = m (cmp + word_of_nat i) in
      if a \<noteq> 0 \<or> b \<noteq> 0 then if a \<noteq> b then 1 else strneq_loop m str cmp is else 0)"

definition strneq :: "mem8 \<Rightarrow> u32 \<Rightarrow> u32 \<Rightarrow> u32 \<Rightarrow> int" where
  "strneq m str cmp len =
     (if str = 0 \<or> cmp = 0 then -1 else if len = 0 then 0 else strneq_loop m str cmp [0..<unat len])"

section \<open>Strings in memory\<close>

text \<open>The bytes at an address, and the string there, cut at the first zero and at \<open>n\<close> bytes.\<close>

definition bytes_at :: "mem8 \<Rightarrow> u32 \<Rightarrow> nat \<Rightarrow> u8 list" where
  "bytes_at m p n = map (\<lambda>i. m (p + word_of_nat i)) [0..<n]"

definition cstrn :: "mem8 \<Rightarrow> u32 \<Rightarrow> nat \<Rightarrow> u8 list" where
  "cstrn m p n = takeWhile (\<lambda>c. c \<noteq> 0) (bytes_at m p n)"

lemma length_bytes_at [simp]: "length (bytes_at m p n) = n"
  by (simp add: bytes_at_def)

lemma nth_bytes_at [simp]: "i < n \<Longrightarrow> bytes_at m p n ! i = m (p + word_of_nat i)"
  by (simp add: bytes_at_def)

subsection \<open>Numbers\<close>

definition horner_step :: "u32 \<Rightarrow> u32 \<Rightarrow> u8 \<Rightarrow> u32" where
  "horner_step radix acc c = acc * radix + (scast c - 48)"

definition horner :: "u32 \<Rightarrow> u8 list \<Rightarrow> u32" where
  "horner radix ds = foldl (horner_step radix) 0 ds"

lemma horner_shift:
  "foldl (horner_step radix) a ds = a * radix ^ length ds + horner radix ds"
proof (induction ds arbitrary: a)
  case (Cons d ds)
  show ?case
    by (simp add: horner_def Cons [of "horner_step radix a d"] Cons [of "horner_step radix 0 d"])
      (simp add: horner_step_def algebra_simps)
qed (simp add: horner_def)

lemma atoi_fold:
  "foldr (\<lambda>c (order, res). if c \<noteq> 0 then (order * radix, res + (scast c - 48) * order) else (order, res)) cs (1, 0) =
   (radix ^ length (filter (\<lambda>c. c \<noteq> 0) cs), horner radix (filter (\<lambda>c. c \<noteq> 0) cs))"
proof (induction cs)
  case (Cons c cs)
  have "horner radix (c # filter (\<lambda>c. c \<noteq> 0) cs) =
      (scast c - 48) * radix ^ length (filter (\<lambda>c. c \<noteq> 0) cs) + horner radix (filter (\<lambda>c. c \<noteq> 0) cs)"
    using horner_shift [of radix "horner_step radix 0 c" "filter (\<lambda>c. c \<noteq> 0) cs"]
    by (simp add: horner_def horner_step_def)
  with Cons show ?case by (simp add: algebra_simps)
qed (simp add: horner_def)

section \<open>Properties\<close>

text \<open>
  \<open>atoi\<close> evaluates the digits by weight from the last to the first; it agrees with the usual left to
  right evaluation of the non-zero bytes among the 12 at \<open>str\<close>, for every radix and modulo 2 to the 32.
\<close>

theorem atoi_horner:
  "atoi m str len radix = horner radix (filter (\<lambda>c. c \<noteq> 0) (bytes_at m str 12))"
proof -
  let ?g = "\<lambda>c (order, res). if c \<noteq> 0 then (order * radix, res + (scast c - 48) * order) else (order, res)"
  have "foldl (atoi_step m str radix) (1, 0) (rev [0..<12]) = foldr ?g (bytes_at m str 12) (1, 0)"
    by (simp add: foldr_conv_foldl [symmetric] foldl_conv_foldr bytes_at_def foldr_map comp_def
        atoi_step_def case_prod_unfold Let_def)
  then show ?thesis by (simp only: atoi_def atoi_fold snd_conv)
qed

lemma strnlen_loop_cstrn:
  assumes "unat i \<le> unat len" and "\<forall>j < unat i. m (str + word_of_nat j) \<noteq> 0"
  shows "unat (strnlen_loop m str len i) = length (cstrn m str (unat len))"
  using assms
proof (induction m str len i rule: strnlen_loop.induct)
  case (1 m str len i)
  show ?case
  proof (cases "m (str + i) \<noteq> 0 \<and> i < len")
    case True
    then have u: "unat (i + 1) = unat i + 1"
      using unat_u32_lt [of len] by (simp add: word_less_nat_alt unat_u32_add)
    have "\<forall>j < unat (i + 1). m (str + word_of_nat j) \<noteq> 0"
      using 1(3) True unfolding u by (auto simp: less_Suc_eq)
    with 1(1) [OF True] True u show ?thesis
      by (subst strnlen_loop.simps) (simp add: word_less_nat_alt)
  next
    case False
    then have "unat i = unat len \<or> m (str + word_of_nat (unat i)) = 0"
      using 1(2) by (auto simp: word_less_nat_alt)
    then have "cstrn m str (unat len) = take (unat i) (bytes_at m str (unat len))"
      unfolding cstrn_def using 1(3) by (intro takeWhile_eq_take_P_nth) auto
    then have "length (cstrn m str (unat len)) = unat i" using 1(2) by simp
    then show ?thesis using False by (subst strnlen_loop.simps) auto
  qed
qed

text \<open>
  \<open>strnlen\<close> is the length of the string at \<open>str\<close> cut at \<open>len\<close> bytes; the loop ends for every input.
\<close>

theorem strnlen_spec: "unat (strnlen m str len) = length (cstrn m str (unat len))"
  unfolding strnlen_def by (rule strnlen_loop_cstrn) simp_all

lemma strneq_loop_takeWhile:
  "strneq_loop m str cmp is =
    (if takeWhile (\<lambda>c. c \<noteq> 0) (map (\<lambda>i. m (str + word_of_nat i)) is) =
        takeWhile (\<lambda>c. c \<noteq> 0) (map (\<lambda>i. m (cmp + word_of_nat i)) is) then 0 else 1)"
  by (induction "is") (auto simp: Let_def)

text \<open>
  \<open>strneq\<close> decides equality of strings: for two non-null pointers it is 0 exactly when the strings cut
  at \<open>len\<close> bytes are equal, and 1 otherwise.
\<close>

theorem strneq_iff_equal:
  "str \<noteq> 0 \<and> cmp \<noteq> 0 \<Longrightarrow>
    strneq m str cmp len = (if cstrn m str (unat len) = cstrn m cmp (unat len) then 0 else 1)"
  by (auto simp: strneq_def strneq_loop_takeWhile cstrn_def bytes_at_def)

text \<open>A memory with two strings: \<open>ad\<close> at 16 and \<open>bc\<close> at 32.\<close>

definition mem_ad_bc :: mem8 where
  "mem_ad_bc = (\<lambda>_. 0)(16 := 97, 17 := 100, 32 := 98, 33 := 99)"

theorem strneq_iff_equal_witness: "strneq mem_ad_bc 16 32 2 = 1"
proof -
  have "cstrn mem_ad_bc 16 2 \<noteq> cstrn mem_ad_bc 32 2" by code_simp
  with strneq_iff_equal [of 16 32 mem_ad_bc 2] show ?thesis by simp
qed

lemma strcmp_loop_equal:
  assumes "\<forall>j. i \<le> j \<and> j < n \<longrightarrow> m (str + word_of_nat j) = m (cmp + word_of_nat j) \<and> m (str + word_of_nat j) \<noteq> 0"
    and "m (str + word_of_nat n) = 0" and "m (cmp + word_of_nat n) = 0" and "i \<le> n"
  shows "strcmp_loop m str cmp (word_of_nat i) d = Some d"
  using assms
proof (induction "n - i" arbitrary: i)
  case 0
  then show ?case by (subst strcmp_loop.simps) simp
next
  case (Suc k)
  have "k = n - Suc i" "Suc i \<le> n" using Suc.hyps(2) by auto
  moreover have "\<forall>j. Suc i \<le> j \<and> j < n \<longrightarrow>
      m (str + word_of_nat j) = m (cmp + word_of_nat j) \<and> m (str + word_of_nat j) \<noteq> 0"
    using Suc.prems(1) by (meson Suc_leD)
  ultimately have "strcmp_loop m str cmp (word_of_nat (Suc i)) d = Some d"
    using Suc.hyps(1) Suc.prems(2,3) by blast
  moreover have "m (str + word_of_nat i) = m (cmp + word_of_nat i)" "m (str + word_of_nat i) \<noteq> 0"
    using Suc by auto
  ultimately show ?case by (subst strcmp_loop.simps) (simp add: add.commute)
qed

text \<open>
  \<open>strcmp\<close> of two equal strings returns 0, however long they are.
\<close>

theorem strcmp_equal_strings:
  assumes "str \<noteq> 0" and "cmp \<noteq> 0"
    and "\<forall>j < n. m (str + word_of_nat j) = m (cmp + word_of_nat j) \<and> m (str + word_of_nat j) \<noteq> 0"
    and "m (str + word_of_nat n) = 0" and "m (cmp + word_of_nat n) = 0"
  shows "strcmp m str cmp = Some 0"
proof -
  have "strcmp_loop m str cmp (word_of_nat 0) 0 = Some 0"
    by (rule strcmp_loop_equal [of _ n]) (use assms(3-5) in \<open>blast+\<close>)
  with assms(1,2) show ?thesis by (simp add: strcmp_def)
qed

theorem strcmp_equal_strings_witness: "strcmp (\<lambda>_. 0) 16 32 = Some 0"
  using strcmp_equal_strings [of 16 32 0 "\<lambda>_. 0"] by simp

text \<open>
  But 0 does not mean equal: \<open>strcmp\<close> adds up the differences of all characters, so the strings
  \<open>ad\<close> and \<open>bc\<close> compare as equal.
\<close>

theorem strcmp_collision:
  "strcmp mem_ad_bc 16 32 = Some 0 \<and> cstrn mem_ad_bc 16 2 \<noteq> cstrn mem_ad_bc 32 2"
  by code_simp

lemma copy_bytes_spec:
  assumes "n \<le> 2 ^ 32" and "\<forall>i < n. \<forall>j < n. dst + word_of_nat i \<noteq> src + word_of_nat j" and "k \<le> n"
  shows "(\<forall>i < k. copy_bytes dst src k m (dst + word_of_nat i) = m (src + word_of_nat i)) \<and>
    (\<forall>a. (\<forall>i < k. a \<noteq> dst + word_of_nat i) \<longrightarrow> copy_bytes dst src k m a = m a)"
  using assms(3)
proof (induction k)
  case (Suc k)
  let ?m = "copy_bytes dst src k m"
  have st: "copy_bytes dst src (Suc k) m = ?m(dst + word_of_nat k := ?m (src + word_of_nat k))"
    by (simp add: copy_bytes_def)
  have "src + word_of_nat k \<noteq> dst + word_of_nat i" if "i < k" for i
  proof -
    have "i < n" "k < n" using that Suc.prems by auto
    then show ?thesis using assms(2) by metis
  qed
  then have src: "?m (src + word_of_nat k) = m (src + word_of_nat k)" using Suc by simp
  have "(word_of_nat i :: u32) \<noteq> word_of_nat k" if "i < k" for i
  proof -
    have "unat (word_of_nat i :: u32) = i" "unat (word_of_nat k :: u32) = k"
      using that Suc.prems assms(1) by (simp_all add: unat_u32_of_nat)
    with that show ?thesis by (metis less_irrefl)
  qed
  then show ?case using Suc src unfolding st by (auto simp: less_Suc_eq)
qed (simp add: copy_bytes_def)

text \<open>
  \<open>memcpy\<close> between two ranges that do not overlap copies every byte, leaves all other memory as it
  was, and returns the destination; a null pointer on either side copies nothing and returns null.
\<close>

theorem memcpy_copies:
  assumes "\<forall>i < unat len. \<forall>j < unat len. buf + word_of_nat i \<noteq> cpy + word_of_nat j"
  shows "\<exists>m'. memcpy buf cpy len m = (if buf = 0 \<or> cpy = 0 then (0, m) else (buf, m')) \<and>
    bytes_at m' buf (unat len) = bytes_at m cpy (unat len) \<and>
    (\<forall>a. (\<forall>i < unat len. a \<noteq> buf + word_of_nat i) \<longrightarrow> m' a = m a)"
proof -
  have "unat len \<le> 2 ^ 32" using unat_u32_lt [of len] by simp
  note c = copy_bytes_spec [OF this assms order_refl, of m]
  then show ?thesis
    by (intro exI [of _ "copy_bytes buf cpy (unat len) m"]) (auto simp: memcpy_def bytes_at_def)
qed

theorem memcpy_copies_witness:
  "\<exists>m'. memcpy 64 16 2 mem_ad_bc = (64, m') \<and> bytes_at m' 64 2 = bytes_at mem_ad_bc 16 2"
proof -
  have "\<forall>i < unat (2 :: u32). \<forall>j < unat (2 :: u32). 64 + word_of_nat i \<noteq> (16 :: u32) + word_of_nat j"
    by (simp add: less_2_cases_iff)
  from memcpy_copies [OF this, of mem_ad_bc] show ?thesis by auto
qed

end
