(* ===== verification/Framebuffer.thy ===== *)
theory Framebuffer
  imports Byte_Strings "HOL-Library.Monad_Syntax"
begin

text \<open>
  The text console, \<open>src/drivers/fb.c\<close>: the character cells of the screen, their copy \<open>fb_out\<close>, the
  attributes that protect characters from deletion, the write position, scrolling, and the formatted
  output of strings and numbers.

  Arrays are functions of an integer index, so an access outside 0..1999 reads or writes the memory
  beside the array, as the code would. Strings are lists of their bytes without the final zero, of less
  than 65536 bytes (the loops count in 16 bits). The cursor writes to the VGA ports are kept as a list.
\<close>

section \<open>State\<close>

record fb_pixel =
  px_symbol :: u8
  px_fg :: u8
  px_bg :: u8

definition blank_pixel :: fb_pixel where
  "blank_pixel = \<lparr>px_symbol = 0, px_fg = 0, px_bg = 0\<rparr>"

record fb_state =
  fb_pos :: u16
  fb_dev_pos :: u32
  frame_buf :: "int \<Rightarrow> fb_pixel"
  frame_buf_attrs :: "int \<Rightarrow> bool"
  fb_out :: "int \<Rightarrow> u8"
  fb_sync :: bool
  fb_ports :: "(u16 \<times> u8) list"

abbreviation VGA_SIZE :: nat where "VGA_SIZE \<equiv> 2000"
abbreviation FB_WHITE :: u8 where "FB_WHITE \<equiv> 15"
abbreviation FB_BLACK :: u8 where "FB_BLACK \<equiv> 0"
abbreviation KBD_DEL :: u8 where "KBD_DEL \<equiv> 127"

definition cell :: "u16 \<Rightarrow> int" where "cell p = uint p"

section \<open>Cells and positions\<close>

definition write_fb :: "int \<Rightarrow> fb_pixel \<Rightarrow> fb_state \<Rightarrow> fb_state" where
  "write_fb i pixel s =
     (let s = s\<lparr>frame_buf := (frame_buf s)(i := pixel)\<rparr>
      in if fb_sync s then s else s\<lparr>fb_out := (fb_out s)(i := px_symbol pixel)\<rparr>)"

definition set_fb_pos :: "u16 \<Rightarrow> fb_state \<Rightarrow> fb_state" where
  "set_fb_pos new_pos s = s\<lparr>fb_pos := new_pos, fb_dev_pos := ucast new_pos\<rparr>"

definition scroll_cell :: "fb_state \<Rightarrow> int \<Rightarrow> fb_state" where
  "scroll_cell s i = (let s = write_fb (i - 80) (frame_buf s i) s
     in s\<lparr>frame_buf_attrs := (frame_buf_attrs s)(i - 80 := frame_buf_attrs s i)\<rparr>)"

definition clear_cell :: "fb_state \<Rightarrow> int \<Rightarrow> fb_state" where
  "clear_cell s i = (let s = write_fb i blank_pixel s
     in s\<lparr>frame_buf_attrs := (frame_buf_attrs s)(i := False)\<rparr>)"

definition scroll :: "fb_state \<Rightarrow> fb_state" where
  "scroll s =
     (let s = foldl scroll_cell s [80..1999];
          s = foldl clear_cell s [1920..1999]
      in set_fb_pos (fb_pos s - 80) s)"

definition fb_mov_cursor :: "u16 \<Rightarrow> fb_state \<Rightarrow> fb_state" where
  "fb_mov_cursor pos s = s\<lparr>fb_ports := fb_ports s @
     [(0x3D4, 14), (0x3D5, ucast (drop_bit 8 pos AND 0xFF)), (0x3D4, 15), (0x3D5, ucast (pos AND 0xFF))]\<rparr>"

definition fb_newline :: "fb_state \<Rightarrow> fb_state" where
  "fb_newline s =
     (let s = set_fb_pos ((fb_pos s - fb_pos s mod 80) + 80) s
      in if fb_pos s \<ge> 2000 then scroll s else s)"

definition fb_delete_char :: "fb_state \<Rightarrow> fb_state" where
  "fb_delete_char s =
     (if frame_buf_attrs s (cell (fb_pos s) - 1) then s
      else let s = set_fb_pos (fb_pos s - 1) s;
               s = write_fb (cell (fb_pos s)) ((frame_buf s (cell (fb_pos s)))\<lparr>px_symbol := 0\<rparr>) s
           in fb_mov_cursor (fb_pos s) s)"

text \<open>The last part of \<open>fb_print_char\<close>: a character that is drawn.\<close>

definition fb_draw_char :: "u16 \<Rightarrow> u8 \<Rightarrow> u8 \<Rightarrow> u8 \<Rightarrow> fb_state \<Rightarrow> fb_state" where
  "fb_draw_char offset symbol foreground background s =
     (let pixel = \<lparr>px_symbol = symbol, px_fg = foreground AND 0xF, px_bg = background AND 0xF\<rparr>;
          s = (if fb_pos s + offset \<ge> 2000 then scroll s else s);
          s = write_fb (cell (fb_pos s)) pixel s;
          s = set_fb_pos (offset + 1 + fb_pos s) s;
          s = (if px_symbol (frame_buf s (cell (fb_pos s))) = 0
               then write_fb (cell (fb_pos s)) (pixel\<lparr>px_symbol := 0\<rparr>) s else s)
      in fb_mov_cursor (fb_pos s) s)"

text \<open>A tab prints four spaces, which are drawn.\<close>

definition fb_print_char :: "u16 \<Rightarrow> u8 \<Rightarrow> u8 \<Rightarrow> u8 \<Rightarrow> fb_state \<Rightarrow> fb_state" where
  "fb_print_char offset symbol foreground background s =
     (if symbol = 0 \<or> symbol = 13 then s
      else if symbol = 10 then fb_newline s
      else if symbol = 9 then ((fb_draw_char 0 32 FB_WHITE FB_BLACK) ^^ 4) s
      else if symbol = KBD_DEL then fb_delete_char s
      else fb_draw_char offset symbol foreground background s)"

definition fb_putc :: "u8 \<Rightarrow> fb_state \<Rightarrow> fb_state" where
  "fb_putc c s = fb_print_char 0 c FB_WHITE FB_BLACK s"

definition fb_putc_attrs :: "u8 \<Rightarrow> bool \<Rightarrow> fb_state \<Rightarrow> fb_state" where
  "fb_putc_attrs symbol non_deletable s =
     fb_putc symbol (s\<lparr>frame_buf_attrs := (frame_buf_attrs s)(cell (fb_pos s) := non_deletable)\<rparr>)"

definition fb_print_attrs :: "u8 list \<Rightarrow> bool \<Rightarrow> fb_state \<Rightarrow> fb_state" where
  "fb_print_attrs msg non_deletable s = foldl (\<lambda>s c. fb_putc_attrs c non_deletable s) s msg"

definition fb_delete_last :: "u16 \<Rightarrow> fb_state \<Rightarrow> fb_state" where
  "fb_delete_last len s = (fb_delete_char ^^ unat len) s"

text \<open>
  The search for the last protected character, from the position down; \<open>None\<close> when it leaves the array.
  The result is the index of the text in \<open>fb_out\<close> and its length.
\<close>

fun last_protected :: "fb_state \<Rightarrow> nat \<Rightarrow> nat option" where
  "last_protected s 0 = (if frame_buf_attrs s 0 then Some 0 else None)"
| "last_protected s (Suc i) = (if frame_buf_attrs s (int (Suc i)) then Some (Suc i) else last_protected s i)"

definition fb_last_written_buf :: "fb_state \<Rightarrow> (nat \<times> u32) option" where
  "fb_last_written_buf s = do {
     i \<leftarrow> last_protected s (unat (fb_pos s));
     Some (i + 1, ucast (fb_pos s) - word_of_nat i - 1)
   }"

definition fb_clear :: "fb_state \<Rightarrow> fb_state" where
  "fb_clear s = (foldl (\<lambda>s i. s\<lparr>frame_buf := (frame_buf s)(i := blank_pixel),
       frame_buf_attrs := (frame_buf_attrs s)(i := False), fb_out := (fb_out s)(i := 0)\<rparr>) s [0..1999])\<lparr>fb_pos := 0\<rparr>"

section \<open>Strings\<close>

text \<open>The bytes of a string literal.\<close>

definition text_bytes :: "string \<Rightarrow> u8 list" where
  "text_bytes = map (\<lambda>c. word_of_nat (of_char c))"

definition fb_print :: "u8 list \<Rightarrow> u8 \<Rightarrow> u8 \<Rightarrow> fb_state \<Rightarrow> fb_state" where
  "fb_print msg fg bg s = foldl (\<lambda>s c. fb_print_char 0 c fg bg s) s msg"

definition fb_nprint :: "u8 list \<Rightarrow> u8 \<Rightarrow> u8 \<Rightarrow> u32 \<Rightarrow> fb_state \<Rightarrow> u32 \<times> fb_state" where
  "fb_nprint msg fg bg siz s =
     (let msg = take (unat siz) msg in (word_of_nat (length msg), fb_print msg fg bg s))"

definition fb_print_black :: "u8 list \<Rightarrow> fb_state \<Rightarrow> fb_state" where
  "fb_print_black msg s = fb_print msg FB_WHITE FB_BLACK s"

definition fb_nprint_black :: "u8 list \<Rightarrow> u32 \<Rightarrow> fb_state \<Rightarrow> u32 \<times> fb_state" where
  "fb_nprint_black msg siz s = fb_nprint msg FB_WHITE FB_BLACK siz s"

text \<open>\<open>drivers/io.c\<close>: the character device is not used, and \<open>flush\<close> does nothing.\<close>

definition fprintf :: "'b \<Rightarrow> u8 list \<Rightarrow> fb_state \<Rightarrow> fb_state" where
  "fprintf char_dev msg s = fb_print_black msg s"

definition flush :: "'b \<Rightarrow> fb_state \<Rightarrow> fb_state" where
  "flush dev s = s"

definition fb_put_pixel :: "fb_pixel \<Rightarrow> fb_state \<Rightarrow> fb_state" where
  "fb_put_pixel pixel s = fb_print_char 0 (px_symbol pixel) FB_WHITE (px_bg pixel) s"

definition fb_print_pixels :: "fb_pixel list \<Rightarrow> fb_state \<Rightarrow> fb_state" where
  "fb_print_pixels pixels s = foldl (\<lambda>s p. fb_put_pixel p s) s pixels"

text \<open>The flush prints the copy from the position on, while the device position moves on with it.\<close>

partial_function (option) fb_flush_loop :: "u32 \<Rightarrow> fb_state \<Rightarrow> fb_state option" where
  "fb_flush_loop i s =
     (if i \<le> fb_dev_pos s then fb_flush_loop (i + 1) (fb_putc (fb_out s (uint i)) s) else Some s)"

definition fb_flush :: "fb_state \<Rightarrow> fb_state option" where
  "fb_flush s = do {
     s \<leftarrow> fb_flush_loop (ucast (fb_pos s)) (s\<lparr>fb_sync := True\<rparr>);
     Some (s\<lparr>fb_sync := False\<rparr>)
   }"

section \<open>Numbers\<close>

text \<open>
  The digits are written from the end of the buffer towards its start. A buffer is a function of the
  offset from \<open>str\<close>; the result is the offset of the first character, \<open>*mul\<close> and the buffer.
\<close>

function print_num_rec :: "u32 \<Rightarrow> u32 \<Rightarrow> (u32 \<Rightarrow> u8) \<Rightarrow> u32 \<Rightarrow> u32 \<times> u32 \<times> (u32 \<Rightarrow> u8)" where
  "print_num_rec num mul str siz =
     (if num \<ge> 10
      then let d = num div 10; c = ucast (num - d * 10 + 48)
           in print_num_rec d (mul + 1) (str(siz - mul - 1 := c)) siz
      else (siz - mul - 1, mul, str(siz - mul - 1 := ucast (num + 48))))"
  by pat_completeness auto
termination
  by (relation "measure (\<lambda>(num, mul, str, siz). unat num)") (auto simp: word_le_nat_alt unat_div)

definition itoa :: "u32 \<Rightarrow> (u32 \<Rightarrow> u8) \<Rightarrow> u32 \<Rightarrow> u32 \<Rightarrow> u32 \<times> u32 \<times> (u32 \<Rightarrow> u8)" where
  "itoa num buf siz radix = print_num_rec num 1 buf siz"

definition buf_text :: "(u32 \<Rightarrow> u8) \<Rightarrow> u32 \<Rightarrow> nat \<Rightarrow> u8 list" where
  "buf_text buf off n = map (\<lambda>i. buf (off + word_of_nat i)) [0..<n]"

definition fb_print_num_color :: "u32 \<Rightarrow> u8 \<Rightarrow> u8 \<Rightarrow> fb_state \<Rightarrow> fb_state" where
  "fb_print_num_color num fg bg s =
     (let (off, mul, str) = print_num_rec num 1 (\<lambda>_. 0) 16
      in snd (fb_nprint (buf_text str off (unat mul)) fg bg mul s))"

definition fb_print_num :: "u32 \<Rightarrow> fb_state \<Rightarrow> fb_state" where
  "fb_print_num num s = fb_print_num_color num FB_WHITE FB_BLACK s"

definition dec_to_hex :: "u32 \<Rightarrow> u8" where
  "dec_to_hex num = (if num \<ge> 10 then ucast (num + 48 + 7) else ucast (num + 48))"

function print_hex_rec :: "u32 \<Rightarrow> u32 \<Rightarrow> (u32 \<Rightarrow> u8) \<Rightarrow> u32 \<Rightarrow> u32 \<times> u32 \<times> (u32 \<Rightarrow> u8)" where
  "print_hex_rec num mul str siz =
     (if num \<ge> 16
      then let d = num div 16; c = dec_to_hex (num - d * 16)
           in print_hex_rec d (mul + 1) (str(siz - mul - 1 := c)) siz
      else let str = str(siz - mul - 1 := dec_to_hex num, siz - mul - 2 := 120, siz - mul - 3 := 48);
               mul = mul + 2
           in (siz - mul - 1, mul, str))"
  by pat_completeness auto
termination
  by (relation "measure (\<lambda>(num, mul, str, siz). unat num)") (auto simp: word_le_nat_alt unat_div)

definition fb_print_hex_color :: "u32 \<Rightarrow> u8 \<Rightarrow> u8 \<Rightarrow> fb_state \<Rightarrow> fb_state" where
  "fb_print_hex_color num fg bg s =
     (let (off, mul, str) = print_hex_rec num 1 (\<lambda>_. 0) 16
      in snd (fb_nprint (buf_text str off (unat mul)) fg bg mul s))"

definition fb_print_hex :: "u32 \<Rightarrow> fb_state \<Rightarrow> fb_state" where
  "fb_print_hex num s = fb_print_hex_color num FB_WHITE FB_BLACK s"

declare print_num_rec.simps [simp del] print_hex_rec.simps [simp del] fb_flush_loop.simps [code]

section \<open>Formatted output\<close>

text \<open>The arguments of a format: strings and words. \<open>None\<close> when an argument is missing or of the other kind.\<close>

datatype farg = AStr "u8 list" | ANum u32

definition format_arg :: "u8 \<Rightarrow> u8 \<Rightarrow> u8 \<Rightarrow> farg list \<Rightarrow> fb_state \<Rightarrow> (farg list \<times> fb_state) option" where
  "format_arg c fg bg args s =
     (if c = 115 then (case args of AStr str # as \<Rightarrow> Some (as, fb_print str fg bg s) | _ \<Rightarrow> None)
      else if c = 100 \<or> c = 117 then (case args of ANum n # as \<Rightarrow> Some (as, fb_print_num_color n fg bg s) | _ \<Rightarrow> None)
      else if c = 120 \<or> c = 112 then (case args of ANum n # as \<Rightarrow> Some (as, fb_print_hex_color n fg bg s) | _ \<Rightarrow> None)
      else Some (args, s))"

fun fb_vprintf_loop :: "u8 list \<Rightarrow> bool \<Rightarrow> u8 \<Rightarrow> u8 \<Rightarrow> farg list \<Rightarrow> fb_state \<Rightarrow> fb_state option" where
  "fb_vprintf_loop [] format_char fg bg args s = Some s"
| "fb_vprintf_loop (c # msg) format_char fg bg args s =
     (if c = 37 then fb_vprintf_loop msg True fg bg args s
      else if format_char
      then do { (args, s) \<leftarrow> format_arg c fg bg args s; fb_vprintf_loop msg False fg bg args s }
      else fb_vprintf_loop msg False fg bg args (fb_print_char 0 c fg bg s))"

definition fb_vprintf_color :: "u8 list \<Rightarrow> u8 \<Rightarrow> u8 \<Rightarrow> farg list \<Rightarrow> fb_state \<Rightarrow> (int \<times> fb_state) option" where
  "fb_vprintf_color msg fg bg args s = do { s \<leftarrow> fb_vprintf_loop msg False fg bg args s; Some (0, s) }"

definition fb_vprintf :: "u8 list \<Rightarrow> farg list \<Rightarrow> fb_state \<Rightarrow> (int \<times> fb_state) option" where
  "fb_vprintf msg args s = fb_vprintf_color msg FB_WHITE FB_BLACK args s"

section \<open>Scrolling\<close>

lemma write_fb_simps [simp]:
  "frame_buf (write_fb i p s) = (frame_buf s)(i := p)" "fb_pos (write_fb i p s) = fb_pos s"
  "fb_sync (write_fb i p s) = fb_sync s" "frame_buf_attrs (write_fb i p s) = frame_buf_attrs s"
  "fb_out (write_fb i p s) = (if fb_sync s then fb_out s else (fb_out s)(i := px_symbol p))"
  by (simp_all add: write_fb_def Let_def)

lemma set_fb_pos_simps [simp]:
  "fb_pos (set_fb_pos p s) = p" "frame_buf (set_fb_pos p s) = frame_buf s" "fb_sync (set_fb_pos p s) = fb_sync s"
  "frame_buf_attrs (set_fb_pos p s) = frame_buf_attrs s" "fb_out (set_fb_pos p s) = fb_out s"
  by (simp_all add: set_fb_pos_def)

lemma fb_mov_cursor_simps [simp]:
  "fb_pos (fb_mov_cursor p s) = fb_pos s" "frame_buf (fb_mov_cursor p s) = frame_buf s"
  "fb_sync (fb_mov_cursor p s) = fb_sync s" "frame_buf_attrs (fb_mov_cursor p s) = frame_buf_attrs s"
  "fb_out (fb_mov_cursor p s) = fb_out s"
  by (simp_all add: fb_mov_cursor_def)

lemma scroll_cell_simps:
  "frame_buf (scroll_cell s i) = (frame_buf s)(i - 80 := frame_buf s i)"
  "frame_buf_attrs (scroll_cell s i) = (frame_buf_attrs s)(i - 80 := frame_buf_attrs s i)"
  "fb_out (scroll_cell s i) = (if fb_sync s then fb_out s else (fb_out s)(i - 80 := px_symbol (frame_buf s i)))"
  "fb_pos (scroll_cell s i) = fb_pos s" "fb_sync (scroll_cell s i) = fb_sync s"
  by (simp_all add: scroll_cell_def Let_def)

lemma clear_cell_simps:
  "frame_buf (clear_cell s i) = (frame_buf s)(i := blank_pixel)"
  "frame_buf_attrs (clear_cell s i) = (frame_buf_attrs s)(i := False)"
  "fb_out (clear_cell s i) = (if fb_sync s then fb_out s else (fb_out s)(i := 0))"
  "fb_pos (clear_cell s i) = fb_pos s" "fb_sync (clear_cell s i) = fb_sync s"
  by (simp_all add: clear_cell_def Let_def blank_pixel_def)

lemma scroll_cells:
  fixes s :: fb_state and k :: nat
  defines "s' \<equiv> foldl scroll_cell s [80..79 + int k]"
  shows "(\<forall>i. frame_buf s' i = (if 0 \<le> i \<and> i < int k then frame_buf s (80 + i) else frame_buf s i)) \<and>
    (\<forall>i. frame_buf_attrs s' i = (if 0 \<le> i \<and> i < int k then frame_buf_attrs s (80 + i) else frame_buf_attrs s i)) \<and>
    (\<forall>i. fb_out s' i = (if 0 \<le> i \<and> i < int k \<and> \<not> fb_sync s then px_symbol (frame_buf s (80 + i)) else fb_out s i)) \<and>
    fb_pos s' = fb_pos s \<and> fb_sync s' = fb_sync s"
  unfolding s'_def
proof (induction k)
  case (Suc k)
  have "[80..79 + int (Suc k)] = [80..79 + int k] @ [80 + int k]"
    using upto_rec2 [of 80 "80 + int k"] by (simp add: add.commute)
  with Suc show ?case by (auto simp: scroll_cell_simps)
qed auto

lemma clear_cells:
  fixes s :: fb_state and k :: nat
  defines "s' \<equiv> foldl clear_cell s [1920..1919 + int k]"
  shows "(\<forall>i. frame_buf s' i = (if 1920 \<le> i \<and> i < 1920 + int k then blank_pixel else frame_buf s i)) \<and>
    (\<forall>i. frame_buf_attrs s' i = (if 1920 \<le> i \<and> i < 1920 + int k then False else frame_buf_attrs s i)) \<and>
    (\<forall>i. fb_out s' i = (if 1920 \<le> i \<and> i < 1920 + int k \<and> \<not> fb_sync s then 0 else fb_out s i)) \<and>
    fb_pos s' = fb_pos s \<and> fb_sync s' = fb_sync s"
  unfolding s'_def
proof (induction k)
  case (Suc k)
  have "[1920..1919 + int (Suc k)] = [1920..1919 + int k] @ [1920 + int k]"
    using upto_rec2 [of 1920 "1920 + int k"] by (simp add: add.commute)
  with Suc show ?case by (auto simp: clear_cell_simps)
qed auto

lemma scroll_simps:
  "frame_buf (scroll s) i = (if 0 \<le> i \<and> i < 1920 then frame_buf s (80 + i)
     else if 1920 \<le> i \<and> i < 2000 then blank_pixel else frame_buf s i)"
  "frame_buf_attrs (scroll s) i = (if 0 \<le> i \<and> i < 1920 then frame_buf_attrs s (80 + i)
     else if 1920 \<le> i \<and> i < 2000 then False else frame_buf_attrs s i)"
  "fb_out (scroll s) i = (if fb_sync s then fb_out s i
     else if 0 \<le> i \<and> i < 1920 then px_symbol (frame_buf s (80 + i))
     else if 1920 \<le> i \<and> i < 2000 then 0 else fb_out s i)"
  "fb_pos (scroll s) = fb_pos s - 80" "fb_sync (scroll s) = fb_sync s"
proof -
  define s1 where "s1 = foldl scroll_cell s [80..1999]"
  define s2 where "s2 = foldl clear_cell s1 [1920..1999]"
  have e: "79 + int 1920 = 1999" "1919 + int 80 = 1999" by simp_all
  note f = scroll_cells [of s 1920, unfolded e, folded s1_def] clear_cells [of s1 80, unfolded e, folded s2_def]
  have sc: "scroll s = set_fb_pos (fb_pos s2 - 80) s2" unfolding scroll_def Let_def s1_def s2_def ..
  show "frame_buf (scroll s) i = (if 0 \<le> i \<and> i < 1920 then frame_buf s (80 + i)
     else if 1920 \<le> i \<and> i < 2000 then blank_pixel else frame_buf s i)"
    "frame_buf_attrs (scroll s) i = (if 0 \<le> i \<and> i < 1920 then frame_buf_attrs s (80 + i)
     else if 1920 \<le> i \<and> i < 2000 then False else frame_buf_attrs s i)"
    "fb_out (scroll s) i = (if fb_sync s then fb_out s i
     else if 0 \<le> i \<and> i < 1920 then px_symbol (frame_buf s (80 + i))
     else if 1920 \<le> i \<and> i < 2000 then 0 else fb_out s i)"
    "fb_pos (scroll s) = fb_pos s - 80" "fb_sync (scroll s) = fb_sync s"
    using f unfolding sc by auto
qed

section \<open>Properties\<close>

text \<open>
  Scrolling moves every row up by one, with its attributes: the cells of the rows 1 to 24 go to the
  row above, the last row becomes blank and deletable, the copy \<open>fb_out\<close> follows the screen, and the
  position moves back by one row.
\<close>

theorem scroll_moves_rows:
  assumes "\<not> fb_sync s"
  shows "(\<forall>i. 0 \<le> i \<and> i < 1920 \<longrightarrow> frame_buf (scroll s) i = frame_buf s (80 + i) \<and>
      frame_buf_attrs (scroll s) i = frame_buf_attrs s (80 + i)) \<and>
    (\<forall>i. 1920 \<le> i \<and> i < 2000 \<longrightarrow> frame_buf (scroll s) i = blank_pixel \<and> \<not> frame_buf_attrs (scroll s) i) \<and>
    (\<forall>i. 0 \<le> i \<and> i < 2000 \<longrightarrow> fb_out (scroll s) i = px_symbol (frame_buf (scroll s) i)) \<and>
    fb_pos (scroll s) = fb_pos s - 80"
  using assms by (auto simp: scroll_simps blank_pixel_def)

definition fb_blank :: fb_state where
  "fb_blank = \<lparr>fb_pos = 0, fb_dev_pos = 0, frame_buf = (\<lambda>_. blank_pixel), frame_buf_attrs = (\<lambda>_. False),
     fb_out = (\<lambda>_. 0), fb_sync = False, fb_ports = []\<rparr>"

theorem scroll_moves_rows_witness:
  "frame_buf (scroll (fb_blank\<lparr>frame_buf := (\<lambda>i. \<lparr>px_symbol = word_of_int i, px_fg = 15, px_bg = 0\<rparr>)\<rparr>)) 0 =
     \<lparr>px_symbol = 80, px_fg = 15, px_bg = 0\<rparr>"
  using scroll_moves_rows [of "fb_blank\<lparr>frame_buf := (\<lambda>i. \<lparr>px_symbol = word_of_int i, px_fg = 15, px_bg = 0\<rparr>)\<rparr>"]
  by (simp add: fb_blank_def)

text \<open>
  The invariant of the console: the position is on the screen or directly behind it, and the copy holds
  the characters of the screen.
\<close>

definition fb_ok :: "fb_state \<Rightarrow> bool" where
  "fb_ok s \<longleftrightarrow> fb_pos s \<le> 2000 \<and> \<not> fb_sync s \<and>
     (\<forall>i. 0 \<le> i \<and> i < 2000 \<longrightarrow> fb_out s i = px_symbol (frame_buf s i))"

lemma scroll_ok: "fb_ok s \<Longrightarrow> 80 \<le> fb_pos s \<Longrightarrow> fb_ok (scroll s)"
  by (auto simp: fb_ok_def scroll_simps blank_pixel_def word_le_nat_alt unat_sub)

lemma fb_draw_char_ok:
  assumes "fb_ok s"
  shows "fb_ok (fb_draw_char 0 c fg bg s)"
proof -
  define s1 where "s1 = (if fb_pos s \<ge> 2000 then scroll s else s)"
  have ok: "fb_ok s1"
  proof (cases "fb_pos s \<ge> 2000")
    case True
    then have "80 \<le> fb_pos s" by (rule order_trans [rotated]) simp
    with True assms scroll_ok show ?thesis by (simp add: s1_def)
  qed (use assms in \<open>simp add: s1_def\<close>)
  have "fb_pos s1 < 2000"
  proof (cases "fb_pos s \<ge> 2000")
    case True
    with assms have "fb_pos s = 2000" by (simp add: fb_ok_def)
    then show ?thesis by (simp add: s1_def scroll_simps)
  qed (simp add: s1_def)
  then have "1 + fb_pos s1 \<le> 2000" by (simp add: word_less_nat_alt word_le_nat_alt unat_word_ariths)
  with ok show ?thesis
    unfolding fb_draw_char_def by (simp add: s1_def [symmetric] Let_def) (auto simp: fb_ok_def)
qed

lemma fb_newline_ok:
  assumes "fb_ok s"
  shows "fb_ok (fb_newline s)"
proof -
  let ?p = "fb_pos s - fb_pos s mod 80 + 80"
  have p: "unat (fb_pos s) \<le> 2000" using assms by (simp add: fb_ok_def word_le_nat_alt)
  have m: "unat (fb_pos s mod 80) = unat (fb_pos s) mod 80" by (simp add: unat_mod)
  have "unat (fb_pos s - fb_pos s mod 80) \<le> 2000"
    using m p by (simp add: unat_sub word_le_nat_alt)
  then have "?p - 80 \<le> 2000" by (simp add: word_le_nat_alt)
  then show ?thesis
    using assms unfolding fb_newline_def
    by (simp add: Let_def fb_ok_def scroll_simps blank_pixel_def not_le less_imp_le)
qed

lemma fb_print_char_ok: "fb_ok s \<Longrightarrow> c \<noteq> KBD_DEL \<Longrightarrow> fb_ok (fb_print_char 0 c fg bg s)"
  by (simp add: fb_print_char_def fb_newline_ok fb_draw_char_ok eval_nat_numeral)

text \<open>Printing a string without the delete character keeps the console consistent.\<close>

lemma fb_print_keeps_ok:
  assumes "fb_ok s" and "KBD_DEL \<notin> set msg"
  shows "fb_ok (fb_print msg fg bg s)"
  using assms by (induction msg arbitrary: s) (auto simp: fb_print_def fb_print_char_ok)

text \<open>
  A character drawn in the last cell writes behind \<open>fb_out\<close>: the position becomes 2000, and the code
  that blanks the next cell stores a zero at index 2000 of the array of 2000 bytes.
\<close>

theorem fb_draw_last_cell_overflow:
  assumes "fb_pos s = 1999" and "\<not> fb_sync s" and "px_symbol (frame_buf s 2000) = 0"
  shows "fb_out (fb_draw_char 0 c fg bg s) 2000 = 0 \<and>
    frame_buf (fb_draw_char 0 c fg bg s) 2000 = \<lparr>px_symbol = 0, px_fg = fg AND 0xF, px_bg = bg AND 0xF\<rparr>"
  using assms by (simp add: fb_draw_char_def Let_def cell_def)

theorem fb_draw_last_cell_overflow_witness:
  "fb_out (fb_draw_char 0 65 15 0 (fb_blank\<lparr>fb_pos := 1999, fb_out := (\<lambda>_. 7)\<rparr>)) 2000 = 0"
  using fb_draw_last_cell_overflow [of "fb_blank\<lparr>fb_pos := 1999, fb_out := (\<lambda>_. 7)\<rparr>" 65 15 0]
  by (simp add: fb_blank_def blank_pixel_def)

section \<open>Plain text\<close>

text \<open>Characters that are drawn, and the state after a text of them that fits on the screen.\<close>

definition plain :: "u8 \<Rightarrow> bool" where
  "plain c \<longleftrightarrow> c \<notin> {0, 9, 10, 13, KBD_DEL}"

lemma fb_print_plain_char: "plain c \<Longrightarrow> fb_print_char 0 c fg bg s = fb_draw_char 0 c fg bg s"
  by (simp add: plain_def fb_print_char_def)

lemma uint_unat_eq: "unat x = n \<Longrightarrow> uint x = int n"
  by auto

lemma fb_draw_plain:
  assumes "unat (fb_pos s) < 1999" and "\<not> fb_sync s"
  shows "unat (fb_pos (fb_draw_char 0 c fg bg s)) = unat (fb_pos s) + 1"
    and "\<not> fb_sync (fb_draw_char 0 c fg bg s)"
    and "frame_buf_attrs (fb_draw_char 0 c fg bg s) = frame_buf_attrs s"
    and "i \<noteq> uint (fb_pos s) + 1 \<Longrightarrow>
      fb_out (fb_draw_char 0 c fg bg s) i = (if i = uint (fb_pos s) then c else fb_out s i)"
    and "i \<noteq> uint (fb_pos s) + 1 \<Longrightarrow>
      px_symbol (frame_buf (fb_draw_char 0 c fg bg s) i) = (if i = uint (fb_pos s) then c else px_symbol (frame_buf s i))"
proof -
  have p: "\<not> fb_pos s \<ge> 2000" using assms(1) by (simp add: word_le_nat_alt)
  have u: "unat (1 + fb_pos s) = unat (fb_pos s) + 1" using assms(1) by (simp add: unat_word_ariths)
  from uint_unat_eq [OF u] have c: "cell (1 + fb_pos s) = uint (fb_pos s) + 1" by (simp add: cell_def)
  show "unat (fb_pos (fb_draw_char 0 c fg bg s)) = unat (fb_pos s) + 1" "\<not> fb_sync (fb_draw_char 0 c fg bg s)"
    "frame_buf_attrs (fb_draw_char 0 c fg bg s) = frame_buf_attrs s"
    using p u assms(2) by (simp_all add: fb_draw_char_def Let_def)
  show "fb_out (fb_draw_char 0 c fg bg s) i = (if i = uint (fb_pos s) then c else fb_out s i)"
    "px_symbol (frame_buf (fb_draw_char 0 c fg bg s) i) = (if i = uint (fb_pos s) then c else px_symbol (frame_buf s i))"
    if "i \<noteq> uint (fb_pos s) + 1"
    using p c assms(2) that by (simp_all add: fb_draw_char_def Let_def cell_def)
qed

lemma fb_print_plain:
  assumes "unat (fb_pos s) + length msg < 2000" and "\<not> fb_sync s" and "\<forall>c \<in> set msg. plain c"
  shows "unat (fb_pos (fb_print msg fg bg s)) = unat (fb_pos s) + length msg \<and> \<not> fb_sync (fb_print msg fg bg s) \<and>
    frame_buf_attrs (fb_print msg fg bg s) = frame_buf_attrs s \<and>
    (\<forall>i < length msg. fb_out (fb_print msg fg bg s) (uint (fb_pos s) + int i) = msg ! i) \<and>
    (\<forall>i < uint (fb_pos s). fb_out (fb_print msg fg bg s) i = fb_out s i)"
  using assms
proof (induction msg arbitrary: s)
  case Nil
  then show ?case by (simp add: fb_print_def)
next
  case (Cons c msg)
  let ?t = "fb_draw_char 0 c fg bg s"
  have d: "unat (fb_pos s) < 1999" "\<not> fb_sync s" using Cons.prems by simp_all
  note t = fb_draw_plain [OF d, where c = c and fg = fg and bg = bg]
  have p: "uint (fb_pos ?t) = uint (fb_pos s) + 1" using uint_unat_eq [OF t(1)] by simp
  have ih: "unat (fb_pos (fb_print msg fg bg ?t)) = unat (fb_pos ?t) + length msg \<and> \<not> fb_sync (fb_print msg fg bg ?t) \<and>
    frame_buf_attrs (fb_print msg fg bg ?t) = frame_buf_attrs ?t \<and>
    (\<forall>i < length msg. fb_out (fb_print msg fg bg ?t) (uint (fb_pos ?t) + int i) = msg ! i) \<and>
    (\<forall>i < uint (fb_pos ?t). fb_out (fb_print msg fg bg ?t) i = fb_out ?t i)"
    using Cons.IH [of ?t] Cons.prems t(1,2) by simp
  have e: "fb_print (c # msg) fg bg s = fb_print msg fg bg ?t"
    using Cons.prems(3) by (simp add: fb_print_def fb_print_plain_char)
  have "fb_out (fb_print msg fg bg ?t) (uint (fb_pos s) + int i) = (c # msg) ! i" if "i < length (c # msg)" for i
  proof (cases i)
    case 0
    then show ?thesis using ih p t(4) [where i = "uint (fb_pos s)"] by simp
  next
    case (Suc j)
    then have "fb_out (fb_print msg fg bg ?t) (uint (fb_pos ?t) + int j) = msg ! j" using ih that by simp
    then show ?thesis using Suc p by (simp add: algebra_simps)
  qed
  moreover have "fb_out (fb_print msg fg bg ?t) i = fb_out s i" if "i < uint (fb_pos s)" for i
    using ih p t(4) [where i = i] that by simp
  ultimately show ?case unfolding e using ih t(1,3) by simp
qed

lemma fb_delete_char_simps:
  assumes "\<not> frame_buf_attrs s (cell (fb_pos s) - 1)" and "\<not> fb_sync s"
  shows "fb_pos (fb_delete_char s) = fb_pos s - 1" and "fb_sync (fb_delete_char s) = fb_sync s"
    and "frame_buf_attrs (fb_delete_char s) = frame_buf_attrs s"
    and "fb_out (fb_delete_char s) = (fb_out s)(cell (fb_pos s - 1) := 0)"
  using assms by (simp_all add: fb_delete_char_def Let_def)

text \<open>Deleting plain text moves the position back and blanks the characters.\<close>

lemma fb_delete_last_plain:
  assumes "n \<le> unat (fb_pos s)" and "\<not> fb_sync s"
    and "\<forall>i. uint (fb_pos s) - int n \<le> i \<and> i < uint (fb_pos s) \<longrightarrow> \<not> frame_buf_attrs s i"
  shows "unat (fb_pos ((fb_delete_char ^^ n) s)) = unat (fb_pos s) - n \<and> \<not> fb_sync ((fb_delete_char ^^ n) s) \<and>
    frame_buf_attrs ((fb_delete_char ^^ n) s) = frame_buf_attrs s \<and>
    (\<forall>i. fb_out ((fb_delete_char ^^ n) s) i = (if uint (fb_pos s) - int n \<le> i \<and> i < uint (fb_pos s) then 0 else fb_out s i))"
  using assms
proof (induction n)
  case 0
  then show ?case by auto
next
  case (Suc n)
  let ?t = "(fb_delete_char ^^ n) s"
  have ih: "unat (fb_pos ?t) = unat (fb_pos s) - n" "\<not> fb_sync ?t" "frame_buf_attrs ?t = frame_buf_attrs s"
    "\<And>i. fb_out ?t i = (if uint (fb_pos s) - int n \<le> i \<and> i < uint (fb_pos s) then 0 else fb_out s i)"
    using Suc by auto
  have u: "uint (fb_pos ?t) = uint (fb_pos s) - int n" using uint_unat_eq [OF ih(1)] Suc.prems(1) by simp
  have u1: "unat (fb_pos ?t - 1) = unat (fb_pos s) - Suc n"
    using ih(1) Suc.prems(1) by (simp add: unat_sub word_le_nat_alt)
  from uint_unat_eq [OF this] have c1: "cell (fb_pos ?t - 1) = uint (fb_pos s) - int n - 1"
    using Suc.prems(1) by (simp add: cell_def)
  have "\<not> frame_buf_attrs ?t (cell (fb_pos ?t) - 1)" using ih(3) u Suc.prems(3) by (simp add: cell_def)
  note d = fb_delete_char_simps [OF this ih(2)]
  show ?case using ih(2,3) u1 c1 by (auto simp: d ih(4))
qed

section \<open>Decimal numbers\<close>

text \<open>The decimal notation of a number.\<close>

fun dec_digits :: "nat \<Rightarrow> u8 list" where
  "dec_digits n = (if n < 10 then [word_of_nat (48 + n)] else dec_digits (n div 10) @ [word_of_nat (48 + n mod 10)])"

declare dec_digits.simps [simp del]

lemma dec_digits_length: "n < 10 ^ Suc k \<Longrightarrow> length (dec_digits n) \<le> Suc k"
proof (induction k arbitrary: n)
  case 0
  then show ?case by (simp add: dec_digits.simps)
next
  case (Suc k)
  then have "n div 10 < 10 ^ Suc k" by simp
  with Suc.IH have "length (dec_digits (n div 10)) \<le> Suc k" by blast
  then show ?case by (subst dec_digits.simps) simp
qed

lemma digit_value:
  assumes "d < 10"
  shows "scast (word_of_nat (48 + d) :: u8) - 48 = (word_of_nat d :: u32)"
proof -
  have "d \<in> {0, 1, 2, 3, 4, 5, 6, 7, 8, 9}" using assms by auto
  then show ?thesis by (elim insertE emptyE) simp_all
qed

lemma horner_dec_digits: "horner 10 (dec_digits n) = word_of_nat n"
proof (induction n rule: dec_digits.induct)
  case (1 n)
  show ?case
  proof (cases "n < 10")
    case True
    then show ?thesis using digit_value by (simp add: dec_digits.simps horner_def horner_step_def)
  next
    case False
    have "word_of_nat (n div 10) * 10 + word_of_nat (n mod 10) = (word_of_nat n :: u32)"
      by (metis div_mult_mod_eq of_nat_add of_nat_mult of_nat_numeral)
    then show ?thesis using 1 False digit_value [of "n mod 10"]
      by (subst dec_digits.simps) (simp add: horner_def horner_step_def)
  qed
qed

lemma digit_byte:
  fixes num :: u32
  shows "ucast (num - num div 10 * 10 + 48) = (word_of_nat (48 + unat num mod 10) :: u8)"
proof -
  let ?k = "48 + unat num mod 10"
  have "num - num div 10 * 10 = num mod 10" by (simp add: minus_div_mult_eq_mod)
  then have w: "num - num div 10 * 10 + 48 = word_of_nat ?k"
    by (simp add: word_unat_eq_iff unat_simps)
  have "unat (word_of_nat ?k :: u32) = ?k" by (rule unat_u32_of_nat) simp
  then show ?thesis unfolding w by (metis of_nat_unat)
qed

lemma print_num_rec_digits:
  assumes "print_num_rec num mul str siz = (off, mul', str')"
    and "unat mul + length (dec_digits (unat num)) \<le> unat siz"
  shows "unat mul' = unat mul + length (dec_digits (unat num)) - 1 \<and> off = siz - mul' - 1 \<and>
    buf_text str' off (length (dec_digits (unat num))) = dec_digits (unat num) \<and>
    (\<forall>j. unat siz - unat mul \<le> unat j \<longrightarrow> str' j = str j)"
  using assms
proof (induction num mul str siz arbitrary: off mul' str' rule: print_num_rec.induct)
  case (1 num mul str siz)
  let ?at = "siz - mul - 1"
  have pos: "0 < length (dec_digits (unat num))" by (subst dec_digits.simps) simp
  then have lt: "unat mul + 1 \<le> unat siz" using 1(3) by linarith
  then have "unat (siz - mul) = unat siz - unat mul" by (simp add: unat_u32_sub)
  then have at: "unat ?at = unat siz - unat mul - 1" using lt by (simp add: unat_u32_sub)
  show ?case
  proof (cases "10 \<le> num")
    case False
    then have d: "dec_digits (unat num) = [word_of_nat (48 + unat num)]" "num div 10 = 0"
      by (simp_all add: dec_digits.simps word_le_nat_alt word_unat_eq_iff unat_simps)
    have "print_num_rec num mul str siz = (?at, mul, str(?at := ucast (num + 48)))"
      using False by (simp add: print_num_rec.simps)
    then have r: "off = ?at" "mul' = mul" "str' = str(?at := ucast (num + 48))" using 1(2) by simp_all
    have "ucast (num + 48) = (word_of_nat (48 + unat num) :: u8)"
      using digit_byte [of num] d(2) False by (simp add: word_le_nat_alt)
    then show ?thesis using r d(1) at lt by (auto simp: buf_text_def)
  next
    case True
    let ?d = "num div 10" and ?c = "ucast (num - num div 10 * 10 + 48)"
    have ds: "dec_digits (unat num) = dec_digits (unat ?d) @ [word_of_nat (48 + unat num mod 10)]"
      using True by (subst dec_digits.simps) (simp add: word_le_nat_alt unat_u32_div)
    have m1: "unat (mul + 1) = unat mul + 1" using lt unat_u32_lt [of siz] by (simp add: unat_u32_add)
    have e: "print_num_rec ?d (mul + 1) (str(?at := ?c)) siz = (off, mul', str')"
      using 1(2) True by (subst (asm) print_num_rec.simps) (simp add: Let_def)
    note ih = 1(1) [OF True refl refl e]
    have "unat (mul + 1) + length (dec_digits (unat ?d)) \<le> unat siz" using 1(3) ds m1 by simp
    note ih = ih [OF this]
    have posd: "0 < length (dec_digits (unat ?d))" by (subst dec_digits.simps) simp
    let ?n = "length (dec_digits (unat ?d))"
    have mu: "unat mul' = unat mul + ?n" using ih m1 posd by simp
    have "mul' = mul + word_of_nat ?n"
    proof -
      have "word_of_nat (unat mul') = (word_of_nat (unat mul + ?n) :: u32)" using mu by simp
      then show ?thesis by simp
    qed
    then have last: "off + word_of_nat ?n = ?at" using ih by simp
    have "str' ?at = ?c"
    proof -
      have "unat siz - unat (mul + 1) \<le> unat ?at" using at m1 lt by simp
      then show ?thesis using ih by simp
    qed
    moreover have "buf_text str' off ?n = dec_digits (unat ?d)" using ih by blast
    moreover have "buf_text str' off (Suc ?n) = buf_text str' off ?n @ [str' (off + word_of_nat ?n)]"
      by (simp add: buf_text_def)
    ultimately have "buf_text str' off (Suc ?n) = dec_digits (unat num)"
      by (simp only: last ds digit_byte)
    moreover have "\<forall>j. unat siz - unat mul \<le> unat j \<longrightarrow> str' j = str j"
    proof (intro allI impI)
      fix j :: u32 assume j: "unat siz - unat mul \<le> unat j"
      then have "unat siz - unat (mul + 1) \<le> unat j" "j \<noteq> ?at" using at m1 lt by auto
      then show "str' j = str j" using ih by simp
    qed
    ultimately show ?thesis using ih mu ds by simp
  qed
qed

text \<open>
  C38. Numbers are printed in decimal: with a buffer of at least 12 bytes, \<open>itoa\<close> stores exactly the decimal
  digits of the number and returns their start and their count, and \<open>atoi\<close>'s evaluation of these
  characters with radix 10 gives the number back, for every 32-bit number.
\<close>

theorem itoa_decimal:
  assumes "12 \<le> unat siz" and "itoa num buf siz radix = (off, num_wr, buf')"
  shows "buf_text buf' off (unat num_wr) = dec_digits (unat num) \<and>
    horner 10 (buf_text buf' off (unat num_wr)) = num"
proof -
  have "unat num < 10 ^ Suc 9" using unat_u32_lt [of num] by simp
  from dec_digits_length [OF this] have "length (dec_digits (unat num)) \<le> 10" by simp
  then have l: "unat (1 :: u32) + length (dec_digits (unat num)) \<le> unat siz" using assms(1) by simp
  have "print_num_rec num 1 buf siz = (off, num_wr, buf')" using assms(2) by (simp add: itoa_def)
  from print_num_rec_digits [OF this l] show ?thesis by (auto simp: horner_dec_digits)
qed

theorem itoa_decimal_witness:
  "\<exists>off n buf'. itoa 4294967295 (\<lambda>_. 0) 16 10 = (off, n, buf') \<and>
     horner 10 (buf_text buf' off (unat n)) = 4294967295"
proof -
  obtain off n buf' where "itoa 4294967295 (\<lambda>_. 0) 16 10 = (off, n, buf')" by (metis prod_cases3)
  with itoa_decimal [OF _ this] show ?thesis by auto
qed

section \<open>Formatted output on a consistent console\<close>

text \<open>The buffers of numbers do not get the delete character.\<close>

lemma upd_no_del: "\<forall>j. str j \<noteq> KBD_DEL \<Longrightarrow> v \<noteq> KBD_DEL \<Longrightarrow> \<forall>j. (str(i := v)) j \<noteq> KBD_DEL"
  by simp

lemma print_num_rec_no_del:
  assumes "print_num_rec num mul str siz = (off, mul', str')" and "\<forall>j. str j \<noteq> KBD_DEL"
  shows "\<forall>j. str' j \<noteq> KBD_DEL"
  using assms
proof (induction num mul str siz arbitrary: off mul' str' rule: print_num_rec.induct)
  case (1 num mul str siz)
  have digit: "(word_of_nat (48 + d) :: u8) \<noteq> KBD_DEL" if "d < 10" for d
  proof -
    have "d \<in> {0, 1, 2, 3, 4, 5, 6, 7, 8, 9}" using that by auto
    then show ?thesis by (elim insertE emptyE) simp_all
  qed
  show ?case
  proof (cases "num \<ge> 10")
    case True
    let ?str = "str(siz - mul - 1 := ucast (num - num div 10 * 10 + 48))"
    have e: "print_num_rec (num div 10) (mul + 1) ?str siz = (off, mul', str')"
      using 1(2) True by (subst (asm) print_num_rec.simps) (simp add: Let_def)
    have "\<forall>j. ?str j \<noteq> KBD_DEL" unfolding digit_byte by (rule upd_no_del [OF 1(3) digit]) simp
    then show ?thesis using 1(1) [OF True refl refl e] by blast
  next
    case False
    then have n: "unat num < 10" by (simp add: word_le_nat_alt)
    have "num div 10 = 0" using n by (simp add: word_unat_eq_iff unat_div)
    then have "ucast (num + 48) = (word_of_nat (48 + unat num) :: u8)" using digit_byte [of num] n by simp
    then have d: "ucast (num + 48) \<noteq> KBD_DEL" using digit [OF n] by simp
    have "str' = str(siz - mul - 1 := ucast (num + 48))" using 1(2) False by (subst (asm) print_num_rec.simps) auto
    then show ?thesis using upd_no_del [OF 1(3) d] by (simp only: simp_thms)
  qed
qed

lemma dec_to_hex_no_del:
  assumes "n < 16"
  shows "dec_to_hex n \<noteq> KBD_DEL"
proof -
  have "unat n < 16" using assms by (simp add: word_less_nat_alt)
  then have "unat n \<in> set [0..<16]" by simp
  moreover have "\<forall>k \<in> set [0..<16]. dec_to_hex (word_of_nat k) \<noteq> KBD_DEL" by code_simp
  ultimately have "dec_to_hex (word_of_nat (unat n)) \<noteq> KBD_DEL" by blast
  then show ?thesis by simp
qed

lemma print_hex_rec_no_del:
  assumes "print_hex_rec num mul str siz = (off, mul', str')" and "\<forall>j. str j \<noteq> KBD_DEL"
  shows "\<forall>j. str' j \<noteq> KBD_DEL"
  using assms
proof (induction num mul str siz arbitrary: off mul' str' rule: print_hex_rec.induct)
  case (1 num mul str siz)
  show ?case
  proof (cases "num \<ge> 16")
    case True
    let ?str = "str(siz - mul - 1 := dec_to_hex (num - num div 16 * 16))"
    have e: "print_hex_rec (num div 16) (mul + 1) ?str siz = (off, mul', str')"
      using 1(2) True by (subst (asm) print_hex_rec.simps) (simp add: Let_def)
    have "num - num div 16 * 16 = num mod 16" by (simp add: minus_div_mult_eq_mod)
    then have "num - num div 16 * 16 < 16" by (simp add: word_less_nat_alt unat_mod)
    then have "\<forall>j. ?str j \<noteq> KBD_DEL" using 1(3) dec_to_hex_no_del by simp
    then show ?thesis using 1(1) [OF True refl refl e] by blast
  next
    case False
    then have d: "dec_to_hex num \<noteq> KBD_DEL" using dec_to_hex_no_del by (simp add: not_le)
    have "\<not> 16 \<le> num" using False .
    with 1(2) have "str' = str(siz - mul - 1 := dec_to_hex num, siz - mul - 2 := 120, siz - mul - 3 := 48)"
      unfolding print_hex_rec.simps [of num mul str siz] by (auto simp: Let_def)
    then show ?thesis by (simp only:) (intro upd_no_del 1(3) d; simp)
  qed
qed

lemma fb_print_number_ok:
  assumes "fb_ok s"
  shows "fb_ok (fb_print_num_color n fg bg s)" and "fb_ok (fb_print_hex_color n fg bg s)"
proof -
  have no: "KBD_DEL \<notin> set (take k (buf_text str off l))" if "\<forall>j. str j \<noteq> KBD_DEL" for k str off l
    using that by (auto simp: buf_text_def dest!: in_set_takeD)
  obtain o1 m1 b1 where 1: "print_num_rec n 1 (\<lambda>_. 0) 16 = (o1, m1, b1)" by (metis prod_cases3)
  obtain o2 m2 b2 where 2: "print_hex_rec n 1 (\<lambda>_. 0) 16 = (o2, m2, b2)" by (metis prod_cases3)
  show "fb_ok (fb_print_num_color n fg bg s)"
    using fb_print_keeps_ok [OF assms no] print_num_rec_no_del [OF 1] by (simp add: fb_print_num_color_def 1 fb_nprint_def Let_def)
  show "fb_ok (fb_print_hex_color n fg bg s)"
    using fb_print_keeps_ok [OF assms no] print_hex_rec_no_del [OF 2] by (simp add: fb_print_hex_color_def 2 fb_nprint_def Let_def)
qed

text \<open>The arguments fit a format: each conversion finds one of its kind, and no text has the delete character.\<close>

fun format_fits :: "u8 list \<Rightarrow> bool \<Rightarrow> farg list \<Rightarrow> bool" where
  "format_fits [] conv args \<longleftrightarrow> True"
| "format_fits (c # msg) conv args \<longleftrightarrow>
     (if c = 37 then format_fits msg True args
      else if \<not> conv then c \<noteq> KBD_DEL \<and> format_fits msg False args
      else if c = 115 then (case args of AStr str # as \<Rightarrow> KBD_DEL \<notin> set str \<and> format_fits msg False as | _ \<Rightarrow> False)
      else if c \<in> {100, 117, 120, 112} then (case args of ANum n # as \<Rightarrow> format_fits msg False as | _ \<Rightarrow> False)
      else format_fits msg False args)"

lemma format_arg_ok:
  assumes "fb_ok s" and "format_fits (c # msg) True args" and "c \<noteq> 37"
  shows "\<exists>as s'. format_arg c fg bg args s = Some (as, s') \<and> fb_ok s' \<and> format_fits msg False as"
  using assms by (auto simp: format_arg_def fb_print_number_ok fb_print_keeps_ok split: if_splits list.splits farg.splits)

lemma fb_vprintf_loop_ok:
  "fb_ok s \<Longrightarrow> format_fits msg conv args \<Longrightarrow> \<exists>s'. fb_vprintf_loop msg conv fg bg args s = Some s' \<and> fb_ok s'"
proof (induction msg arbitrary: conv args s)
  case (Cons c msg)
  show ?case
  proof (cases "c = 37 \<or> \<not> conv")
    case True
    then show ?thesis using Cons by (auto simp: fb_print_char_ok)
  next
    case False
    then obtain as s1 where f: "format_arg c fg bg args s = Some (as, s1)" "fb_ok s1" "format_fits msg False as"
      using format_arg_ok [OF Cons.prems(1), of c msg args fg bg] Cons.prems(2) by auto
    then show ?thesis using Cons.IH [OF f(2,3)] False by simp
  qed
qed simp

text \<open>
  C30. Formatted output keeps the console consistent: when the arguments fit the format and nothing but conversions and
  characters other than delete is printed, the call returns 0, and after all newlines, tabs and scrolling the position is
  at most one behind the last cell and \<open>fb_out\<close> equals the characters on the screen.
\<close>

theorem fb_vprintf_keeps_ok:
  assumes "fb_ok s" and "format_fits msg False args"
  shows "\<exists>s'. fb_vprintf_color msg fg bg args s = Some (0, s') \<and> fb_pos s' \<le> 2000 \<and> \<not> fb_sync s' \<and>
    (\<forall>i. 0 \<le> i \<and> i < 2000 \<longrightarrow> fb_out s' i = px_symbol (frame_buf s' i))"
  using fb_vprintf_loop_ok [OF assms, of fg bg] by (auto simp: fb_vprintf_color_def fb_ok_def)

theorem fb_vprintf_keeps_ok_witness:
  "\<exists>s'. fb_vprintf_color (text_bytes ''Task id = %u, name = %s'') 15 0 [ANum 1000, AStr (replicate 5000 65)] fb_blank = Some (0, s') \<and>
    fb_pos s' \<le> 2000"
proof -
  have "format_fits (text_bytes ''Task id = %u, name = %s'') False [ANum 1000, AStr (replicate 5000 65)]"
    by (simp add: text_bytes_def)
  moreover have "fb_ok fb_blank" by (simp add: fb_blank_def fb_ok_def blank_pixel_def)
  ultimately show ?thesis using fb_vprintf_keeps_ok by blast
qed

end
