(* ===== verification/Peripherals.thy ===== *)
theory Peripherals
  imports Timer Framebuffer
begin

text \<open>
  Character devices and the clock: the serial port (\<open>src/drivers/serial.c\<close>), the PS/2 controller
  (\<open>src/drivers/ps2.c\<close>) and the real time clock with its formatted time (\<open>src/drivers/rtc.c\<close>).
\<close>

section \<open>Serial port\<close>

definition com_init :: "'d bus \<Rightarrow> u16 \<Rightarrow> 'd kst \<Rightarrow> 'd kst" where
  "com_init b port s =
     (let s = outb b (port + 3) 0x80 s;
          s = outb b (port + 0) 0x0C s;
          s = outb b (port + 0) 0x00 s;
          s = outb b (port + 2) 0xC7 s;
          s = outb b (port + 3) 0x3 s;
          s = outb b (port + 4) 0x0B s
      in outb b (port + 1) 0x3 s)"

definition wait_serial_read :: "'d bus \<Rightarrow> u16 \<Rightarrow> 'd kst \<Rightarrow> (u8 \<times> 'd kst) option" where
  "wait_serial_read b port s = do {
     s \<leftarrow> wait_loop (\<lambda>s. let (r, s) = rx_ready b port s in (\<not> r, s)) id s;
     Some (serial_read b port s)
   }"

definition wait_serial_send :: "'d bus \<Rightarrow> u16 \<Rightarrow> u8 \<Rightarrow> 'd kst \<Rightarrow> 'd kst option" where
  "wait_serial_send b port d s = do {
     s \<leftarrow> wait_loop (\<lambda>s. let (r, s) = tx_free b port s in (\<not> r, s)) id s;
     Some (serial_send b port d s)
   }"

text \<open>\<open>buf\<close> holds at least \<open>len\<close> bytes and at least one.\<close>

definition serial_write :: "'d bus \<Rightarrow> u16 \<Rightarrow> u8 list \<Rightarrow> u32 \<Rightarrow> 'd kst \<Rightarrow> 'd kst option" where
  "serial_write b port buf len s =
     (if unat (k_write_pos s) + unat len > 1024 \<or> length buf < max 1 (unat len) then None
      else let s = s\<lparr>k_write_buf := foldl (\<lambda>w i. w(unat (k_write_pos s) + i := buf ! i)) (k_write_buf s) [0..<unat len],
                     k_cur_pos := k_cur_pos s + 1, k_write_pos := k_write_pos s + len\<rparr>
           in wait_serial_send b port (buf ! 0) s)"

definition serial_print :: "'d bus \<Rightarrow> u16 \<Rightarrow> u8 list \<Rightarrow> 'd kst \<Rightarrow> 'd kst" where
  "serial_print b port msg s = foldl (\<lambda>s c. serial_send b port c s) s msg"

text \<open>The caller's buffer is a function of the index; the result is the return value and the buffer.\<close>

fun serial_read_loop ::
  "'d bus \<Rightarrow> u16 \<Rightarrow> nat list \<Rightarrow> (nat \<Rightarrow> u8) \<Rightarrow> 'd kst \<Rightarrow> (bool \<times> (nat \<Rightarrow> u8) \<times> 'd kst) option" where
  "serial_read_loop b port [] buf s = Some (False, buf, s)"
| "serial_read_loop b port (i # is) buf s = do {
     (c, s) \<leftarrow> wait_serial_read b port s;
     let buf = buf(i := c) in
     if c = 10 \<or> c = 13 then Some (True, buf(i + 1 := 0), s) else serial_read_loop b port is buf s
   }"

definition serial_read_buf ::
  "'d bus \<Rightarrow> u16 \<Rightarrow> (nat \<Rightarrow> u8) \<Rightarrow> u32 \<Rightarrow> 'd kst \<Rightarrow> (int \<times> (nat \<Rightarrow> u8) \<times> 'd kst) option" where
  "serial_read_buf b port buf buf_len s = do {
     (eol, buf, s) \<leftarrow> serial_read_loop b port [0..<unat (buf_len - 1)] buf s;
     if eol then Some (0, buf, s) else Some (1, buf(unat (buf_len - 1) := 0), s)
   }"

definition serial_init :: "'d bus \<Rightarrow> 'd kst \<Rightarrow> 'd kst" where
  "serial_init b s = klog ''Serial port COM1 initialised'' (add_irq_handler b 4 Serial_interrupt (com_init b COM1 s))"

section \<open>PS/2 controller\<close>

definition ps2_write_cmd :: "'d bus \<Rightarrow> u8 \<Rightarrow> 'd kst \<Rightarrow> 'd kst" where
  "ps2_write_cmd b cmd s = io_wait b (outb b 0x64 cmd s)"

text \<open>The console output between the reads is one message.\<close>

definition ps2_wait_read :: "'d bus \<Rightarrow> 'd kst \<Rightarrow> (u8 \<times> 'd kst) option" where
  "ps2_wait_read b s = do {
     s \<leftarrow> wait_loop (\<lambda>s. let (v, s) = inb b 0x64 s in (v AND 1 = 0, s)) id s;
     let (v, s) = inb b 0x64 s in Some (inb b 0x60 (klog ''status'' s))
   }"

fun mouse_poll :: "'d bus \<Rightarrow> (u8 \<Rightarrow> bool) \<Rightarrow> nat \<Rightarrow> 'd kst \<Rightarrow> 'd kst" where
  "mouse_poll b ready 0 s = s"
| "mouse_poll b ready (Suc time_out) s =
     (let (v, s) = inb b 0x64 s in if ready v then s else mouse_poll b ready time_out s)"

definition mouse_wait :: "'d bus \<Rightarrow> u8 \<Rightarrow> 'd kst \<Rightarrow> 'd kst" where
  "mouse_wait b a_type s =
     mouse_poll b (if a_type = 0 then (\<lambda>v. v AND 1 = 1) else (\<lambda>v. v AND 2 = 0)) 100000 s"

definition ps2_init :: "'d bus \<Rightarrow> 'd kst \<Rightarrow> int \<times> 'd kst" where
  "ps2_init b s =
     (let s = outb b 0x64 0xA8 (mouse_wait b 1 s);
          s = outb b 0x64 0x20 (mouse_wait b 1 s);
          (compaq_stat, s) = inb b 0x60 (mouse_wait b 0 s);
          compaq_stat = (compaq_stat OR 2) AND NOT 32;
          s = outb b 0x64 0x60 (mouse_wait b 1 s);
          s = outb b 0x60 compaq_stat (mouse_wait b 1 s);
          s = outb b 0x64 0xD4 (mouse_wait b 1 s);
          s = outb b 0x60 0xF6 (mouse_wait b 1 s);
          s = snd (inb b 0x60 (mouse_wait b 0 s));
          s = outb b 0x64 0xD4 (mouse_wait b 1 s);
          s = outb b 0x60 0xF4 (mouse_wait b 1 s);
          s = snd (inb b 0x60 (mouse_wait b 0 s));
          s = add_irq_handler b 12 Ps2_handler s
      in (0, klog ''PS/2 controller initialized'' s))"

section \<open>Real time clock\<close>

text \<open>\<open>while (cmos_read_data() & (1 << 7)) cmos_select_reg(CMOS_STAT_A);\<close>\<close>

partial_function (option) rtc_wait :: "'d bus \<Rightarrow> 'd kst \<Rightarrow> 'd kst option" where
  "rtc_wait b s =
     (let (v, s) = cmos_read_data b s in
      if v AND 0x80 \<noteq> 0 then do { s \<leftarrow> cmos_select_reg b 0x0A s; rtc_wait b s } else Some s)"

declare rtc_wait.simps [code]

definition bcd_value :: "u8 \<Rightarrow> u8" where
  "bcd_value v = drop_bit 1 (v AND 0xF0) + drop_bit 3 (v AND 0xF0) + (v AND 0xF)"

definition rtc_get_val :: "'d bus \<Rightarrow> u8 \<Rightarrow> 'd kst \<Rightarrow> (u8 \<times> 'd kst) option" where
  "rtc_get_val b reg s = do {
     s \<leftarrow> cmos_select_reg b 0x0A s;
     s \<leftarrow> rtc_wait b s;
     s \<leftarrow> cmos_select_reg b reg s;
     let (v, s) = cmos_read_data b s in
     Some (if k_time_mode s = 2 then bcd_value v else v, s)
   }"

definition rtc_get_seconds :: "'d bus \<Rightarrow> 'd kst \<Rightarrow> (u8 \<times> 'd kst) option" where
  "rtc_get_seconds b s = rtc_get_val b 0x00 s"

definition rtc_get_minutes :: "'d bus \<Rightarrow> 'd kst \<Rightarrow> (u8 \<times> 'd kst) option" where
  "rtc_get_minutes b s = rtc_get_val b 0x02 s"

definition rtc_get_hour :: "'d bus \<Rightarrow> 'd kst \<Rightarrow> (u8 \<times> 'd kst) option" where
  "rtc_get_hour b s = rtc_get_val b 0x04 s"

definition rtc_get_month :: "'d bus \<Rightarrow> 'd kst \<Rightarrow> (u8 \<times> 'd kst) option" where
  "rtc_get_month b s = rtc_get_val b 0x08 s"

definition rtc_get_day_of_month :: "'d bus \<Rightarrow> 'd kst \<Rightarrow> (u8 \<times> 'd kst) option" where
  "rtc_get_day_of_month b s = do { s \<leftarrow> cmos_select_reg b 0x07 s; Some (cmos_read_data b s) }"

definition rtc_get_year :: "'d bus \<Rightarrow> 'd kst \<Rightarrow> (u16 \<times> 'd kst) option" where
  "rtc_get_year b s = do { (year, s) \<leftarrow> rtc_get_val b 0x09 s; Some (2000 + ucast year, s) }"

text \<open>
  The formatted time. \<open>put_text\<close> is the \<open>strcpy\<close> of \<open>n\<close> bytes of the local buffer into the result;
  \<open>get_time_str\<close> pads a single digit and returns \<open>*chars_wrote\<close>.
\<close>

definition put_text :: "nat \<Rightarrow> (u32 \<Rightarrow> u8) \<Rightarrow> u32 \<Rightarrow> nat \<Rightarrow> (nat \<Rightarrow> u8) \<Rightarrow> nat \<Rightarrow> u8" where
  "put_text pos lbuf off n buf =
     foldl (\<lambda>buf i. buf(pos + i := lbuf (off + word_of_nat i))) buf [0..<n]"

definition get_time_str :: "(u32 \<Rightarrow> u8) \<Rightarrow> u32 \<Rightarrow> (nat \<Rightarrow> u8) \<Rightarrow> nat \<Rightarrow> u32 \<Rightarrow> (nat \<Rightarrow> u8) \<times> u32" where
  "get_time_str lbuf off buf pos chars_wrote =
     (if chars_wrote = 1 then (put_text (pos + 1) lbuf off 2 (buf(pos := 48)), 2)
      else (put_text pos lbuf off (unat chars_wrote) buf, chars_wrote))"

text \<open>\<open>padded\<close> tells the cases that use \<open>get_time_str\<close> from the ones that copy the number as it is.\<close>

definition put_field :: "bool \<Rightarrow> u32 \<Rightarrow> u32 \<Rightarrow> (nat \<Rightarrow> u8) \<Rightarrow> nat \<Rightarrow> (nat \<Rightarrow> u8) \<times> nat" where
  "put_field padded val siz buf pos =
     (let (off, chars_wrote, lbuf) = itoa val (\<lambda>_. 0) siz 10 in
      if padded
      then let (buf, n) = get_time_str lbuf off buf pos chars_wrote in (buf, pos + unat n)
      else (put_text pos lbuf off (unat chars_wrote) buf, pos + unat chars_wrote))"

definition date_time_char ::
  "'d bus \<Rightarrow> u8 \<Rightarrow> u32 \<Rightarrow> (nat \<Rightarrow> u8) \<Rightarrow> nat \<Rightarrow> 'd kst \<Rightarrow> ((nat \<Rightarrow> u8) \<times> nat \<times> 'd kst) option" where
  "date_time_char b c siz buf pos s =
     (let field = (\<lambda>padded get. do { (v, s) \<leftarrow> get b s; let (buf, pos) = put_field padded (ucast v) siz buf pos in Some (buf, pos, s) })
      in if c = 104 then field True rtc_get_hour
         else if c = 115 then field True rtc_get_seconds
         else if c = 109 then field True rtc_get_minutes
         else if c = 121 then do { (v, s) \<leftarrow> rtc_get_year b s;
           let (buf, pos) = put_field False (ucast v) siz buf pos in Some (buf, pos, s) }
         else if c = 100 then field False rtc_get_day_of_month
         else if c = 77 then field False rtc_get_month
         else Some (buf(pos := c), pos + 1, s))"

fun date_time_loop ::
  "'d bus \<Rightarrow> u8 list \<Rightarrow> u32 \<Rightarrow> (nat \<Rightarrow> u8) \<Rightarrow> nat \<Rightarrow> 'd kst \<Rightarrow> ((nat \<Rightarrow> u8) \<times> 'd kst) option" where
  "date_time_loop b [] siz buf pos s = Some (buf, s)"
| "date_time_loop b (c # cs) siz buf pos s = do {
     (buf, pos, s) \<leftarrow> date_time_char b c siz buf pos s;
     date_time_loop b cs siz buf pos s
   }"

definition get_date_time :: "'d bus \<Rightarrow> u8 list \<Rightarrow> (nat \<Rightarrow> u8) \<Rightarrow> u32 \<Rightarrow> 'd kst \<Rightarrow> ((nat \<Rightarrow> u8) \<times> 'd kst) option" where
  "get_date_time b format buf siz s =
     date_time_loop b format siz (\<lambda>i. if i < unat siz then 0 else buf i) 0 s"

definition rtc_init :: "'d bus \<Rightarrow> 'd kst \<Rightarrow> 'd kst option" where
  "rtc_init b s = do {
     s \<leftarrow> cmos_select_reg b 0x0B s;
     let (v, s) = cmos_read_data b s in
     do { (_, s) \<leftarrow> get_date_time b [104, 58, 109, 58, 115] (\<lambda>_. 0) 16
            (klog ''Real Time Clock configured'' (s\<lparr>k_time_mode := ucast v\<rparr>));
          Some (klog ''Current time: %s'' s) }
   }"

section \<open>Properties\<close>

text \<open>
  The conversion from packed decimal is right: for a byte with two decimal digits, the shifts of
  \<open>rtc_get_val\<close> give ten times the upper digit plus the lower one.
\<close>

theorem bcd_value_decimal:
  assumes "hi \<le> 9" and "lo \<le> 9"
  shows "unat (bcd_value (word_of_nat (16 * hi + lo))) = 10 * hi + lo"
proof -
  have "hi \<in> {0, 1, 2, 3, 4, 5, 6, 7, 8, 9}" "lo \<in> {0, 1, 2, 3, 4, 5, 6, 7, 8, 9}" using assms by auto
  then show ?thesis
    unfolding bcd_value_def by (elim insertE emptyE) (simp_all add: drop_bit_eq_div)
qed

theorem bcd_value_decimal_witness: "unat (bcd_value 0x59) = 59"
  using bcd_value_decimal [of 5 9] by simp

text \<open>The bytes that \<open>serial_read_loop\<close> changes.\<close>

lemma serial_read_loop_bounds:
  assumes "serial_read_loop b port [i..<n] buf s = Some (eol, buf', s')"
  shows "(\<forall>j. j < i \<or> n < j \<longrightarrow> buf' j = buf j) \<and> (\<not> eol \<longrightarrow> buf' n = buf n) \<and>
    (eol \<longrightarrow> (\<exists>k. i \<le> k \<and> k < n \<and> (buf' k = 10 \<or> buf' k = 13) \<and> buf' (k + 1) = 0))"
  using assms
proof (induction "n - i" arbitrary: i buf s)
  case 0
  then show ?case by simp
next
  case (Suc m)
  then have u: "i < n" "[i..<n] = i # [Suc i..<n]" by (simp_all add: upt_conv_Cons)
  obtain c s1 where r: "wait_serial_read b port s = Some (c, s1)"
    using Suc.prems u(2) by (cases "wait_serial_read b port s") auto
  show ?case
  proof (cases "c = 10 \<or> c = 13")
    case True
    then have "eol" "buf' = buf(i := c, i + 1 := 0)" using Suc.prems r u(2) by auto
    then show ?thesis using True u(1) by (auto intro!: exI [of _ i])
  next
    case False
    then have "serial_read_loop b port [Suc i..<n] (buf(i := c)) s1 = Some (eol, buf', s')"
      using Suc.prems r u(2) by simp
    moreover have "m = n - Suc i" using Suc.hyps(2) by simp
    ultimately have ih: "\<forall>j. j < Suc i \<or> n < j \<longrightarrow> buf' j = (buf(i := c)) j" "\<not> eol \<longrightarrow> buf' n = (buf(i := c)) n"
      "eol \<longrightarrow> (\<exists>k. Suc i \<le> k \<and> k < n \<and> (buf' k = 10 \<or> buf' k = 13) \<and> buf' (k + 1) = 0)"
      using Suc.hyps(1) by blast+
    have "\<forall>j. j < i \<or> n < j \<longrightarrow> buf' j = buf j" using ih(1) u(1) by simp
    moreover have "\<not> eol \<longrightarrow> buf' n = buf n" using ih(2) u(1) by simp
    ultimately show ?thesis using ih(3) by (meson Suc_leD)
  qed
qed

text \<open>
  \<open>serial_read_buf\<close> stays in its buffer: for a buffer of at least one byte, when it returns it has
  changed no byte behind the buffer, and it returns 0 with a line end followed by a zero byte inside the
  buffer, or 1 with a zero in the last byte.
\<close>

lemma serial_read_buf_bounds:
  assumes "0 < buf_len" and "serial_read_buf b port buf buf_len s = Some (ret, buf', s')"
  shows "(\<forall>j. unat buf_len \<le> j \<longrightarrow> buf' j = buf j) \<and>
    (ret = 0 \<and> (\<exists>k. k + 1 < unat buf_len \<and> (buf' k = 10 \<or> buf' k = 13) \<and> buf' (k + 1) = 0) \<or>
     ret = 1 \<and> buf' (unat buf_len - 1) = 0)"
proof -
  have n: "unat (buf_len - 1) = unat buf_len - 1" "0 < unat buf_len"
    using assms(1) by (simp_all add: word_less_nat_alt unat_u32_sub)
  obtain eol buf1 s1 where l: "serial_read_loop b port [0..<unat (buf_len - 1)] buf s = Some (eol, buf1, s1)"
    and r: "(ret, buf') = (if eol then (0, buf1) else (1, buf1(unat (buf_len - 1) := 0)))"
    using assms(2) by (cases "serial_read_loop b port [0..<unat (buf_len - 1)] buf s")
      (auto simp: serial_read_buf_def split: if_splits)
  note bd = serial_read_loop_bounds [OF l]
  show ?thesis
  proof (cases eol)
    case True
    then obtain k where "k < unat (buf_len - 1)" "buf1 k = 10 \<or> buf1 k = 13" "buf1 (k + 1) = 0"
      using bd by blast
    then show ?thesis using r bd True n by (auto intro!: exI [of _ k])
  next
    case False
    then show ?thesis using r bd n by auto
  qed
qed

end
