(* ===== verification/Shell.thy ===== *)
theory Shell
  imports Peripherals Framebuffer
begin

text \<open>
  The built-in shell, \<open>src/bin/shell.c\<close>: the prompt, the receiver of key codes with the line history, the command
  interpreter, and the shell on the serial port.

  Characters in the two line buffers are functions of their index; \<open>None\<close> is an access behind an array, or a wait
  that does not end. String literals are lists of bytes; the ones that \<open>strneq\<close> reads have an address in the byte
  memory.
\<close>

section \<open>State\<close>

record 'd shell_state =
  sh_last_cmd :: "nat \<Rightarrow> u8"
  sh_cur_cmd :: "nat \<Rightarrow> u8"
  sh_fb :: fb_state
  sh_kst :: "'d kst"

abbreviation UP_ARROW :: u32 where "UP_ARROW \<equiv> 344"
abbreviation DOWN_ARROW :: u32 where "DOWN_ARROW \<equiv> 345"
abbreviation LAST_CMD_SIZE :: nat where "LAST_CMD_SIZE \<equiv> 1024"

section \<open>Operations\<close>

definition shell_prompt :: "'d shell_state \<Rightarrow> 'd shell_state" where
  "shell_prompt s = s\<lparr>sh_fb := fb_print_attrs (text_bytes ''slavos> '') True (sh_fb s)\<rparr>"

text \<open>\<open>read_stream_addr\<close> is the address of the function \<open>read_stream\<close>.\<close>

definition shell_start :: "u32 \<Rightarrow> 'd shell_state \<Rightarrow> 'd shell_state option" where
  "shell_start read_stream_addr s =
     (let s = s\<lparr>sh_fb := fb_clear (sh_fb s)\<rparr> in
      do {
        k \<leftarrow> kbd_add_receiver read_stream_addr (sh_kst s);
        Some (shell_prompt (s\<lparr>sh_kst := k\<rparr>))
      })"

text \<open>One round of the endless loop of \<open>serial_shell\<close>, and the state after \<open>n\<close> rounds.\<close>

definition serial_shell_round :: "'d bus \<Rightarrow> (nat \<Rightarrow> u8) \<Rightarrow> 'd kst \<Rightarrow> ((nat \<Rightarrow> u8) \<times> 'd kst) option" where
  "serial_shell_round b buf s = do {
     (_, buf, s) \<leftarrow> serial_read_buf b COM1 buf 256 s;
     let s = serial_print b COM1 (takeWhile (\<lambda>c. c \<noteq> 0) (map buf [0..<256])) s;
     let s = serial_print b COM1 (13 # 10 # text_bytes ''slavos> '') s;
     Some (\<lambda>i. if i < 256 then 0 else buf i, s)
   }"

fun serial_shell :: "nat \<Rightarrow> 'd bus \<Rightarrow> (nat \<Rightarrow> u8) \<Rightarrow> 'd kst \<Rightarrow> ((nat \<Rightarrow> u8) \<times> 'd kst) option" where
  "serial_shell 0 b buf s = Some (buf, s)"
| "serial_shell (Suc n) b buf s = do { (buf, s) \<leftarrow> serial_shell_round b buf s; serial_shell n b buf s }"

text \<open>The string at an address, cut at \<open>n\<close> bytes.\<close>

definition execute ::
  "'d bus \<Rightarrow> mem8 \<Rightarrow> u32 \<Rightarrow> u32 \<Rightarrow> u32 \<Rightarrow> 'd shell_state \<Rightarrow> (int \<times> 'd shell_state) option" where
  "execute b m echo cmd len s = do {
     k \<leftarrow> sleep_ms b 900 (sh_kst s);
     let s = s\<lparr>sh_kst := k\<rparr>;
     if strneq m cmd echo 4 = 0
     then do {
       n \<leftarrow> strlen m (cmd + 5);
       Some (0, s\<lparr>sh_fb := fb_newline (fb_print_black (bytes_at m (cmd + 5) (unat n)) (sh_fb s))\<rparr>)
     }
     else if m cmd \<noteq> 0 \<or> len = 0
     then Some (1, s\<lparr>sh_fb := fb_newline (fb_print_black (text_bytes ''Unknown command'') (sh_fb s))\<rparr>)
     else Some (1, s)
   }"

text \<open>The string in a line buffer.\<close>

definition buf_str :: "(nat \<Rightarrow> u8) \<Rightarrow> u8 list option" where
  "buf_str buf =
     (let bs = map buf [0..<LAST_CMD_SIZE]
      in if 0 \<in> set bs then Some (takeWhile (\<lambda>c. c \<noteq> 0) bs) else None)"

definition read_stream_up :: "'d shell_state \<Rightarrow> 'd shell_state option" where
  "read_stream_up s = do {
     (cmd, len) \<leftarrow> fb_last_written_buf (sh_fb s);
     if unat len \<le> LAST_CMD_SIZE
     then do {
       let cur = (\<lambda>k. if k < unat len then fb_out (sh_fb s) (int (cmd + k)) else sh_cur_cmd s k);
       let fb = fb_delete_last (ucast len) (sh_fb s);
       str \<leftarrow> buf_str (sh_last_cmd s);
       Some (s\<lparr>sh_cur_cmd := cur, sh_fb := fb_print_black str fb\<rparr>)
     }
     else None
   }"

definition read_stream_down :: "'d shell_state \<Rightarrow> 'd shell_state option" where
  "read_stream_down s = do {
     (cmd, len) \<leftarrow> fb_last_written_buf (sh_fb s);
     let fb = fb_delete_last (ucast len) (sh_fb s);
     str \<leftarrow> buf_str (sh_cur_cmd s);
     Some (s\<lparr>sh_fb := fb_print_black str fb\<rparr>)
   }"

definition read_stream :: "u32 \<Rightarrow> 'd shell_state \<Rightarrow> 'd shell_state option" where
  "read_stream c s = do {
     s \<leftarrow> (if c = UP_ARROW then read_stream_up s
           else if c = DOWN_ARROW then read_stream_down s
           else Some (s\<lparr>sh_fb := fb_putc (ucast c) (sh_fb s)\<rparr>));
     Some (if c = 10 then shell_prompt s else s)
   }"

text \<open>The keys arrive one by one.\<close>

fun read_keys :: "u32 list \<Rightarrow> 'd shell_state \<Rightarrow> 'd shell_state option" where
  "read_keys [] s = Some s"
| "read_keys (c # cs) s = do { s \<leftarrow> read_stream c s; read_keys cs s }"

section \<open>The line history\<close>

lemma read_keys_append: "read_keys (xs @ ys) s = do { s \<leftarrow> read_keys xs s; read_keys ys s }"
  by (induction xs arbitrary: s) (auto split: Option.bind_splits)

lemma ucast_plain: "plain c \<Longrightarrow> (ucast c :: u32) \<noteq> 344 \<and> (ucast c :: u32) \<noteq> 345 \<and> (ucast c :: u32) \<noteq> 10"
proof -
  assume "plain c"
  then have "unat c \<noteq> 10" by (auto simp: plain_def word_unat_eq_iff)
  moreover have "unat (ucast c :: u32) = unat c" "unat c < 256" using unsigned_less [of c] by (simp_all add: unat_ucast_u8)
  ultimately show ?thesis by (auto simp: word_unat_eq_iff)
qed

lemma ucast_u8_u32 [simp]: "(ucast (ucast (c :: u8) :: u32) :: u8) = c"
  by (rule bit_eqI) (auto simp: bit_ucast_iff dest: bit_imp_le_length)

lemma read_keys_plain:
  "\<forall>c \<in> set ks. plain c \<Longrightarrow>
    read_keys (map ucast ks) s = Some (s\<lparr>sh_fb := fb_print ks FB_WHITE FB_BLACK (sh_fb s)\<rparr>)"
proof (induction ks arbitrary: s)
  case (Cons c cs)
  then have "read_stream (ucast c) s = Some (s\<lparr>sh_fb := fb_putc c (sh_fb s)\<rparr>)"
    using ucast_plain [of c] by (simp add: read_stream_def)
  with Cons show ?case by (simp add: fb_print_def fb_putc_def)
qed (simp add: fb_print_def)

lemma last_protected_at:
  "j \<le> m \<Longrightarrow> frame_buf_attrs s (int j) \<Longrightarrow> (\<And>i. j < i \<Longrightarrow> i \<le> m \<Longrightarrow> \<not> frame_buf_attrs s (int i)) \<Longrightarrow>
    last_protected s m = Some j"
proof (induction m)
  case (Suc m)
  show ?case
  proof (cases "j = Suc m")
    case False
    then have "\<not> frame_buf_attrs s (int (Suc m))" using Suc.prems(1) Suc.prems(3) [of "Suc m"] by linarith
    moreover have "last_protected s m = Some j" using Suc False by simp
    ultimately show ?thesis by simp
  qed (use Suc.prems in simp)
qed simp

lemma fb_last_written_at:
  assumes "0 < p" and "unat (fb_pos s) = p + n" and "frame_buf_attrs s (int p - 1)"
    and "\<forall>i. int p \<le> i \<and> i \<le> int (p + n) \<longrightarrow> \<not> frame_buf_attrs s i"
  shows "fb_last_written_buf s = Some (p, word_of_nat n)"
proof -
  have "frame_buf_attrs s (int (p - 1))" using assms(1,3) by simp
  moreover have "\<not> frame_buf_attrs s (int i)" if "p - 1 < i" "i \<le> p + n" for i using assms(4) that by auto
  ultimately have l: "last_protected s (unat (fb_pos s)) = Some (p - 1)"
    unfolding assms(2) by (intro last_protected_at) auto
  have "(ucast (fb_pos s) :: u32) = word_of_nat (p + n)" using assms(2) unat_ucast_u16 [of "fb_pos s"] by (metis of_nat_unat ucast_id)
  then have "(ucast (fb_pos s) :: u32) - word_of_nat (p - 1) - 1 = word_of_nat n" using assms(1) by simp
  then show ?thesis using l assms(1) by (simp add: fb_last_written_buf_def)
qed

lemma buf_str_eq:
  assumes "n < LAST_CMD_SIZE" and "buf n = 0" and "\<forall>i < n. buf i = ks ! i" and "length ks = n" and "\<forall>c \<in> set ks. c \<noteq> 0"
  shows "buf_str buf = Some ks"
proof -
  have "0 \<in> set (map buf [0..<LAST_CMD_SIZE])" using assms(1,2) by (auto simp: image_iff intro!: bexI [of _ n])
  moreover have "map buf [0..<LAST_CMD_SIZE] = ks @ 0 # map buf [Suc n..<LAST_CMD_SIZE]"
  proof -
    have "[0..<LAST_CMD_SIZE] = [0..<n] @ n # [Suc n..<LAST_CMD_SIZE]"
      using upt_add_eq_append [of 0 n "LAST_CMD_SIZE - n"] upt_conv_Cons [of n LAST_CMD_SIZE] assms(1) by (simp del: upt_Suc)
    moreover have "map buf [0..<n] = ks" using assms(3,4) by (auto intro: nth_equalityI)
    ultimately show ?thesis using assms(2) by (simp only: map_append list.map)
  qed
  moreover have "takeWhile (\<lambda>c. c \<noteq> 0) (ks @ 0 # xs) = ks" for xs using assms(5) by (simp add: takeWhile_append)
  ultimately show ?thesis by (simp add: buf_str_def Let_def del: upt_Suc)
qed

lemma history_up:
  assumes "0 < p" and "unat (fb_pos (sh_fb s)) = p + n" and "\<not> fb_sync (sh_fb s)"
    and "frame_buf_attrs (sh_fb s) (int p - 1)"
    and "\<forall>i. int p \<le> i \<and> i \<le> int (p + n) \<longrightarrow> \<not> frame_buf_attrs (sh_fb s) i"
    and "n < LAST_CMD_SIZE" and "sh_last_cmd s 0 = 0"
  obtains s' where "read_stream UP_ARROW s = Some s'" and "unat (fb_pos (sh_fb s')) = p" and "\<not> fb_sync (sh_fb s')"
    and "frame_buf_attrs (sh_fb s') = frame_buf_attrs (sh_fb s)"
    and "sh_cur_cmd s' = (\<lambda>k. if k < n then fb_out (sh_fb s) (int (p + k)) else sh_cur_cmd s k)"
    and "\<forall>i. fb_out (sh_fb s') i = (if int p \<le> i \<and> i < int (p + n) then 0 else fb_out (sh_fb s) i)"
proof -
  let ?f = "fb_delete_last (word_of_nat n) (sh_fb s)"
  have n: "unat (word_of_nat n :: u32) = n" "unat (word_of_nat n :: u16) = n" "(ucast (word_of_nat n :: u32) :: u16) = word_of_nat n"
    using assms(6) by (simp_all add: unat_of_nat word_unat_eq_iff unsigned_ucast_eq take_bit_nat_eq_self_iff)
  have u: "uint (fb_pos (sh_fb s)) = int (p + n)" using uint_unat_eq [OF assms(2)] .
  have "buf_str (sh_last_cmd s) = Some []" using buf_str_eq [of 0 "sh_last_cmd s" "[]"] assms(7) by simp
  then have "read_stream UP_ARROW s = Some (s\<lparr>sh_cur_cmd := (\<lambda>k. if k < n then fb_out (sh_fb s) (int (p + k)) else sh_cur_cmd s k),
      sh_fb := ?f\<rparr>)"
    using fb_last_written_at [OF assms(1,2,4,5)] n assms(6)
    by (simp add: read_stream_def read_stream_up_def fb_print_black_def fb_print_def)
  moreover note fb_delete_last_plain [of n "sh_fb s"]
  ultimately show ?thesis using that assms(2,3,5) n(2) u by (simp add: fb_delete_last_def)
qed


definition demo_shell :: "u32 list shell_state" where
  "demo_shell = \<lparr>sh_last_cmd = (\<lambda>_. 0), sh_cur_cmd = (\<lambda>_. 0),
     sh_fb = fb_blank\<lparr>fb_pos := 8, frame_buf_attrs := (\<lambda>i. i < 8)\<rparr>, sh_kst = kst_script []\<rparr>"


text \<open>
  The history stays empty: no key stores a line in \<open>last_cmd\<close>, so that the up arrow never shows an earlier command.
\<close>

theorem last_cmd_never_written: "read_keys ks s = Some s' \<Longrightarrow> sh_last_cmd s' = sh_last_cmd s"
proof (induction ks arbitrary: s)
  case (Cons c ks)
  obtain s1 where s1: "read_stream c s = Some s1" "read_keys ks s1 = Some s'"
    using Cons.prems by (auto split: Option.bind_splits)
  then have "sh_last_cmd s1 = sh_last_cmd s"
    by (auto simp: read_stream_def read_stream_up_def read_stream_down_def shell_prompt_def
        split: if_splits Option.bind_splits prod.splits)
  then show ?case using Cons.IH [OF s1(2)] by simp
qed simp

end
