(* ===== verification/Paging.thy ===== *)
theory Paging
  imports Interrupts Buddy_Alloc
begin

text \<open>
  Page directories and page tables, \<open>src/mem/paging.c\<close> and \<open>src/include/mem/paging.h\<close>, up to the page fault
  handler; the copies of directories are in \<open>Address_Spaces\<close>.

  The directories, the page tables and the arrays of their virtual addresses are words of the kernel's
  memory, \<open>pg_word\<close>, addressed by their byte address; an array \<open>a\<close> has its element \<open>i\<close> at \<open>a + 4 * i\<close>. The
  structures \<open>page_dir\<close> are a store of their own, \<open>pg_pd\<close>. The contents of the frames are \<open>pg_page\<close>, by
  physical address. The flushed addresses, \<open>cr3\<close> and the paging bit record what the assembler routines do.

  The kernel heap and the slab caches are reached through the operations of \<open>page_ops\<close> on their state \<open>'w\<close>;
  \<open>kernel_page_ops\<close> are those of the components below.
\<close>

section \<open>State\<close>

record page_dir =
  page_tables :: u32
  page_tables_virt :: u32
  pd_phys_addr :: u32

record 'w page_ops = "'w mem_ops" +
  po_kmalloc_align :: "u32 \<Rightarrow> u32 \<Rightarrow> 'w \<Rightarrow> fault + u32 \<times> 'w"
  po_cache_create_align :: "u32 \<Rightarrow> u32 \<Rightarrow> 'w \<Rightarrow> fault + u32 \<times> 'w"
  po_heap_init :: "u32 \<Rightarrow> u32 \<Rightarrow> 'w \<Rightarrow> 'w"

definition kernel_page_ops :: "'e mapper \<Rightarrow> 'e slab_world page_ops" where
  "kernel_page_ops mm = mem_ops.extend (slab_ops mm)
     (page_ops.fields
       (\<lambda>n al w. bindE (kmalloc_align mm n al (sw_heap w)) (\<lambda>(p, h). Inr (p, w\<lparr>sw_heap := h\<rparr>)))
       (slab_cache_create_align mm)
       (\<lambda>limit base w. w\<lparr>sw_heap := heap_init limit base (sw_heap w)\<rparr>))"

record 'w paging_state =
  pg_word :: "u32 \<Rightarrow> u32"
  pg_pd :: "u32 \<Rightarrow> page_dir"
  pg_cur_pd :: u32
  pg_kernel_pd :: u32
  pg_virt_kernel_addr :: u32
  pg_map_limit :: u32
  pg_slab_cache :: u32
  pg_last_fault_addr :: u32
  pg_frames :: frame_state
  pg_page :: "u32 \<Rightarrow> u32 \<Rightarrow> u8"
  pg_flushed :: "u32 list"
  pg_cr3 :: u32
  pg_enabled :: bool
  pg_mem :: 'w

abbreviation VADDR :: u32 where "VADDR \<equiv> 0xC0000000"
abbreviation KERNEL_INIT_PT_COUNT :: nat where "KERNEL_INIT_PT_COUNT \<equiv> 4"

abbreviation PRESENT :: u32 where "PRESENT \<equiv> 0x1"
abbreviation R_W :: u32 where "R_W \<equiv> 0x2"
abbreviation USER :: u32 where "USER \<equiv> 0x4"
abbreviation ACCESSED :: u32 where "ACCESSED \<equiv> 0x20"
abbreviation GLOBAL :: u32 where "GLOBAL \<equiv> 0x100"

section \<open>Addresses and entries\<close>

definition get_virt_addr :: "u16 \<Rightarrow> u16 \<Rightarrow> u32" where
  "get_virt_addr pde pte = ucast pde * 0x400000 + ucast pte * PAGE_SIZE"

definition get_pde_pte :: "u32 \<Rightarrow> u16 \<times> u16" where
  "get_pde_pte addr = (ucast (drop_bit 22 addr), ucast (drop_bit 12 addr AND 0x3FF))"

definition tab_present :: "u32 \<Rightarrow> bool" where
  "tab_present descriptor \<longleftrightarrow> descriptor AND PRESENT \<noteq> 0"

definition get_tab_flags :: "u32 \<Rightarrow> u16" where
  "get_tab_flags table = ucast (table AND 0xFFF)"

definition get_tab_pure_addr :: "u32 \<Rightarrow> u32" where
  "get_tab_pure_addr table = table AND NOT 0xFFF"

text \<open>The elements of the arrays of a directory and of a page table.\<close>

definition elem :: "u32 \<Rightarrow> u32 \<Rightarrow> 'w paging_state \<Rightarrow> u32" where
  "elem a i s = pg_word s (a + 4 * i)"

definition set_elem :: "u32 \<Rightarrow> u32 \<Rightarrow> u32 \<Rightarrow> 'w paging_state \<Rightarrow> 'w paging_state" where
  "set_elem a i v s = s\<lparr>pg_word := (pg_word s)(a + 4 * i := v)\<rparr>"

definition set_elems :: "u32 \<Rightarrow> u32 list \<Rightarrow> 'w paging_state \<Rightarrow> 'w paging_state" where
  "set_elems a vs s = foldl (\<lambda>s (i, v). set_elem a (word_of_nat i) v s) s (enumerate 0 vs)"

definition pt_entry :: "u32 \<Rightarrow> 'w paging_state \<Rightarrow> u32 \<Rightarrow> u32" where
  "pt_entry pd s pde = elem (page_tables (pg_pd s pd)) pde s"

definition pt_virt :: "u32 \<Rightarrow> 'w paging_state \<Rightarrow> u32 \<Rightarrow> u32" where
  "pt_virt pd s pde = elem (page_tables_virt (pg_pd s pd)) pde s"

definition set_pt_entry :: "u32 \<Rightarrow> u32 \<Rightarrow> u32 \<Rightarrow> 'w paging_state \<Rightarrow> 'w paging_state" where
  "set_pt_entry pd pde v s = set_elem (page_tables (pg_pd s pd)) pde v s"

definition set_pt_virt :: "u32 \<Rightarrow> u32 \<Rightarrow> u32 \<Rightarrow> 'w paging_state \<Rightarrow> 'w paging_state" where
  "set_pt_virt pd pde v s = set_elem (page_tables_virt (pg_pd s pd)) pde v s"

definition to_phys_addr :: "u32 \<Rightarrow> u32 \<Rightarrow> 'w paging_state \<Rightarrow> u32" where
  "to_phys_addr pd virt_addr s =
     (let page_offset = virt_addr AND 0xFFF in
      if pd = 0
      then virt_addr - (if pg_virt_kernel_addr s \<noteq> 0 then pg_virt_kernel_addr s else VADDR)
      else let (pde, pte) = get_pde_pte virt_addr in
        if pt_virt pd s (ucast pde) = 0 then 0
        else get_tab_pure_addr (elem (pt_virt pd s (ucast pde)) (ucast pte) s) + page_offset)"

definition ptr_to_phys_addr :: "u32 \<Rightarrow> u32 \<Rightarrow> 'w paging_state \<Rightarrow> u32" where
  "ptr_to_phys_addr pd p s = to_phys_addr pd p s"

definition flush_page :: "u32 \<Rightarrow> 'w paging_state \<Rightarrow> 'w paging_state" where
  "flush_page a s = s\<lparr>pg_flushed := pg_flushed s @ [a]\<rparr>"

definition flush_pages :: "u32 \<Rightarrow> u32 \<Rightarrow> 'w paging_state \<Rightarrow> 'w paging_state" where
  "flush_pages virt_addr npages s =
     foldl (\<lambda>s i. flush_page (elem virt_addr (word_of_nat i) s) s) s [0..<unat npages]"

definition flush_pages_contiguous :: "u32 \<Rightarrow> u32 \<Rightarrow> 'w paging_state \<Rightarrow> 'w paging_state" where
  "flush_pages_contiguous virt_addr npages s =
     foldl (\<lambda>s i. flush_page (virt_addr + word_of_nat i * 0x1000) s) s [0..<unat npages]"

section \<open>Initialisation\<close>

text \<open>One frame, stored in the entry \<open>i\<close> of the array \<open>a\<close>.\<close>

definition alloc_frame_at :: "u32 \<Rightarrow> u32 \<Rightarrow> u32 \<Rightarrow> u32 \<Rightarrow> 'w paging_state \<Rightarrow> 'w paging_state" where
  "alloc_frame_at paddr a i flags s =
     (let (_, out, f) = alloc_frame paddr (a + 4 * i) flags (pg_frames s)
      in set_elems (a + 4 * i) out (s\<lparr>pg_frames := f\<rparr>))"

text \<open>
  \<open>init_pd\<close> and \<open>kernel_page_table\<close> are the addresses of the structure and of the four page tables of the
  kernel. The handler of vector 14 is installed in the interrupt tables.
\<close>

definition init_rw :: "u32 \<Rightarrow> 'w paging_state \<Rightarrow> nat \<Rightarrow> 'w paging_state" where
  "init_rw init_pd s i =
     set_pt_entry init_pd (word_of_nat i) (pt_entry init_pd s (word_of_nat i) OR R_W) s"

definition init_frame :: "u32 \<Rightarrow> 'w paging_state \<Rightarrow> nat \<Rightarrow> 'w paging_state" where
  "init_frame kernel_page_table s i =
     alloc_frame_at (word_of_nat i * 0x1000) kernel_page_table (word_of_nat i) (R_W OR PRESENT) s"

definition init_table :: "u32 \<Rightarrow> u32 \<Rightarrow> 'w paging_state \<Rightarrow> nat \<Rightarrow> 'w paging_state" where
  "init_table init_pd kernel_page_table s i =
     (let pt = kernel_page_table + 4 * (PT_SIZE * word_of_nat i);
          s = set_pt_entry init_pd (768 + word_of_nat i)
                (ptr_to_phys_addr (pg_cur_pd s) pt s OR PRESENT OR R_W OR GLOBAL) s
      in set_pt_virt init_pd (768 + word_of_nat i) pt s)"

definition page_tables_init ::
  "'d bus \<Rightarrow> u32 \<Rightarrow> u32 \<Rightarrow> 'w paging_state \<Rightarrow> 'd kst \<Rightarrow> int \<times> 'w paging_state \<times> 'd kst" where
  "page_tables_init b init_pd kernel_page_table s k =
     (let s = foldl (init_rw init_pd) s [0..<1024];
          s = foldl (init_frame kernel_page_table) s [0..<KERNEL_INIT_PT_COUNT * 1024];
          s = foldl (init_table init_pd kernel_page_table) s [0..<KERNEL_INIT_PT_COUNT];
          (ret, k) = add_isr_handler b 14 Page_fault_handler 0 k
      in (ret, s\<lparr>pg_cr3 := pd_phys_addr (pg_pd s init_pd), pg_enabled := True\<rparr>, k))"

text \<open>
  The addresses that the linker gives: the end and the base of the kernel, and the static variables. The
  frame allocator takes its bitmap from the heap, with what is in memory there. A failed initialisation
  panics.
\<close>

record kernel_symbols =
  sym_kernel_end :: u32
  sym_virt_kernel_addr :: u32
  sym_init_pd :: u32
  sym_init_page_tables :: u32
  sym_init_page_tables_virt :: u32
  sym_kernel_page_table :: u32

definition paging_init ::
  "('w, 'x) page_ops_scheme \<Rightarrow> 'd bus \<Rightarrow> kernel_symbols \<Rightarrow> u32 \<Rightarrow> 'w paging_state \<Rightarrow> 'd kst \<Rightarrow>
     fault + 'w paging_state \<times> 'd kst" where
  "paging_init ops b syms pmem_limit s k =
     (let pt_base_addr = sym_kernel_end syms + PAGE_SIZE * 1;
          map_limit = sym_virt_kernel_addr syms + word_of_nat KERNEL_INIT_PT_COUNT * PT_SIZE * PAGE_SIZE;
          s = s\<lparr>pg_virt_kernel_addr := sym_virt_kernel_addr syms, pg_map_limit := map_limit,
                pg_mem := po_heap_init ops map_limit pt_base_addr (pg_mem s)\<rparr>
      in bindE (mo_kmalloc ops (pmem_limit div (PAGE_SIZE * BIT_FRAME_SIZE) div BIT_FRAME_SIZE) (pg_mem s)) (\<lambda>(p, w).
        let (ret, f) = frame_alloc_init (\<lambda>_. (p, \<lambda>i. pg_word s (p + 4 * word_of_nat i))) pmem_limit (pg_frames s)
        in if ret \<noteq> 0 then Inl Panic
        else
          let s = s\<lparr>pg_mem := w, pg_frames := f\<rparr>;
              s = s\<lparr>pg_pd := (pg_pd s)(sym_init_pd syms :=
                    \<lparr>page_tables = sym_init_page_tables syms, page_tables_virt = sym_init_page_tables_virt syms,
                     pd_phys_addr = to_phys_addr (pg_cur_pd s) (sym_init_page_tables syms) s\<rparr>)\<rparr>;
              (ret, s, k) = page_tables_init b (sym_init_pd syms) (sym_kernel_page_table syms) s k;
              s = s\<lparr>pg_kernel_pd := sym_init_pd syms, pg_cur_pd := sym_init_pd syms\<rparr>
          in if ret \<noteq> 0 then Inl Panic
          else bindE (po_cache_create_align ops PAGE_SIZE PAGE_SIZE (pg_mem s)) (\<lambda>(cache, w).
            Inr (s\<lparr>pg_slab_cache := cache, pg_mem := w\<rparr>, k))))"

section \<open>Page tables\<close>

definition zero_page :: "u32 \<Rightarrow> (u32 \<Rightarrow> u32) \<Rightarrow> u32 \<Rightarrow> u32" where
  "zero_page p m a = (if a - p < PAGE_SIZE then 0 else m a)"

text \<open>The new entry of the directory and the virtual address of the new table.\<close>

definition alloc_pt :: "('w, 'x) page_ops_scheme \<Rightarrow> u16 \<Rightarrow> 'w paging_state \<Rightarrow> fault + u32 \<times> u32 \<times> 'w paging_state" where
  "alloc_pt ops flags s =
     bindE (po_kmalloc_align ops PAGE_SIZE PAGE_SIZE (pg_mem s)) (\<lambda>(new_pt, w).
       let s = s\<lparr>pg_mem := w\<rparr>;
           phys_addr = ptr_to_phys_addr (pg_cur_pd s) new_pt s
       in Inr (phys_addr OR ucast flags, new_pt, s\<lparr>pg_word := zero_page new_pt (pg_word s)\<rparr>))"

text \<open>
  \<open>pt\<close> is the array of the caller that receives the virtual addresses. The entry behind the last one of the
  directory is out of bounds.
\<close>

fun map_alloc_npt_loop ::
  "('w, 'x) page_ops_scheme \<Rightarrow> u32 \<Rightarrow> u16 \<Rightarrow> u16 \<Rightarrow> nat list \<Rightarrow> (nat \<Rightarrow> u32) \<Rightarrow> 'w paging_state \<Rightarrow>
     fault + int \<times> (nat \<Rightarrow> u32) \<times> 'w paging_state" where
  "map_alloc_npt_loop ops pd pde flags [] pt s = Inr (0, pt, s)"
| "map_alloc_npt_loop ops pd pde flags (n # ns) pt s =
     (let cur_pde = ucast pde + word_of_nat n in
      if cur_pde > PT_SIZE then Inr (ENOMEM, pt, s)
      else if cur_pde = PT_SIZE then Inl OutOfBounds
      else
        let s = (if pt_entry pd s cur_pde AND ACCESSED \<noteq> 0
                 then set_pt_entry pd cur_pde (pt_entry pd s cur_pde AND NOT ACCESSED) s else s)
        in if tab_present (pt_entry pd s cur_pde)
           then let s = set_pt_entry pd cur_pde (pt_entry pd s cur_pde OR ucast flags) s
                in Inr (0, pt(n := pt_virt pd s cur_pde), s)
           else bindE (alloc_pt ops flags s) (\<lambda>(entry, new_pt, s).
             let pt = pt(n := new_pt); s = set_pt_entry pd cur_pde entry s in
             if entry = 0 then Inr (ENOMEM, pt, s)
             else map_alloc_npt_loop ops pd pde flags ns pt (set_pt_virt pd cur_pde (pt 0) s)))"

definition map_alloc_npt ::
  "('w, 'x) page_ops_scheme \<Rightarrow> u32 \<Rightarrow> u32 \<Rightarrow> u16 \<Rightarrow> u16 \<Rightarrow> (nat \<Rightarrow> u32) \<Rightarrow> 'w paging_state \<Rightarrow>
     fault + int \<times> (nat \<Rightarrow> u32) \<times> 'w paging_state" where
  "map_alloc_npt ops pd npt pde flags pt s =
     (if pd = 0 then Inr (EINVAL, pt, s) else map_alloc_npt_loop ops pd pde flags [0..<unat npt] pt s)"

text \<open>The address of the one table; \<open>pt\<close> is what was in the caller's variable before.\<close>

definition map_alloc_pt ::
  "('w, 'x) page_ops_scheme \<Rightarrow> u32 \<Rightarrow> u16 \<Rightarrow> u16 \<Rightarrow> u32 \<Rightarrow> 'w paging_state \<Rightarrow> fault + int \<times> u32 \<times> 'w paging_state" where
  "map_alloc_pt ops pd pde flags pt s =
     bindE (map_alloc_npt ops pd 1 pde flags (\<lambda>_. pt) s) (\<lambda>(ret, pt, s). Inr (ret, pt 0, s))"

definition switch_page_dir :: "u32 \<Rightarrow> 'w paging_state \<Rightarrow> fault + int \<times> 'w paging_state" where
  "switch_page_dir pd s =
     (if pg_cur_pd s = pd then Inr (0, s)
      else if pd = 0 then Inl NullDeref
      else Inr (0, s\<lparr>pg_cur_pd := pd, pg_cr3 := pd_phys_addr (pg_pd s pd)\<rparr>))"

definition get_pd_page :: "u32 \<Rightarrow> u16 \<Rightarrow> u16 \<Rightarrow> 'w paging_state \<Rightarrow> u32" where
  "get_pd_page pd pde pte s = pt_virt pd s (ucast pde) + 4 * ucast pte"

definition pt_present :: "u32 \<Rightarrow> u16 \<Rightarrow> 'w paging_state \<Rightarrow> bool" where
  "pt_present pd pde s \<longleftrightarrow> tab_present (pt_entry pd s (ucast pde))"

definition page_present :: "u32 \<Rightarrow> u16 \<Rightarrow> u16 \<Rightarrow> 'w paging_state \<Rightarrow> bool" where
  "page_present pd pde pte s \<longleftrightarrow> tab_present (pg_word s (get_pd_page pd pde pte s))"

definition unmap_page :: "u32 \<Rightarrow> u16 \<Rightarrow> u16 \<Rightarrow> 'w paging_state \<Rightarrow> fault + 'w paging_state" where
  "unmap_page pd pde pte s =
     (let pt = pt_virt pd s (ucast pde) in
      if pd = 0 \<or> pt = 0 then Inl NullDeref
      else Inr (set_elem pt (ucast pte) (elem pt (ucast pte) s AND NOT PRESENT) s))"

text \<open>\<open>overflow\<close> is an \<open>int\<close>; the sums are those of \<open>unsigned int\<close>.\<close>

fun unmap_pages_loop :: "u32 \<Rightarrow> u16 \<Rightarrow> u16 \<Rightarrow> u32 \<Rightarrow> nat list \<Rightarrow> 'w paging_state \<Rightarrow> fault + 'w paging_state" where
  "unmap_pages_loop pd pde pte overflow [] s = Inr s"
| "unmap_pages_loop pd pde pte overflow (i # is) s =
     (let (overflow, pde) =
            (if ucast pte + overflow + word_of_nat i \<ge> PT_SIZE then (overflow - PT_SIZE, pde + 1) else (overflow, pde))
      in if ucast pde \<ge> PT_SIZE then Inr s
         else bindE (unmap_page pd pde (ucast (overflow + ucast pte + word_of_nat i)) s)
                (unmap_pages_loop pd pde pte overflow is))"

definition unmap_pages :: "u32 \<Rightarrow> u16 \<Rightarrow> u16 \<Rightarrow> u32 \<Rightarrow> 'w paging_state \<Rightarrow> fault + 'w paging_state" where
  "unmap_pages pd pde pte npages s = unmap_pages_loop pd pde pte 0 [0..<unat npages] s"

section \<open>Blocks with their physical address\<close>

text \<open>The allocations of the heap that also give the physical address of the block in the current directory.\<close>

definition kmalloc_align_phys ::
  "('w, 'x) page_ops_scheme \<Rightarrow> u32 \<Rightarrow> u32 \<Rightarrow> 'w paging_state \<Rightarrow> fault + (u32 \<times> u32) \<times> 'w paging_state" where
  "kmalloc_align_phys ops siz align s =
     bindE (po_kmalloc_align ops siz align (pg_mem s)) (\<lambda>(virt, w).
       Inr ((virt, ptr_to_phys_addr (pg_cur_pd s) virt s), s\<lparr>pg_mem := w\<rparr>))"

definition kmalloc_phys ::
  "('w, 'x) page_ops_scheme \<Rightarrow> u32 \<Rightarrow> 'w paging_state \<Rightarrow> fault + (u32 \<times> u32) \<times> 'w paging_state" where
  "kmalloc_phys ops siz s =
     bindE (mo_kmalloc ops siz (pg_mem s)) (\<lambda>(virt, w).
       Inr ((virt, ptr_to_phys_addr (pg_cur_pd s) virt s), s\<lparr>pg_mem := w\<rparr>))"

section \<open>Page faults\<close>

text \<open>A frame for the entry at the address \<open>a\<close>; the search may run forever.\<close>

definition find_alloc_frame_at :: "u32 \<Rightarrow> u32 \<Rightarrow> 'w paging_state \<Rightarrow> fault + int \<times> 'w paging_state" where
  "find_alloc_frame_at a flags s =
     (case find_alloc_frame a flags (pg_frames s) of
        None \<Rightarrow> Inl Diverges
      | Some (ret, out, f) \<Rightarrow> Inr (ret, set_elems a out (s\<lparr>pg_frames := f\<rparr>)))"

definition non_present_page_hanler ::
  "('w, 'x) page_ops_scheme \<Rightarrow> u32 \<Rightarrow> u16 \<Rightarrow> u16 \<Rightarrow> 'w paging_state \<Rightarrow> fault + int \<times> 'w paging_state" where
  "non_present_page_hanler ops uninit pde pte s =
     (let cur_pd = pg_cur_pd s in
      if cur_pd = 0 then Inl NullDeref
      else if \<not> pt_present cur_pd pde s
      then bindE (map_alloc_pt ops cur_pd pde (ucast (R_W OR PRESENT)) uninit s) (\<lambda>(ret, pt, s).
        if ret \<noteq> 0 then Inr (ret, s)
        else bindE (find_alloc_frame_at (pt + 4 * ucast pte) (R_W OR PRESENT) s) (\<lambda>(ret, s).
          if ret \<noteq> 0 then Inr (ret, s) else Inr (1, flush_page (get_virt_addr pde pte) s)))
      else if \<not> page_present cur_pd pde pte s
      then bindE (find_alloc_frame_at (get_pd_page cur_pd pde pte s) (R_W OR PRESENT) s) (\<lambda>(_, s). Inr (1, s))
      else Inr (1, s))"

text \<open>\<open>fault_addr\<close> is the value of \<open>cr2\<close>.\<close>

definition page_fault ::
  "('w, 'x) page_ops_scheme \<Rightarrow> u32 \<Rightarrow> u32 \<Rightarrow> u32 \<Rightarrow> 'w paging_state \<Rightarrow> fault + 'w paging_state" where
  "page_fault ops uninit fault_addr error s =
     (let s = s\<lparr>pg_last_fault_addr := fault_addr\<rparr>;
          (pde, pte) = get_pde_pte fault_addr
      in if error XOR PRESENT \<noteq> 0
         then bindE (non_present_page_hanler ops uninit pde pte s) (\<lambda>(_, s). Inr s)
         else Inr s)"

section \<open>Splitting an address\<close>

lemma unat_and_mask: "unat ((w :: u32) AND mask n) = unat w mod 2 ^ n"
  by (simp only: take_bit_eq_mask [symmetric] unsigned_take_bit_eq) (simp add: take_bit_eq_mod)

lemma unat_and_3FF: "unat ((w :: u32) AND 0x3FF) = unat w mod 1024"
  using unat_and_mask [of w 10] by (simp add: mask_eq_exp_minus_1)

lemma unat_and_FFF: "unat ((w :: u32) AND 0xFFF) = unat w mod 4096"
  using unat_and_mask [of w 12] by (simp add: mask_eq_exp_minus_1)

lemma get_pde_pte_unat:
  "unat (fst (get_pde_pte a)) = unat a div 0x400000" "unat (snd (get_pde_pte a)) = unat a div 4096 mod 1024"
proof -
  have "unat a div 0x400000 < 65536" using unat_u32_lt [of a] by simp
  then show "unat (fst (get_pde_pte a)) = unat a div 0x400000"
    by (simp add: get_pde_pte_def unsigned_ucast_eq drop_bit_eq_div unat_u32_div take_bit_eq_mod)
  have "unat a div 4096 mod 1024 < 65536" by (rule less_trans [OF mod_less_divisor]) simp_all
  then show "unat (snd (get_pde_pte a)) = unat a div 4096 mod 1024"
    by (simp add: get_pde_pte_def unsigned_ucast_eq unat_and_3FF drop_bit_eq_div unat_u32_div take_bit_eq_mod)
qed

lemma get_virt_addr_unat:
  assumes "unat pde < 1024" and "unat pte < 1024"
  shows "unat (get_virt_addr pde pte) = 0x400000 * unat pde + 4096 * unat pte"
  using assms by (simp add: get_virt_addr_def unat_simps)

text \<open>
  Splitting an address and putting it together are inverse: the page of an address is the one at its two
  indices, and an address within the page at two indices below 1024 has these indices.
\<close>

theorem virt_addr_roundtrip:
  "get_virt_addr (fst (get_pde_pte addr)) (snd (get_pde_pte addr)) + (addr AND 0xFFF) = addr \<and>
   (unat pde < 1024 \<and> unat pte < 1024 \<and> off < PAGE_SIZE \<longrightarrow> get_pde_pte (get_virt_addr pde pte + off) = (pde, pte))"
proof (intro conjI impI)
  let ?v = "get_virt_addr (fst (get_pde_pte addr)) (snd (get_pde_pte addr))"
  have "unat addr div 4194304 < 1024" using unat_u32_lt [of addr] by (simp add: less_mult_imp_div_less)
  then have v: "unat ?v = 4194304 * (unat addr div 4194304) + 4096 * (unat addr div 4096 mod 1024)"
    by (simp add: get_virt_addr_unat get_pde_pte_unat)
  have d: "unat addr div 4194304 = unat addr div 4096 div 1024" by (simp add: div_mult2_eq [symmetric])
  have q: "1024 * (q div 1024) + q mod 1024 = q" for q :: nat by simp
  have "4096 * (unat addr div 4096) + unat addr mod 4096 = unat addr" by simp
  then have "unat ?v + unat addr mod 4096 = unat addr"
    unfolding v d using q [of "unat addr div 4096"] by linarith
  then have "unat (?v + (addr AND 0xFFF)) = unat addr"
    using unat_u32_lt [of addr] by (simp add: unat_u32_add unat_and_FFF)
  then show "?v + (addr AND 0xFFF) = addr" by (rule unsigned_word_eqI)
next
  let ?a = "get_virt_addr pde pte + off"
  assume a: "unat pde < 1024 \<and> unat pte < 1024 \<and> off < PAGE_SIZE"
  then have off: "unat off < 4096" by (simp add: word_less_nat_alt)
  have u: "unat ?a = 0x400000 * unat pde + 4096 * unat pte + unat off"
    using a off by (simp add: unat_u32_add get_virt_addr_unat)
  have e: "(4096 * q + r) div 4096 = q" if "r < 4096" for q r :: nat using that by simp
  have "unat ?a = 4096 * (1024 * unat pde + unat pte) + unat off" using u by simp
  then have p: "unat ?a div 4096 = 1024 * unat pde + unat pte" using e [OF off] by (simp only:)
  have "unat ?a div 0x400000 = unat ?a div 4096 div 1024" by (simp add: div_mult2_eq [symmetric])
  then have "unat ?a div 0x400000 = unat pde" "unat ?a div 4096 mod 1024 = unat pte" unfolding p using a by simp_all
  then have "unat (fst (get_pde_pte ?a)) = unat pde" "unat (snd (get_pde_pte ?a)) = unat pte"
    by (simp_all add: get_pde_pte_unat)
  then show "get_pde_pte ?a = (pde, pte)" by (metis prod.collapse unsigned_word_eqI)
qed

theorem virt_addr_roundtrip_witness: "get_pde_pte (get_virt_addr 768 5 + 17) = (768, 5)"
  using virt_addr_roundtrip [of 0 768 5 17] by simp

section \<open>Unmapping\<close>

lemma page_split:
  fixes addr :: u32
  assumes "unat addr + 4096 * i < 4294967296"
  defines "P \<equiv> unat (snd (get_pde_pte addr)) + i"
  shows "unat (fst (get_pde_pte (addr + word_of_nat i * PAGE_SIZE))) = unat addr div 0x400000 + P div 1024"
    and "unat (snd (get_pde_pte (addr + word_of_nat i * PAGE_SIZE))) = P mod 1024"
    and "unat (fst (get_pde_pte (addr + word_of_nat i * PAGE_SIZE))) < 1024"
proof -
  let ?a = "addr + word_of_nat i * PAGE_SIZE" and ?A = "unat addr div 4096"
  have "i < 4294967296" using assms(1) by simp
  then have u: "unat ?a = unat addr + i * 4096" using assms(1) by (simp add: unat_simps)
  then have q: "unat ?a div 4096 = ?A + i" by simp
  have "?A + i = 1024 * (?A div 1024) + P" by (simp add: P_def get_pde_pte_unat)
  then have s: "(?A + i) div 1024 = ?A div 1024 + P div 1024" "(?A + i) mod 1024 = P mod 1024"
    by simp_all
  have d: "x div 4194304 = x div 4096 div 1024" for x :: nat by (simp add: div_mult2_eq [symmetric])
  show f: "unat (fst (get_pde_pte ?a)) = unat addr div 0x400000 + P div 1024"
    using s(1) by (simp add: get_pde_pte_unat q d)
  show "unat (snd (get_pde_pte ?a)) = P mod 1024" using s(2) by (simp add: get_pde_pte_unat q)
  have "unat ?a div 4194304 < 1024" using unat_u32_lt [of ?a] by (simp add: less_mult_imp_div_less)
  then show "unat (fst (get_pde_pte ?a)) < 1024" by (simp add: get_pde_pte_unat)
qed

text \<open>The indices that the loop computes for page \<open>i\<close>, when \<open>c\<close> page tables have been passed before it.\<close>

lemma unmap_index:
  fixes addr :: u32
  assumes "unat addr + 4096 * i < 4294967296" and "pte = snd (get_pde_pte addr)"
    and "(unat pte + i - 1) div 1024 = c" and "overflow = - (1024 * word_of_nat c)"
    and "unat pde = unat addr div 0x400000 + c"
  shows "(if ucast pte + overflow + word_of_nat i \<ge> PT_SIZE then (overflow - PT_SIZE, pde + 1) else (overflow, pde)) =
      (- (1024 * word_of_nat ((unat pte + i) div 1024)), fst (get_pde_pte (addr + word_of_nat i * PAGE_SIZE)))"
    and "(ucast (- (1024 * word_of_nat ((unat pte + i) div 1024)) + ucast pte + word_of_nat i :: u32) :: u16) =
      snd (get_pde_pte (addr + word_of_nat i * PAGE_SIZE))"
proof -
  define P where "P = unat pte + i"
  note sp = page_split [OF assms(1), folded assms(2), folded P_def]
  have pte: "unat pte < 1024" by (simp add: assms(2) get_pde_pte_unat)
  have P: "P < 4294967296" "1024 * c \<le> P" "P \<le> 1024 * c + 1024"
    using assms(1,3) pte by (auto simp: P_def)
  have w: "ucast pte + word_of_nat i = (word_of_nat P :: u32)" by (simp add: P_def)
  have idx: "ucast pte + overflow + word_of_nat i = (word_of_nat (P - 1024 * c) :: u32)"
    using P(2) w by (simp add: assms(4) algebra_simps)
  have ge: "ucast pte + overflow + word_of_nat i \<ge> PT_SIZE \<longleftrightarrow> P = 1024 * c + 1024"
    unfolding idx using P by (simp add: word_le_nat_alt unat_simps) auto
  have div: "P div 1024 = (if P = 1024 * c + 1024 then c + 1 else c)" using P(2,3) by auto
  show "(if ucast pte + overflow + word_of_nat i \<ge> PT_SIZE then (overflow - PT_SIZE, pde + 1) else (overflow, pde)) =
      (- (1024 * word_of_nat ((unat pte + i) div 1024)), fst (get_pde_pte (addr + word_of_nat i * PAGE_SIZE)))"
  proof -
    have "unat (if P = 1024 * c + 1024 then pde + 1 else pde) =
        unat (fst (get_pde_pte (addr + word_of_nat i * PAGE_SIZE)))"
      using sp(1,3) assms(5) div by (auto simp: unat_word_ariths)
    then have "(if P = 1024 * c + 1024 then pde + 1 else pde) = fst (get_pde_pte (addr + word_of_nat i * PAGE_SIZE))"
      by (rule unsigned_word_eqI)
    then show ?thesis unfolding ge P_def [symmetric] div using assms(4) by (auto simp: algebra_simps)
  qed
  have "- (1024 * word_of_nat (P div 1024)) + ucast pte + word_of_nat i = (word_of_nat (P - 1024 * (P div 1024)) :: u32)"
    using w by (simp add: algebra_simps)
  also have "P - 1024 * (P div 1024) = P mod 1024" by (simp add: minus_mult_div_eq_mod)
  finally have "unat (- (1024 * word_of_nat (P div 1024)) + ucast pte + word_of_nat i :: u32) = P mod 1024"
    by (simp add: unat_simps)
  moreover have "P mod 1024 < 65536" by (rule less_trans [OF mod_less_divisor]) simp_all
  ultimately have "unat (ucast (- (1024 * word_of_nat (P div 1024)) + ucast pte + word_of_nat i :: u32) :: u16) = P mod 1024"
    by (simp add: unsigned_ucast_eq take_bit_eq_mod)
  then have "unat (ucast (- (1024 * word_of_nat (P div 1024)) + ucast pte + word_of_nat i :: u32) :: u16) =
      unat (snd (get_pde_pte (addr + word_of_nat i * PAGE_SIZE)))" using sp(2) by simp
  then show "(ucast (- (1024 * word_of_nat ((unat pte + i) div 1024)) + ucast pte + word_of_nat i :: u32) :: u16) =
      snd (get_pde_pte (addr + word_of_nat i * PAGE_SIZE))"
    unfolding P_def by (rule unsigned_word_eqI)
qed

fun unmap_each :: "u32 \<Rightarrow> u32 list \<Rightarrow> 'w paging_state \<Rightarrow> fault + 'w paging_state" where
  "unmap_each pd [] s = Inr s"
| "unmap_each pd (a # as) s =
     bindE (unmap_page pd (fst (get_pde_pte a)) (snd (get_pde_pte a)) s) (unmap_each pd as)"

lemma unmap_pages_loop_range:
  fixes addr :: u32 and s :: "'w paging_state"
  assumes "pte = snd (get_pde_pte addr)" and "unat addr + 4096 * (i + n) \<le> 4294967296"
    and "(unat pte + i - 1) div 1024 = c" and "overflow = - (1024 * word_of_nat c)"
    and "unat pde = unat addr div 0x400000 + c"
  shows "unmap_pages_loop pd pde pte overflow [i..<i + n] s =
    unmap_each pd (map (\<lambda>i. addr + word_of_nat i * PAGE_SIZE) [i..<i + n]) s"
  using assms(2-)
proof (induction n arbitrary: i c overflow pde s)
  case 0
  then show ?case by simp
next
  case (Suc n)
  let ?a = "addr + word_of_nat i * PAGE_SIZE" and ?c = "(unat pte + i) div 1024"
  have i: "unat addr + 4096 * i < 4294967296" using Suc.prems(1) by simp
  note x = unmap_index [OF i assms(1) Suc.prems(2-4)]
  note sp = page_split [OF i, folded assms(1)]
  have b: "\<not> ucast (fst (get_pde_pte ?a)) \<ge> PT_SIZE" using sp(3) by (simp add: word_le_nat_alt unat_simps)
  have ih: "unmap_pages_loop pd (fst (get_pde_pte ?a)) pte (- (1024 * word_of_nat ?c)) [Suc i..<Suc i + n] t =
      unmap_each pd (map (\<lambda>i. addr + word_of_nat i * PAGE_SIZE) [Suc i..<Suc i + n]) t" for t :: "'w paging_state"
    using Suc.IH [of "Suc i" ?c "- (1024 * word_of_nat ?c)" "fst (get_pde_pte ?a)" t] Suc.prems(1) sp(1) by simp
  have u: "[i..<i + Suc n] = i # [Suc i..<Suc i + n]" by (simp add: upt_conv_Cons)
  show ?case unfolding u using b
    by (simp only: unmap_pages_loop.simps x Let_def prod.case if_False list.map unmap_each.simps ih [abs_def])
qed

text \<open>
  C39. \<open>unmap_pages\<close> unmaps the pages of a range one after the other, whatever page tables they are in: the
  overflow that it keeps turns the indices into those of the addresses, as long as the range ends within
  the address space.
\<close>

theorem unmap_pages_range:
  assumes "unat addr + 4096 * unat npages \<le> 4294967296"
  shows "unmap_pages pd (fst (get_pde_pte addr)) (snd (get_pde_pte addr)) npages s =
    unmap_each pd (map (\<lambda>i. addr + word_of_nat i * PAGE_SIZE) [0..<unat npages]) s"
proof -
  have "(unat (snd (get_pde_pte addr)) + 0 - 1) div 1024 = 0" by (simp add: get_pde_pte_unat)
  from unmap_pages_loop_range [OF refl _ this, where n = "unat npages" and overflow = 0 and pde = "fst (get_pde_pte addr)"]
  show ?thesis using assms by (simp add: unmap_pages_def get_pde_pte_unat)
qed

section \<open>Entries\<close>

lemma pure_addr_entry:
  assumes "flags < 4096"
  shows "get_tab_pure_addr (page_entry flags k) = word_of_nat (4096 * k)"
proof -
  have "take_bit 12 (unat flags) = unat flags"
    using assms by (simp add: word_less_nat_alt take_bit_nat_eq_self_iff)
  then have "take_bit 12 flags = flags" by (metis unsigned_take_bit_eq unsigned_word_eqI)
  then have f: "bit flags n \<Longrightarrow> n < 12" for n by (metis bit_take_bit_iff)
  have p: "(word_of_nat (4096 * k) :: u32) = push_bit 12 (word_of_nat k)" by (simp add: push_bit_eq_mult)
  have "(mask 12 :: u32) = 0xFFF" by (simp add: mask_eq_exp_minus_1)
  moreover have "(push_bit 12 (word_of_nat k) OR ucast flags) AND NOT (mask 12) = (push_bit 12 (word_of_nat k) :: u32)"
    by (rule bit_eqI) (auto simp: bit_and_iff bit_or_iff bit_not_iff bit_mask_iff bit_push_bit_iff bit_ucast_iff
        dest: f bit_u32_bound)
  ultimately show ?thesis unfolding get_tab_pure_addr_def page_entry_def p by (simp only:)
qed

lemma tab_present_bit: "tab_present w \<longleftrightarrow> bit w 0"
  by (simp add: tab_present_def and_one_eq bit_0 odd_iff_mod_2_eq_one)

lemma present_entry: "bit flags 0 \<Longrightarrow> tab_present (page_entry flags k)"
  by (simp add: tab_present_bit page_entry_def bit_or_iff bit_ucast_iff)

lemma set_elem_words [simp]:
  "pg_word (set_elem a i v s) = (pg_word s)(a + 4 * i := v)" "pg_pd (set_elem a i v s) = pg_pd s"
  "pg_frames (set_elem a i v s) = pg_frames s" "pg_cur_pd (set_elem a i v s) = pg_cur_pd s"
  by (simp_all add: set_elem_def)

lemma set_elems_one [simp]: "set_elems a [v] s = set_elem a 0 v s" "set_elems a [] s = s"
  by (simp_all add: set_elems_def)

lemma alloc_frame_one:
  assumes "p \<noteq> 0"
  shows "\<exists>f'. alloc_frame addr p flags f = (0, [addr OR ucast (ucast flags :: u16)], f') \<and>
    used_frames f' = insert (unat addr div 4096) (used_frames f)"
proof -
  obtain fm fr where m: "get_frame_meta addr = (fm, fr)" by fastforce
  note meta = get_frame_meta_frame [of addr, unfolded m fst_conv snd_conv]
  let ?l = "alloc_nframes_loop addr (ucast flags) [0..<1] (fm, fr, 0) [] f"
  have "used_frames (snd (set_nframes_used_loop [0..<1] (fm, fr, 0) 0 f)) =
      used_frames f \<union> {frame_no fm fr + 0 ..< frame_no fm fr + 1}"
    by (rule set_nframes_used_loop_frames(1)) (use meta in simp_all)
  then have "used_frames (snd ?l) = insert (unat addr div 4096) (used_frames f)"
    unfolding alloc_nframes_loop_state [of _ _ _ _ _ _ 0] meta(2) by auto
  moreover have "fst ?l = [addr OR ucast (ucast flags :: u16)]" unfolding alloc_nframes_loop_out by simp
  moreover have "alloc_frame addr p flags f = (0, fst ?l, snd ?l)"
    using assms m by (simp add: alloc_frame_def alloc_nframes_def split_beta)
  ultimately show ?thesis by (intro exI [of _ "snd ?l"]) (simp only:)
qed

text \<open>A search for one frame takes a free frame, and fails only if the frames it looks at are all used.\<close>

definition frame_available :: "frame_state \<Rightarrow> bool" where
  "frame_available f \<longleftrightarrow> (\<exists>i < unat (fs_num f). \<exists>r < 8. 32 * i + r \<notin> used_frames f)"

lemma find_alloc_frame_one:
  assumes "frame_inv f" and "p \<noteq> 0" and "frame_available f"
  shows "\<exists>k f'. find_alloc_frame p flags f = Some (0, [page_entry (ucast flags) k], f') \<and>
    k \<notin> used_frames f \<and> used_frames f' = insert k (used_frames f) \<and> frame_inv f'"
proof -
  let ?l = "find_alloc_nframes_loop [0..<unat (fs_num f)] 1 (ucast flags) 0 [] f"
  have "chunked (unat (1 :: u32) - unat (0 :: u32))" by (simp add: chunked_def)
  from find_alloc_nframes_loop_sound [OF assms(1) _ _ this, of "[0..<unat (fs_num f)]" "ucast flags" "[]"]
  obtain ret ks f' where r: "?l = Some (ret, map (page_entry (ucast flags)) ks, f')"
    "set ks \<inter> used_frames f = {}" "used_frames f' = used_frames f \<union> set ks" "frame_inv f'"
    "ret = 0 \<and> length ks = 1 \<or> ret = ENOMEM \<and> length ks = 0" by auto
  moreover have "ret \<noteq> ENOMEM"
    using find_alloc_frame_loop_fails [OF assms(1), of "[0..<unat (fs_num f)]" "ucast flags" "[]"] assms(3) r(1)
    by (auto simp: frame_available_def)
  ultimately have "length ks = Suc 0" "ret = 0" by auto
  then obtain k where "ks = [k]" by (auto simp: length_Suc_conv)
  then show ?thesis using r assms(2) \<open>ret = 0\<close>
    by (intro exI [of _ k] exI [of _ f']) (simp add: find_alloc_frame_def find_alloc_nframes_def)
qed

section \<open>Handling a fault\<close>

lemma xor_eq_0_iff_eq: "(a :: u32) XOR b = 0 \<longleftrightarrow> a = b"
  by (metis xor.assoc xor_self_eq xor.right_neutral xor.left_neutral)

text \<open>
  C4. A fault on a page that is not present gets a frame: when the page table of the address is present in the
  current directory and a frame is available, the handler takes a frame that was free, and the address is
  then translated to the place of the fault in this frame.
\<close>

theorem page_fault_maps:
  fixes s :: "'w paging_state" and fault_addr :: u32
  defines "cur \<equiv> pg_cur_pd s" and "pde \<equiv> fst (get_pde_pte fault_addr)" and "pte \<equiv> snd (get_pde_pte fault_addr)"
  assumes "cur \<noteq> 0" and "error \<noteq> PRESENT" and "frame_inv (pg_frames s)" and "frame_available (pg_frames s)"
    and "pt_present cur pde s" and "pt_virt cur s (ucast pde) \<noteq> 0" and "get_pd_page cur pde pte s \<noteq> 0"
    and "\<not> page_present cur pde pte s"
    and "get_pd_page cur pde pte s \<noteq> page_tables_virt (pg_pd s cur) + 4 * ucast pde"
  shows "\<exists>s' k. page_fault ops uninit fault_addr error s = Inr s' \<and> k \<notin> used_frames (pg_frames s) \<and>
    used_frames (pg_frames s') = insert k (used_frames (pg_frames s)) \<and> page_present cur pde pte s' \<and>
    to_phys_addr cur fault_addr s' = word_of_nat (4096 * k) + (fault_addr AND 0xFFF)"
proof -
  let ?a = "get_pd_page cur pde pte s"
  obtain k f' where k: "find_alloc_frame ?a (R_W OR PRESENT) (pg_frames s) =
      Some (0, [page_entry (ucast (R_W OR PRESENT)) k], f')"
    "k \<notin> used_frames (pg_frames s)" "used_frames f' = insert k (used_frames (pg_frames s))"
    using find_alloc_frame_one [OF assms(6) assms(10) assms(7)] by blast
  let ?e = "page_entry 3 k"
  let ?s = "set_elem ?a 0 ?e (s\<lparr>pg_last_fault_addr := fault_addr, pg_frames := f'\<rparr>)"
  have f: "(ucast (R_W OR PRESENT) :: u16) = 3" by simp
  have pf: "page_fault ops uninit fault_addr error s = Inr ?s"
    using assms(4,5,8,11) k(1) f
    by (simp add: page_fault_def non_present_page_hanler_def find_alloc_frame_at_def cur_def pde_def pte_def
        Let_def split_beta pt_present_def page_present_def get_pd_page_def pt_entry_def pt_virt_def elem_def xor_eq_0_iff_eq)
  have v: "pt_virt cur ?s (ucast pde) = pt_virt cur s (ucast pde)"
    using assms(12) by (simp add: pt_virt_def elem_def)
  have e: "pg_word ?s (pt_virt cur s (ucast pde) + 4 * ucast pte) = ?e" by (simp add: get_pd_page_def)
  have "page_present cur pde pte ?s"
    using e v present_entry [of 3 k] by (simp add: page_present_def get_pd_page_def)
  moreover have "to_phys_addr cur fault_addr ?s = word_of_nat (4096 * k) + (fault_addr AND 0xFFF)"
    using assms(4,9) v e pure_addr_entry [of 3 k]
    by (simp add: to_phys_addr_def Let_def split_beta elem_def flip: pde_def pte_def)
  ultimately show ?thesis using pf k(2,3) by (intro exI [of _ ?s] exI [of _ k]) simp
qed

text \<open>A directory at 64 with one page table, at 0x3000, and the frames of a fresh allocator.\<close>

definition demo_paging :: "unit paging_state" where
  "demo_paging = \<lparr>pg_word = (\<lambda>_. 0)(0x1000 := 0x3003, 0x2000 := 0x3000),
     pg_pd = (\<lambda>_. \<lparr>page_tables = 0x1000, page_tables_virt = 0x2000, pd_phys_addr = 0x1000\<rparr>),
     pg_cur_pd = 64, pg_kernel_pd = 64, pg_virt_kernel_addr = VADDR, pg_map_limit = 0, pg_slab_cache = 0,
     pg_last_fault_addr = 0, pg_frames = fresh_frames, pg_page = (\<lambda>_ _. 0), pg_flushed = [], pg_cr3 = 0x1000,
     pg_enabled = True, pg_mem = ()\<rparr>"

definition demo_ops :: "unit page_ops" where
  "demo_ops = \<lparr>mo_kmalloc = (\<lambda>_ w. Inr (0x6000, w)), mo_kfree = (\<lambda>_ w. Inr w),
     mo_cache_create = (\<lambda>_ w. Inr (0x7000, w)), mo_cache_destroy = (\<lambda>_ w. Inr w),
     mo_slab_alloc = (\<lambda>_ w. Inr (0x8000, w)), mo_slab_free = (\<lambda>_ _ w. Inr w),
     po_kmalloc_align = (\<lambda>_ _ w. Inr (0x4000, w)), po_cache_create_align = (\<lambda>_ _ w. Inr (0x7000, w)),
     po_heap_init = (\<lambda>_ _ w. w)\<rparr>"

theorem page_fault_maps_witness:
  "\<exists>s' k. page_fault demo_ops 0 0x5123 2 demo_paging = Inr s' \<and> to_phys_addr 64 0x5123 s' = word_of_nat (4096 * k) + 0x123"
proof -
  have "get_pde_pte 0x5123 = (0, 5)" by code_simp
  moreover have "frame_available fresh_frames"
    by (auto simp: frame_available_def fresh_frames_def used_frames_def intro!: exI [of _ 0])
  ultimately show ?thesis
    using page_fault_maps [of demo_paging 2 "0x5123" demo_ops 0]
    by (auto simp: demo_paging_def pt_present_def pt_entry_def pt_virt_def elem_def get_pd_page_def
        page_present_def tab_present_def)
qed

theorem unmap_pages_range_witness:
  "unmap_pages 64 (fst (get_pde_pte 0x3FF000)) (snd (get_pde_pte 0x3FF000)) 2 demo_paging =
    unmap_each 64 [0x3FF000, 0x400000] demo_paging"
  using unmap_pages_range [of "0x3FF000" 2 64 demo_paging] by (simp add: upt_rec)

section \<open>The address space of the kernel\<close>

definition apart :: "u32 \<Rightarrow> nat \<Rightarrow> u32 \<Rightarrow> nat \<Rightarrow> bool" where
  "apart a n b m \<longleftrightarrow> (\<forall>i < n. \<forall>j < m. a + 4 * word_of_nat i \<noteq> b + 4 * word_of_nat j)"

lemma elem_addr_inj:
  assumes "i < 4096" and "j < 4096" and "(a :: u32) + 4 * word_of_nat i = a + 4 * word_of_nat j"
  shows "i = j"
proof -
  from assms(3) have "unat (4 * word_of_nat i :: u32) = unat (4 * word_of_nat j :: u32)" by simp
  then show ?thesis using assms(1,2) by (simp add: unat_simps)
qed

lemma init_rw_frame:
  "(\<forall>i < n. a \<noteq> page_tables (pg_pd s pd) + 4 * word_of_nat i) \<Longrightarrow>
    pg_word (foldl (init_rw pd) s [0..<n]) a = pg_word s a"
  "pg_pd (foldl (init_rw pd) s [0..<n]) = pg_pd s" "pg_frames (foldl (init_rw pd) s [0..<n]) = pg_frames s"
  by (induction n) (simp_all add: init_rw_def set_pt_entry_def)

lemma init_frame_step:
  assumes "k + 4 * word_of_nat i \<noteq> 0" and "i < 4096"
  shows "\<exists>f'. init_frame k s i = (set_elem k (word_of_nat i) (page_entry 3 i) s)\<lparr>pg_frames := f'\<rparr> \<and>
    used_frames f' = insert i (used_frames (pg_frames s))"
proof -
  have "unat (word_of_nat i * 0x1000 :: u32) = i * 4096" using assms(2) by (simp add: unat_simps)
  then have d: "unat (word_of_nat i * 0x1000 :: u32) div 4096 = i" by simp
  have e: "word_of_nat i * 0x1000 OR ucast (ucast (R_W OR PRESENT) :: u16) = page_entry 3 i"
    by (simp add: page_entry_def mult.commute)
  from alloc_frame_one [OF assms(1), of "word_of_nat i * 0x1000" "R_W OR PRESENT" "pg_frames s"] obtain f' where
    "alloc_frame (word_of_nat i * 0x1000) (k + 4 * word_of_nat i) (R_W OR PRESENT) (pg_frames s) =
      (0, [page_entry 3 i], f')" "used_frames f' = insert i (used_frames (pg_frames s))"
    unfolding d e by blast
  then show ?thesis by (intro exI [of _ f']) (simp add: init_frame_def alloc_frame_at_def set_elem_def)
qed

lemma init_frames:
  assumes "\<forall>i < 4096. k + 4 * word_of_nat i \<noteq> 0" and "n \<le> 4096"
  shows "(\<forall>i < n. pg_word (foldl (init_frame k) s [0..<n]) (k + 4 * word_of_nat i) = page_entry 3 i) \<and>
    (\<forall>a. (\<forall>i < n. a \<noteq> k + 4 * word_of_nat i) \<longrightarrow> pg_word (foldl (init_frame k) s [0..<n]) a = pg_word s a) \<and>
    pg_pd (foldl (init_frame k) s [0..<n]) = pg_pd s \<and>
    {..<n} \<subseteq> used_frames (pg_frames (foldl (init_frame k) s [0..<n]))"
  using assms(2)
proof (induction n)
  case 0
  then show ?case by simp
next
  case (Suc n)
  let ?t = "foldl (init_frame k) s [0..<n]"
  have n: "n < 4096" using Suc.prems by simp
  obtain f' where f: "init_frame k ?t n = (set_elem k (word_of_nat n) (page_entry 3 n) ?t)\<lparr>pg_frames := f'\<rparr>"
    "used_frames f' = insert n (used_frames (pg_frames ?t))"
    using init_frame_step [of k n ?t] assms(1) n by blast
  have ne: "i < n \<Longrightarrow> k + 4 * word_of_nat i \<noteq> k + 4 * word_of_nat n" for i
    using elem_addr_inj [of i n k] n by auto
  have s: "foldl (init_frame k) s [0..<Suc n] = init_frame k ?t n" by simp
  show ?case unfolding s f(1) using Suc.IH n f(2) ne by (auto simp: less_Suc_eq)
qed

lemma init_table_step:
  "\<exists>e. init_table pd k s i = set_elem (page_tables_virt (pg_pd s pd)) (word_of_nat (768 + i))
    (k + 4 * (PT_SIZE * word_of_nat i)) (set_elem (page_tables (pg_pd s pd)) (word_of_nat (768 + i)) e s)"
  by (auto simp: init_table_def set_pt_entry_def set_pt_virt_def Let_def)

lemma init_tables:
  assumes "apart (page_tables (pg_pd s pd)) 1024 (page_tables_virt (pg_pd s pd)) 1024" and "n \<le> 4"
  shows "(\<forall>i < n. pg_word (foldl (init_table pd k) s [0..<n])
        (page_tables_virt (pg_pd s pd) + 4 * word_of_nat (768 + i)) = k + 4 * (PT_SIZE * word_of_nat i)) \<and>
    (\<forall>a. (\<forall>i < 1024. a \<noteq> page_tables (pg_pd s pd) + 4 * word_of_nat i \<and>
        a \<noteq> page_tables_virt (pg_pd s pd) + 4 * word_of_nat i) \<longrightarrow>
      pg_word (foldl (init_table pd k) s [0..<n]) a = pg_word s a) \<and>
    pg_pd (foldl (init_table pd k) s [0..<n]) = pg_pd s \<and>
    pg_frames (foldl (init_table pd k) s [0..<n]) = pg_frames s"
  using assms(2)
proof (induction n)
  case 0
  then show ?case by simp
next
  case (Suc n)
  let ?t = "foldl (init_table pd k) s [0..<n]" and ?T = "page_tables (pg_pd s pd)"
    and ?V = "page_tables_virt (pg_pd s pd)"
  have n: "n < 4" using Suc.prems by simp
  have pd: "pg_pd ?t = pg_pd s" using Suc.IH n by simp
  obtain e where s: "foldl (init_table pd k) s [0..<Suc n] =
      set_elem ?V (word_of_nat (768 + n)) (k + 4 * (PT_SIZE * word_of_nat n)) (set_elem ?T (word_of_nat (768 + n)) e ?t)"
    using init_table_step [of pd k ?t n] unfolding pd by auto
  have tv: "?V + 4 * word_of_nat i \<noteq> ?T + 4 * word_of_nat j" if "i < 1024" "j < 1024" for i j
    using assms(1) that unfolding apart_def by metis
  have vv: "?V + 4 * word_of_nat (768 + i) \<noteq> ?V + 4 * word_of_nat (768 + n)" if "i < n" for i
    using elem_addr_inj [of "768 + i" "768 + n" ?V] that n by auto
  show ?case unfolding s using Suc.IH n tv vv by (auto simp: less_Suc_eq simp del: of_nat_add)
qed

text \<open>
  C24. The initial page tables map the kernel: when the arrays of the initial directory and the four page
  tables do not overlap, every address of the first 16 MB above the kernel's base is translated to its
  distance from the base, the frames of these 16 MB are marked as used, and paging is switched on with
  the initial directory.
\<close>

theorem page_tables_init_maps:
  fixes s :: "'w paging_state" and init_pd :: u32
  defines "T \<equiv> page_tables (pg_pd s init_pd)" and "V \<equiv> page_tables_virt (pg_pd s init_pd)"
  assumes "init_pd \<noteq> 0" and "\<forall>i < 4096. K + 4 * word_of_nat i \<noteq> 0"
    and "apart T 1024 V 1024" and "apart K 4096 T 1024" and "apart K 4096 V 1024"
    and "VADDR \<le> addr" and "addr < VADDR + 0x1000000"
  shows "\<exists>s' k'. page_tables_init b init_pd K s k = (0, s', k') \<and>
    to_phys_addr init_pd addr s' = addr - VADDR \<and> {..<4096} \<subseteq> used_frames (pg_frames s') \<and>
    pg_enabled s' \<and> pg_cr3 s' = pd_phys_addr (pg_pd s init_pd)"
proof -
  define s1 where "s1 = foldl (init_rw init_pd) s [0..<1024]"
  define s2 where "s2 = foldl (init_frame K) s1 [0..<4096]"
  define s3 where "s3 = foldl (init_table init_pd K) s2 [0..<4]"
  define s4 where "s4 = s3\<lparr>pg_cr3 := pd_phys_addr (pg_pd s3 init_pd), pg_enabled := True\<rparr>"
  have p1: "pg_pd s1 = pg_pd s" unfolding s1_def by (rule init_rw_frame(2))
  note r2 = init_frames [OF assms(4) order_refl, of s1, folded s2_def]
  have p2: "pg_pd s2 = pg_pd s" using r2 p1 by simp
  have "apart (page_tables (pg_pd s2 init_pd)) 1024 (page_tables_virt (pg_pd s2 init_pd)) 1024"
    using assms(5) p2 by (simp add: T_def V_def)
  note r3 = init_tables [OF this order_refl, of K, folded s3_def, unfolded p2, folded T_def V_def]
  have p4: "pg_pd s4 = pg_pd s" "pg_word s4 = pg_word s3" "pg_frames s4 = pg_frames s2"
    using r3 by (simp_all add: s4_def)
  define x where "x = unat (addr - VADDR)"
  have x: "x < 16777216" "unat addr = 3221225472 + x"
    using assms(8,9) unat_u32_lt [of addr] by (auto simp: x_def word_le_nat_alt word_less_nat_alt unat_simps)
  define j p where "j = x div 4194304" and "p = x div 4096 mod 1024"
  have j: "j < 4" "p < 1024" using x(1) by (simp_all add: j_def p_def less_mult_imp_div_less)
  have "x div 4194304 = x div 4096 div 1024" by (simp add: div_mult2_eq [symmetric])
  then have q: "1024 * j + p = x div 4096" unfolding j_def p_def by simp
  have i: "unat (fst (get_pde_pte addr)) = 768 + j" "unat (snd (get_pde_pte addr)) = p"
    unfolding get_pde_pte_unat x(2) j_def p_def using mod_mult_self4 [of 1024 768 "x div 4096"]
    by (simp_all add: div_add1_eq)
  have c: "ucast (fst (get_pde_pte addr)) = (word_of_nat (768 + j) :: u32)"
    "ucast (snd (get_pde_pte addr)) = (word_of_nat p :: u32)" by (simp_all flip: i)
  have v: "pt_virt init_pd s4 (ucast (fst (get_pde_pte addr))) = K + 4 * (PT_SIZE * word_of_nat j)"
    unfolding c pt_virt_def elem_def p4 using r3 j(1) by (simp add: V_def del: of_nat_add)
  have "K + 4 * word_of_nat (1024 * j) \<noteq> 0" using assms(4) j(1) by (simp del: of_nat_mult)
  then have v0: "K + 4 * (PT_SIZE * word_of_nat j) \<noteq> 0" by simp
  have a: "K + 4 * (PT_SIZE * word_of_nat j) + 4 * word_of_nat p = K + 4 * word_of_nat (1024 * j + p)"
    by (simp add: algebra_simps)
  have k: "1024 * j + p < 4096" using j by simp
  have "pg_word s3 (K + 4 * word_of_nat (1024 * j + p)) = pg_word s2 (K + 4 * word_of_nat (1024 * j + p))"
    using r3 assms(6,7) k unfolding apart_def by blast
  also have "\<dots> = page_entry 3 (1024 * j + p)" using r2 k by blast
  finally have e: "elem (K + 4 * (PT_SIZE * word_of_nat j)) (ucast (snd (get_pde_pte addr))) s4 =
      page_entry 3 (x div 4096)" unfolding elem_def c a p4 q by simp
  have "to_phys_addr init_pd addr s4 = word_of_nat (4096 * (x div 4096)) + (addr AND 0xFFF)"
    using assms(3) v v0 e pure_addr_entry [of 3 "x div 4096"] by (simp add: to_phys_addr_def Let_def split_beta)
  moreover have "unat (word_of_nat (4096 * (x div 4096)) + (addr AND 0xFFF)) = x"
  proof -
    have "4096 * (x div 4096) \<le> x" by simp
    then have "unat (word_of_nat (4096 * (x div 4096)) :: u32) = 4096 * (x div 4096)"
      using x(1) by (simp only: unat_u32_of_nat)
    moreover have "unat (addr AND 0xFFF) = x mod 4096"
      unfolding unat_and_FFF x(2) by (simp add: mod_add_left_eq [symmetric])
    ultimately show ?thesis using x(1) by (simp add: unat_u32_add)
  qed
  ultimately have "to_phys_addr init_pd addr s4 = addr - VADDR" by (metis unsigned_word_eqI x_def)
  moreover have "\<exists>k'. page_tables_init b init_pd K s k = (0, s4, k')"
    by (simp add: page_tables_init_def Let_def add_isr_handler_def s4_def s3_def s2_def s1_def del: upt_Suc)
  moreover have "{..<4096} \<subseteq> used_frames (pg_frames s4)" unfolding p4 using r2 by blast
  moreover have "pg_enabled s4" "pg_cr3 s4 = pd_phys_addr (pg_pd s init_pd)" using r3 by (simp_all add: s4_def)
  ultimately show ?thesis by blast
qed

lemma apartI:
  assumes "unat a + 4 * n \<le> unat b" and "unat b + 4 * m \<le> 4294967296"
  shows "apart a n b m"
  unfolding apart_def
proof (intro allI impI notI)
  fix i j assume "i < n" "j < m" and e: "a + 4 * word_of_nat i = b + 4 * word_of_nat j"
  have i: "unat (a + 4 * word_of_nat i) = unat a + 4 * i" and j: "unat (b + 4 * word_of_nat j) = unat b + 4 * j"
    using assms \<open>i < n\<close> \<open>j < m\<close> by (simp_all add: unat_simps)
  show False using arg_cong [OF e, of unat] i j assms \<open>i < n\<close> by linarith
qed

lemma apart_sym: "apart a n b m \<longleftrightarrow> apart b m a n"
  unfolding apart_def by metis

theorem page_tables_init_maps_witness:
  "\<exists>s' k'. page_tables_init script_bus 64 0x10000 demo_paging (kst_script []) = (0, s', k') \<and>
    to_phys_addr 64 0xC0123456 s' = 0x123456"
proof -
  have "apart 0x1000 1024 0x2000 1024" "apart 0x10000 4096 0x1000 1024" "apart 0x10000 4096 0x2000 1024"
    by (simp_all add: apartI apart_sym [of "0x10000"])
  moreover have "(0x10000 :: u32) + 4 * word_of_nat i \<noteq> 0" if "i < 4096" for i
  proof -
    have "unat ((0x10000 :: u32) + 4 * word_of_nat i) = 65536 + 4 * i" using that by (simp add: unat_simps)
    then show ?thesis by auto
  qed
  ultimately show ?thesis
    using page_tables_init_maps [of 64 "0x10000" demo_paging "0xC0123456" script_bus "kst_script []"]
    by (auto simp: demo_paging_def)
qed

section \<open>New page tables\<close>

text \<open>
  A missing page table is created: for an entry of the directory that is not present \<open>map_alloc_pt\<close> with the
  flag \<open>PRESENT\<close> takes a page from the heap, clears it, and enters it in both arrays of the directory, so that
  the table is present and none of its pages is.
\<close>

theorem map_alloc_pt_fresh:
  assumes "pd \<noteq> 0" and "unat pde < 1024" and "\<not> pt_present pd pde s" and "bit flags 0"
    and "po_kmalloc_align ops PAGE_SIZE PAGE_SIZE (pg_mem s) = Inr (p, w)"
    and "a = page_tables (pg_pd s pd) + 4 * ucast pde" and "v = page_tables_virt (pg_pd s pd) + 4 * ucast pde"
    and "a \<noteq> v" and "a - p \<ge> PAGE_SIZE" and "v - p \<ge> PAGE_SIZE"
  shows "\<exists>s'. map_alloc_pt ops pd pde flags pt s = Inr (0, p, s') \<and> pt_present pd pde s' \<and>
    pt_virt pd s' (ucast pde) = p \<and> (\<forall>pte. unat pte < 1024 \<longrightarrow> elem p pte s' = 0) \<and>
    pg_frames s' = pg_frames s \<and> pg_pd s' = pg_pd s"
proof -
  have pde: "\<not> ucast pde > PT_SIZE" "ucast pde \<noteq> PT_SIZE"
    using assms(2) by (auto simp: word_less_nat_alt unat_simps dest: arg_cong [of _ _ unat])
  have np: "tab_present (x AND y) \<Longrightarrow> tab_present x" for x y :: u32 by (simp add: tab_present_bit bit_and_iff)
  define s1 where "s1 = (if pt_entry pd s (ucast pde) AND ACCESSED \<noteq> 0
     then set_pt_entry pd (ucast pde) (pt_entry pd s (ucast pde) AND NOT ACCESSED) s else s)"
  have s1: "pg_pd s1 = pg_pd s" "pg_mem s1 = pg_mem s"
    by (simp_all add: s1_def set_pt_entry_def set_elem_def)
  have n1: "\<not> tab_present (pt_entry pd s1 (ucast pde))"
    using assms(3) np by (auto simp: s1_def pt_present_def set_pt_entry_def pt_entry_def elem_def)
  define e where "e = ptr_to_phys_addr (pg_cur_pd s1) p (s1\<lparr>pg_mem := w\<rparr>) OR ucast flags"
  have "bit e 0" using assms(4) by (simp add: e_def bit_or_iff bit_ucast_iff)
  then have e: "tab_present e" "e \<noteq> 0" by (auto simp: tab_present_bit)
  define s2 where "s2 = s1\<lparr>pg_mem := w, pg_word := zero_page p (pg_word s1)\<rparr>"
  define s3 where "s3 = set_pt_virt pd (ucast pde) p (set_pt_entry pd (ucast pde) e s2)"
  have al: "alloc_pt ops flags s1 = Inr (e, p, s2)"
    using assms(5) by (simp add: alloc_pt_def s1 Let_def e_def s2_def)
  have "map_alloc_pt ops pd pde flags pt s = Inr (0, p, s3)"
    using assms(1) pde n1 al e by (simp add: map_alloc_pt_def map_alloc_npt_def Let_def s3_def flip: s1_def)
  moreover have w: "pg_word s3 = (zero_page p (pg_word s1))(a := e, v := p)" "pg_pd s3 = pg_pd s"
    using assms(6,7) s1 by (simp_all add: s3_def s2_def set_pt_virt_def set_pt_entry_def set_elem_def)
  moreover have "pg_frames s3 = pg_frames s"
    by (simp add: s3_def s2_def s1_def set_pt_virt_def set_pt_entry_def set_elem_def)
  moreover have "pt_present pd pde s3" "pt_virt pd s3 (ucast pde) = p"
    using w e(1) assms(6-8) by (simp_all add: pt_present_def pt_entry_def pt_virt_def elem_def)
  moreover have "elem p pte s3 = 0" if "unat pte < 1024" for pte
  proof -
    have l: "4 * pte < PAGE_SIZE" using that by (simp add: word_less_nat_alt unat_simps)
    then have "p + 4 * pte \<noteq> a" "p + 4 * pte \<noteq> v" using assms(9,10) by (auto simp: not_le [symmetric])
    then show ?thesis using l by (simp add: elem_def w zero_page_def)
  qed
  ultimately show ?thesis by blast
qed

theorem map_alloc_pt_fresh_witness:
  "\<exists>s'. map_alloc_pt demo_ops 64 7 3 0 demo_paging = Inr (0, 0x4000, s') \<and> pt_present 64 7 s'"
proof -
  have "\<not> pt_present 64 7 demo_paging" by code_simp
  then show ?thesis
    using map_alloc_pt_fresh [of 64 7 demo_paging 3 demo_ops "0x4000" "()" "0x101C" "0x201C" 0]
    by (auto simp: demo_ops_def demo_paging_def)
qed

text \<open>
  C5. A fault on an address without a page table gets both: the handler allocates a page table, enters it in the
  current directory, takes a frame that was free for the page, and the address is then translated to the place of
  the fault in this frame; the other pages of the new table stay absent.
\<close>

theorem page_fault_new_table:
  fixes s :: "'w paging_state" and fault_addr :: u32
  defines "cur \<equiv> pg_cur_pd s" and "pde \<equiv> fst (get_pde_pte fault_addr)" and "pte \<equiv> snd (get_pde_pte fault_addr)"
  assumes "cur \<noteq> 0" and "error \<noteq> PRESENT" and "frame_inv (pg_frames s)" and "frame_available (pg_frames s)"
    and "\<not> pt_present cur pde s" and "po_kmalloc_align ops PAGE_SIZE PAGE_SIZE (pg_mem s) = Inr (p, w)" and "p \<noteq> 0"
    and "p + 4 * ucast pte \<noteq> 0"
    and "a = page_tables (pg_pd s cur) + 4 * ucast pde" and "v = page_tables_virt (pg_pd s cur) + 4 * ucast pde"
    and "a \<noteq> v" and "a - p \<ge> PAGE_SIZE" and "v - p \<ge> PAGE_SIZE"
  shows "\<exists>s' k. page_fault ops uninit fault_addr error s = Inr s' \<and> k \<notin> used_frames (pg_frames s) \<and>
    used_frames (pg_frames s') = insert k (used_frames (pg_frames s)) \<and> page_present cur pde pte s' \<and>
    to_phys_addr cur fault_addr s' = word_of_nat (4096 * k) + (fault_addr AND 0xFFF) \<and>
    (\<forall>i. unat i < 1024 \<and> i \<noteq> pte \<longrightarrow> \<not> page_present cur pde i s')"
proof -
  let ?s0 = "s\<lparr>pg_last_fault_addr := fault_addr\<rparr>"
  have u: "unat pde < 1024" "unat pte < 1024"
    using get_pde_pte_unat [of fault_addr] unat_u32_lt [of fault_addr] by (auto simp: pde_def pte_def)
  have m: "\<not> pt_present cur pde ?s0" "po_kmalloc_align ops PAGE_SIZE PAGE_SIZE (pg_mem ?s0) = Inr (p, w)"
    "a = page_tables (pg_pd ?s0 cur) + 4 * ucast pde" "v = page_tables_virt (pg_pd ?s0 cur) + 4 * ucast pde"
    using assms(8,9,12,13) by (simp_all add: pt_present_def pt_entry_def elem_def)
  have fl: "bit (ucast (R_W OR PRESENT :: u32) :: u16) 0" by simp
  from map_alloc_pt_fresh [OF assms(4) u(1) m(1) fl m(2-4) assms(14-16), of uninit] obtain s1 where
    s1: "map_alloc_pt ops cur pde (ucast (R_W OR PRESENT)) uninit ?s0 = Inr (0, p, s1)" "pt_present cur pde s1"
      "pt_virt cur s1 (ucast pde) = p" "\<forall>i. unat i < 1024 \<longrightarrow> elem p i s1 = 0" "pg_frames s1 = pg_frames s" "pg_pd s1 = pg_pd s"
    by auto
  let ?a = "p + 4 * ucast pte"
  have inv: "frame_inv (pg_frames s1)" "frame_available (pg_frames s1)" using assms(6,7) s1(5) by simp_all
  obtain k f' where k: "find_alloc_frame ?a (R_W OR PRESENT) (pg_frames s1) =
      Some (0, [page_entry (ucast (R_W OR PRESENT)) k], f')"
    "k \<notin> used_frames (pg_frames s)" "used_frames f' = insert k (used_frames (pg_frames s))"
    using find_alloc_frame_one [OF inv(1) assms(11) inv(2)] unfolding s1(5) by blast
  let ?e = "page_entry 3 k"
  let ?s = "flush_page (get_virt_addr pde pte) (set_elem ?a 0 ?e (s1\<lparr>pg_frames := f'\<rparr>))"
  have f: "(ucast (R_W OR PRESENT) :: u16) = 3" by simp
  have pf: "page_fault ops uninit fault_addr error s = Inr ?s"
    using assms(4,5) m(1) s1(1) k(1) f
    by (simp add: page_fault_def non_present_page_hanler_def find_alloc_frame_at_def cur_def pde_def pte_def
        Let_def split_beta xor_eq_0_iff_eq)
  have lt: "4 * ucast pte < (PAGE_SIZE :: u32)" using u(2) by (simp add: word_less_nat_alt unat_simps)
  then have "?a \<noteq> v" using assms(16) by (auto simp: not_le [symmetric])
  then have v: "pt_virt cur ?s (ucast pde) = p"
    using s1(3,6) assms(13) by (simp add: pt_virt_def elem_def flush_page_def)
  have e: "pg_word ?s ?a = ?e" by (simp add: flush_page_def)
  have "page_present cur pde pte ?s"
    using e v present_entry [of 3 k] by (simp add: page_present_def get_pd_page_def)
  moreover have "to_phys_addr cur fault_addr ?s = word_of_nat (4096 * k) + (fault_addr AND 0xFFF)"
    using assms(4,10) v e pure_addr_entry [of 3 k]
    by (simp add: to_phys_addr_def Let_def split_beta elem_def flip: pde_def pte_def)
  moreover have "\<not> page_present cur pde i ?s" if "unat i < 1024 \<and> i \<noteq> pte" for i
  proof -
    have "p + 4 * ucast i \<noteq> ?a"
    proof
      assume "p + 4 * ucast i = ?a"
      then have "unat (4 * ucast i :: u32) = unat (4 * ucast pte :: u32)" by simp
      then have "unat i = unat pte" using that u(2) by (simp add: unat_simps)
      then show False using that by (simp add: word_eq_iff_unsigned [where ?'a = nat])
    qed
    moreover have "elem p (ucast i) s1 = 0" using s1(4) that by (simp add: unat_simps)
    ultimately show ?thesis using v by (simp add: page_present_def get_pd_page_def elem_def flush_page_def tab_present_def)
  qed
  ultimately show ?thesis using pf k(2,3) by (intro exI [of _ ?s] exI [of _ k]) (simp add: flush_page_def)
qed

theorem page_fault_new_table_witness:
  "\<exists>s' k. page_fault demo_ops 0 0x1C05123 2 demo_paging = Inr s' \<and> to_phys_addr 64 0x1C05123 s' = word_of_nat (4096 * k) + 0x123"
proof -
  have "get_pde_pte 0x1C05123 = (7, 5)" by code_simp
  moreover have "\<not> pt_present 64 7 demo_paging" by code_simp
  moreover have "frame_available fresh_frames"
    by (auto simp: frame_available_def fresh_frames_def used_frames_def intro!: exI [of _ 0])
  ultimately show ?thesis
    using page_fault_new_table [of demo_paging 2 "0x1C05123" demo_ops "0x4000" "()" "0x101C" "0x201C" 0]
    by (auto simp: demo_paging_def demo_ops_def)
qed

text \<open>
  With several new tables the array of virtual addresses gets the address of the first one for all of them:
  here the second table is at 0x5000, but the directory says 0x4000.
\<close>

definition bump_ops :: "u32 page_ops" where
  "bump_ops = \<lparr>mo_kmalloc = (\<lambda>n w. Inr (w, w + n)), mo_kfree = (\<lambda>_ w. Inr w),
     mo_cache_create = (\<lambda>_ w. Inr (w, w + 136)), mo_cache_destroy = (\<lambda>_ w. Inr w),
     mo_slab_alloc = (\<lambda>_ w. Inr (w, w + 0x1000)), mo_slab_free = (\<lambda>_ _ w. Inr w),
     po_kmalloc_align = (\<lambda>n _ w. Inr (w, w + n)), po_cache_create_align = (\<lambda>_ _ w. Inr (w, w + 136)),
     po_heap_init = (\<lambda>_ base _. base)\<rparr>"

definition bump_paging :: "u32 paging_state" where
  "bump_paging = \<lparr>pg_word = (\<lambda>_. 0)(0x1000 := 0x3003, 0x2000 := 0x3000),
     pg_pd = (\<lambda>_. \<lparr>page_tables = 0x1000, page_tables_virt = 0x2000, pd_phys_addr = 0x1000\<rparr>),
     pg_cur_pd = 64, pg_kernel_pd = 64, pg_virt_kernel_addr = VADDR, pg_map_limit = 0, pg_slab_cache = 0,
     pg_last_fault_addr = 0, pg_frames = fresh_frames, pg_page = (\<lambda>_ _. 0), pg_flushed = [], pg_cr3 = 0x1000,
     pg_enabled = True, pg_mem = 0x4000\<rparr>"

theorem map_alloc_npt_second_table:
  "case map_alloc_npt bump_ops 64 2 7 3 (\<lambda>_. 0) bump_paging of
     Inl _ \<Rightarrow> False
   | Inr (ret, pt, s') \<Rightarrow> ret = 0 \<and> pt 0 = 0x4000 \<and> pt 1 = 0x5000 \<and>
       pt_virt 64 s' 7 = 0x4000 \<and> pt_virt 64 s' 8 = 0x4000"
  by code_simp

text \<open>The entry behind the directory is not refused.\<close>

theorem map_alloc_pt_behind_directory:
  "(case map_alloc_pt bump_ops 64 1024 3 0 bump_paging of Inl f \<Rightarrow> f = OutOfBounds | Inr _ \<Rightarrow> False) \<and>
   (case map_alloc_pt bump_ops 64 1025 3 0 bump_paging of Inl _ \<Rightarrow> False | Inr (ret, _, _) \<Rightarrow> ret = ENOMEM)"
  by code_simp

end
