(* ===== verification/Initrd.thy ===== *)
theory Initrd
  imports Byte_Strings Buddy_Alloc "HOL-Library.Monad_Syntax"
begin

text \<open>
  The initial ram disk, \<open>src/fs/initrd.c\<close>, and the file system interface \<open>src/fs/fs.c\<close>. The ram disk is a
  tar archive in memory: \<open>tar_parse\<close> turns it into a list of entries, \<open>initrd_build_tree\<close> and
  \<open>initrd_build_fs\<close> into an array of nodes, and the directory operations and the path lookup walk that
  array.

  The archive and the names are in the byte memory of \<open>Byte_Strings\<close>. Memory that the code does not
  initialise is a parameter (\<open>uninit\<close>). Directory streams are values: their place in the heap does not matter.
\<close>

section \<open>Data\<close>

text \<open>Offsets in \<open>struct tar_pax_header\<close>.\<close>

abbreviation TAR_MODE :: u32 where "TAR_MODE \<equiv> 100"
abbreviation TAR_UID :: u32 where "TAR_UID \<equiv> 108"
abbreviation TAR_GID :: u32 where "TAR_GID \<equiv> 116"
abbreviation TAR_SIZE :: u32 where "TAR_SIZE \<equiv> 124"
abbreviation HEADER_SIZE :: u32 where "HEADER_SIZE \<equiv> 512"
abbreviation FS_FILE :: u32 where "FS_FILE \<equiv> 0"
abbreviation FS_DIR :: u32 where "FS_DIR \<equiv> 1"
abbreviation SLASH :: u8 where "SLASH \<equiv> 47"

record initrd_node =
  in_header :: u32
  in_data :: u32
  in_size :: u32
  in_sub_ent_num :: u32
  in_mode :: u32
  in_uid :: u32
  in_gid :: u32
  in_type :: u32

text \<open>
  A node of the file system. The function pointers are flags: \<open>fn_readdir\<close>, and \<open>fn_dirops\<close> for \<open>opendir\<close>,
  \<open>closedir\<close> and \<open>get_node\<close>. \<open>fn_name\<close> is the address of the 256 bytes of the name.
\<close>

record fs_node =
  fn_name :: u32
  fn_inode :: u32
  fn_mode :: u32
  fn_uid :: u32
  fn_gid :: u32
  fn_type :: u32
  fn_size :: u32
  fn_readdir :: bool
  fn_dirops :: bool

text \<open>A directory stream has room for \<open>dir_slots\<close> entries in \<open>data\<close>; \<open>readdir\<close> fills the one at its offset.\<close>

record fs_dir =
  dir_slots :: u32
  dir_offset :: u32
  dir_node :: fs_node

record initrd =
  rd_nodes :: "initrd_node list"
  rd_entry_num :: u32

section \<open>Parsing the archive\<close>

definition get_file_depth :: "mem8 \<Rightarrow> u32 \<Rightarrow> u32 \<Rightarrow> u32" where
  "get_file_depth m fname nlen =
     1 + word_of_nat (length (filter (\<lambda>c. c = SLASH) (cstrn m fname (unat (nlen - 1)))))"

text \<open>
  The entries parsed so far, oldest first, the address of the next header and the number of headers
  seen, 2 at first.
\<close>

record tar_state =
  ts_entries :: "initrd_node list"
  ts_next :: u32
  ts_i :: u32

definition tar_file_size :: "mem8 \<Rightarrow> u32 \<Rightarrow> u32" where
  "tar_file_size m header = atoi m (header + TAR_SIZE) 12 8"

definition tar_depth :: "mem8 \<Rightarrow> u32 \<Rightarrow> u32" where
  "tar_depth m header = get_file_depth m header (strnlen m header 100)"

definition tar_advance :: "mem8 \<Rightarrow> tar_state \<Rightarrow> tar_state" where
  "tar_advance m st = st\<lparr>ts_next := ts_next st + align_up (HEADER_SIZE + tar_file_size m (ts_next st)) HEADER_SIZE,
     ts_i := ts_i st + 1\<rparr>"

text \<open>The number of entries of a directory is not initialised here; it is set when its entries are parsed.\<close>

definition tar_node :: "u32 \<Rightarrow> mem8 \<Rightarrow> u32 \<Rightarrow> initrd_node" where
  "tar_node uninit m header =
     (let fname_len = strnlen m header 100; dir = (m (header + (fname_len - 1)) = SLASH) in
      \<lparr>in_header = header, in_data = header + HEADER_SIZE, in_size = tar_file_size m header,
       in_sub_ent_num = (if dir then uninit else 0),
       in_mode = atoi m (header + TAR_MODE) 8 8, in_uid = atoi m (header + TAR_UID) 8 8,
       in_gid = atoi m (header + TAR_GID) 8 8, in_type = (if dir then FS_DIR else FS_FILE)\<rparr>)"

definition set_sub_ents :: "nat \<Rightarrow> u32 \<Rightarrow> tar_state \<Rightarrow> tar_state" where
  "set_sub_ents parent n st =
     st\<lparr>ts_entries := (ts_entries st)[parent := (ts_entries st ! parent)\<lparr>in_sub_ent_num := n\<rparr>]\<rparr>"

text \<open>
  The loop of \<open>tar_parse_rec\<close> with the entries of the directory counted so far. \<open>parent\<close> is the position of
  the directory. Every second header is the extended header of the one behind it.
\<close>

partial_function (option) tar_parse_loop ::
  "u32 \<Rightarrow> mem8 \<Rightarrow> nat \<Rightarrow> u32 \<Rightarrow> u32 \<Rightarrow> tar_state \<Rightarrow> tar_state option" where
  "tar_parse_loop uninit m parent depth sub_ent_num st =
     (let header = ts_next st in
      if m header = 0 then Some (set_sub_ents parent sub_ent_num st)
      else if ts_i st mod 2 \<noteq> 0
      then let file_depth = tar_depth m header in
        if file_depth > depth
        then do {
          st \<leftarrow> tar_parse_loop uninit m (length (ts_entries st) - 1) file_depth 0 st;
          tar_parse_loop uninit m parent depth sub_ent_num st
        }
        else if file_depth < depth then Some (set_sub_ents parent sub_ent_num st)
        else tar_parse_loop uninit m parent depth (sub_ent_num + 1)
          (tar_advance m (st\<lparr>ts_entries := ts_entries st @ [tar_node uninit m header]\<rparr>))
      else tar_parse_loop uninit m parent depth sub_ent_num (tar_advance m st))"

declare tar_parse_loop.simps [code]

definition tar_parse_rec :: "u32 \<Rightarrow> mem8 \<Rightarrow> nat \<Rightarrow> u32 \<Rightarrow> tar_state \<Rightarrow> tar_state option" where
  "tar_parse_rec uninit m parent depth st = tar_parse_loop uninit m parent depth 0 st"

text \<open>
  The root gets a header of its own at the address \<open>root_header\<close>, with the name \<open>/\<close>; the other fields of
  its entry keep their old contents \<open>old\<close>. The result is the number of entries, the entries, and the size
  of the archive.
\<close>

definition tar_parse ::
  "u32 \<Rightarrow> u32 \<Rightarrow> initrd_node \<Rightarrow> mem8 \<Rightarrow> u32 \<Rightarrow> (u32 \<times> initrd_node list \<times> u32 \<times> mem8) option" where
  "tar_parse uninit root_header old m initrd_addr =
     (let root = old\<lparr>in_type := FS_DIR, in_header := root_header\<rparr>;
          m = (if root_header = 0 then m else m(root_header := SLASH)) in do {
        st \<leftarrow> tar_parse_rec uninit m 0 1 \<lparr>ts_entries = [root], ts_next = initrd_addr, ts_i = 2\<rparr>;
        Some (ts_i st div 2, ts_entries st, ts_next st - initrd_addr, m)
      })"

section \<open>Building the tree\<close>

text \<open>
  The entries go to the array from its last place down, newest first; the loop stops at the first place.
  The array has \<open>rd_len\<close> places, \<open>old\<close> before.
\<close>

fun fill_nodes :: "initrd_node list \<Rightarrow> nat \<Rightarrow> initrd_node list \<Rightarrow> initrd_node list" where
  "fill_nodes [] i nodes = nodes"
| "fill_nodes (e # es) i nodes =
     (let nodes = nodes[i - 1 := e] in if i = 1 then nodes else fill_nodes es (i - 1) nodes)"

definition initrd_build_tree :: "initrd_node list \<Rightarrow> u32 \<Rightarrow> initrd_node list \<Rightarrow> initrd" where
  "initrd_build_tree entries rd_len old =
     \<lparr>rd_nodes = fill_nodes (rev entries) (unat rd_len) old, rd_entry_num = rd_len\<rparr>"

text \<open>The last component of a path: its offset, and the length of the path without a final slash.\<close>

fun basename_scan :: "mem8 \<Rightarrow> u32 \<Rightarrow> nat \<Rightarrow> nat" where
  "basename_scan m fname 0 = 0"
| "basename_scan m fname (Suc offset) =
     (if m (fname + word_of_nat offset) = SLASH then offset + 1 else basename_scan m fname offset)"

definition parse_file_basename :: "mem8 \<Rightarrow> u32 \<Rightarrow> u32 \<Rightarrow> u32 \<times> u32" where
  "parse_file_basename m fname len =
     (let offset = word_of_nat (basename_scan m fname (unat (len - 1)))
      in (offset, if offset \<noteq> len - 1 \<and> m (fname + (len - 1)) = SLASH then len - 1 else len))"

abbreviation SIZEOF_FS_NODE :: u32 where "SIZEOF_FS_NODE \<equiv> 324"

definition initrd_build_node :: "bool \<Rightarrow> u32 \<Rightarrow> initrd_node \<Rightarrow> nat \<Rightarrow> mem8 \<Rightarrow> fs_node \<times> mem8" where
  "initrd_build_node uninit_ops rd_fs n i m =
     (let name = rd_fs + word_of_nat i * SIZEOF_FS_NODE;
          fname_len = strnlen m (in_header n) 100;
          (offset, fname_len) = parse_file_basename m (in_header n) fname_len;
          m = snd (strcpy name (in_header n + offset) 100 m);
          m = m(name + (fname_len - offset) := 0)
      in (\<lparr>fn_name = name, fn_inode = word_of_nat i, fn_mode = in_mode n, fn_uid = in_uid n, fn_gid = in_gid n,
           fn_type = in_type n, fn_size = in_size n, fn_readdir = (in_type n = FS_DIR),
           fn_dirops = (if in_type n = FS_DIR then True else uninit_ops)\<rparr>, m))"

fun initrd_build_fs :: "bool \<Rightarrow> u32 \<Rightarrow> initrd_node list \<Rightarrow> nat \<Rightarrow> mem8 \<Rightarrow> fs_node list \<times> mem8" where
  "initrd_build_fs uninit_ops rd_fs [] i m = ([], m)"
| "initrd_build_fs uninit_ops rd_fs (n # ns) i m =
     (let (f, m) = initrd_build_node uninit_ops rd_fs n i m;
          (fs, m) = initrd_build_fs uninit_ops rd_fs ns (i + 1) m
      in (f # fs, m))"

text \<open>
  The initialisation, with the results of the calls to other components as arguments: the return code and
  the first address of \<open>knmmap\<close> for the pages of the module, the addresses of the root header and of the
  node array, and the contents of the memory before.
\<close>

definition initrd_init ::
  "int \<times> u32 \<Rightarrow> u32 \<Rightarrow> u32 \<Rightarrow> u32 \<Rightarrow> bool \<Rightarrow> initrd_node \<Rightarrow> initrd_node list \<Rightarrow> mem8 \<Rightarrow>
     (int \<times> (initrd \<times> fs_node list) option \<times> mem8) option" where
  "initrd_init map_result root_header rd_fs uninit uninit_ops old old_nodes m =
     (let (ret, initrd_addr) = map_result in
      if ret \<noteq> 0 then Some (ret, None, m)
      else do {
        (entry_num, entries, _, m) \<leftarrow> tar_parse uninit root_header old m initrd_addr;
        let rd = initrd_build_tree entries entry_num old_nodes;
            (fs, m) = initrd_build_fs uninit_ops rd_fs (take (unat entry_num) (rd_nodes rd)) 0 m
        in Some (ret, Some (rd, fs), m)
      })"

section \<open>Files and directories\<close>

text \<open>The contents are copied to \<open>buf\<close> from the file's data on, whatever the size of the file.\<close>

definition initrd_read :: "initrd \<Rightarrow> fs_node \<Rightarrow> u32 \<Rightarrow> u32 \<Rightarrow> u32 \<Rightarrow> mem8 \<Rightarrow> u32 \<times> mem8" where
  "initrd_read rd node offset siz buf m =
     (if buf = 0 then (0, m)
      else (fn_size node, snd (memcpy buf (in_data (rd_nodes rd ! unat (fn_inode node)) + offset) siz m)))"

text \<open>\<open>phys\<close> is the translation of the current page directory.\<close>

definition initrd_mmap :: "(u32 \<Rightarrow> u32) \<Rightarrow> initrd \<Rightarrow> fs_node \<Rightarrow> u32 \<Rightarrow> u16 \<Rightarrow> u32 \<times> u32 list" where
  "initrd_mmap phys rd node siz flags =
     (let n = rd_nodes rd ! unat (fn_inode node);
          start_paddr = page_align_down (phys (in_header n))
      in (in_data n - page_align_down (in_header n), set_addrs start_paddr siz flags))"

definition initrd_opendir :: "initrd \<Rightarrow> fs_node \<Rightarrow> fs_dir" where
  "initrd_opendir rd node =
     \<lparr>dir_slots = in_sub_ent_num (rd_nodes rd ! unat (fn_inode node)), dir_offset = 1, dir_node = node\<rparr>"

text \<open>The inode of the next entry and the stream, \<open>None\<close> at the end.\<close>

definition initrd_readdir :: "initrd \<Rightarrow> fs_dir \<Rightarrow> (u32 \<times> fs_dir) option" where
  "initrd_readdir rd dir =
     (if dir_offset dir > rd_entry_num rd - fn_inode (dir_node dir) - 1 then None
      else let ent_inode = fn_inode (dir_node dir) + dir_offset dir;
               ent = rd_nodes rd ! unat ent_inode
           in Some (ent_inode, dir\<lparr>dir_offset := dir_offset dir + (in_sub_ent_num ent + 1)\<rparr>))"

definition initrd_get_root :: "fs_node list \<Rightarrow> fs_node" where
  "initrd_get_root fs = fs ! 0"

subsection \<open>File system interface\<close>

definition opendir_fs :: "initrd \<Rightarrow> fs_node option \<Rightarrow> fs_dir option" where
  "opendir_fs rd node =
     (case node of None \<Rightarrow> None | Some n \<Rightarrow> if fn_dirops n then Some (initrd_opendir rd n) else None)"

definition readdir_fs :: "initrd \<Rightarrow> fs_dir option \<Rightarrow> (u32 \<times> fs_dir) option" where
  "readdir_fs rd dir =
     (case dir of None \<Rightarrow> None | Some d \<Rightarrow> if fn_readdir (dir_node d) then initrd_readdir rd d else None)"

definition read_fs :: "initrd \<Rightarrow> fs_node option \<Rightarrow> u32 \<Rightarrow> u32 \<Rightarrow> u32 \<Rightarrow> mem8 \<Rightarrow> u32 \<times> mem8" where
  "read_fs rd node offset len buf m =
     (case node of None \<Rightarrow> (word_of_int EINVAL, m) | Some n \<Rightarrow> initrd_read rd n offset len buf m)"

text \<open>The nodes of the ram disk have no \<open>write\<close>, \<open>open\<close> and \<open>close\<close>.\<close>

definition write_fs :: "fs_node option \<Rightarrow> int" where
  "write_fs node = EINVAL"

definition open_fs :: "fs_node option \<Rightarrow> unit" where
  "open_fs node = ()"

definition close_fs :: "fs_node option \<Rightarrow> fault + unit" where
  "close_fs node = (case node of None \<Rightarrow> Inr () | Some n \<Rightarrow> if fn_readdir n then Inl NullDeref else Inr ())"

definition mmap_fs :: "(u32 \<Rightarrow> u32) \<Rightarrow> initrd \<Rightarrow> fs_node option \<Rightarrow> u32 \<Rightarrow> u16 \<Rightarrow> u32 \<times> u32 list" where
  "mmap_fs phys rd node npages flags =
     (case node of None \<Rightarrow> (0, []) | Some n \<Rightarrow> initrd_mmap phys rd n npages flags)"

section \<open>Path lookup\<close>

definition get_filename_len :: "mem8 \<Rightarrow> u32 \<Rightarrow> u32" where
  "get_filename_len m name = strnlen m name 256"

definition ent_name_eq :: "mem8 \<Rightarrow> fs_node \<Rightarrow> u32 \<Rightarrow> u32 \<Rightarrow> bool" where
  "ent_name_eq m ent name nlen =
     (let nlen = (if fn_type ent = FS_DIR \<and> m (name + (nlen - 1)) = SLASH then nlen - 1 else nlen)
      in strneq m (fn_name ent) name nlen = 0)"

text \<open>The length of the first component, with its slash.\<close>

fun component_len :: "mem8 \<Rightarrow> u32 \<Rightarrow> nat \<Rightarrow> nat \<Rightarrow> nat" where
  "component_len m name dlen 0 = dlen"
| "component_len m name dlen (Suc left) =
     (if m (name + word_of_nat dlen) = SLASH then dlen + 1 else component_len m name (dlen + 1) left)"

definition parse_file_dir_name :: "mem8 \<Rightarrow> u32 \<Rightarrow> u32 \<Rightarrow> u32" where
  "parse_file_dir_name m full_name full_len = word_of_nat (component_len m full_name 0 (unat full_len))"

text \<open>The search for a name in a directory; the stream is given, the result is the node.\<close>

partial_function (option) find_entry ::
  "initrd \<Rightarrow> fs_node list \<Rightarrow> mem8 \<Rightarrow> u32 \<Rightarrow> u32 \<Rightarrow> fs_dir option \<Rightarrow> fs_node option option" where
  "find_entry rd fs m name nlen dir =
     (case readdir_fs rd dir of
        None \<Rightarrow> Some None
      | Some (ino, d) \<Rightarrow>
          if ent_name_eq m (fs ! unat ino) name nlen then Some (Some (fs ! unat ino))
          else find_entry rd fs m name nlen (Some d))"

partial_function (option) get_node_loop ::
  "initrd \<Rightarrow> fs_node list \<Rightarrow> mem8 \<Rightarrow> u32 \<Rightarrow> u32 \<Rightarrow> fs_node option \<Rightarrow> fs_node option option" where
  "get_node_loop rd fs m cur_name fname_len cur_root =
     (let cur_name_len = parse_file_dir_name m cur_name fname_len in
      if cur_name_len = 0 then Some cur_root
      else if cur_root = None then Some None
      else do {
        next_root \<leftarrow> find_entry rd fs m cur_name cur_name_len (opendir_fs rd cur_root);
        get_node_loop rd fs m (cur_name + cur_name_len) (fname_len - cur_name_len) next_root
      })"

declare find_entry.simps [code] get_node_loop.simps [code]

text \<open>The outer option is the termination of the walk, the inner one the result, \<open>NULL\<close> or a node.\<close>

definition initrd_get_node :: "initrd \<Rightarrow> fs_node list \<Rightarrow> mem8 \<Rightarrow> fs_node option \<Rightarrow> u32 \<Rightarrow> fs_node option option" where
  "initrd_get_node rd fs m root name =
     (if m name \<noteq> SLASH then Some None
      else get_node_loop rd fs m (name + 1) (get_filename_len m (name + 1)) root)"

definition root_get_node_fs :: "initrd \<Rightarrow> fs_node list \<Rightarrow> mem8 \<Rightarrow> u32 \<Rightarrow> fs_node option option" where
  "root_get_node_fs rd fs m name =
     (if name = 0 then Some None else initrd_get_node rd fs m (Some (initrd_get_root fs)) name)"

section \<open>The archive as a forest\<close>

text \<open>
  The entries of an archive form a forest: a header with the headers of the entries below it. In the
  archive they are in preorder, each behind its extended header.
\<close>

datatype ftree = FT u32 "ftree list"

fun forest_headers :: "ftree list \<Rightarrow> u32 list" where
  "forest_headers [] = []"
| "forest_headers (FT h cs # ts) = h # forest_headers cs @ forest_headers ts"

text \<open>The entries of one directory have the same depth, and the ones below them a larger one.\<close>

fun forest_depth :: "mem8 \<Rightarrow> u32 \<Rightarrow> ftree list \<Rightarrow> bool" where
  "forest_depth m d [] \<longleftrightarrow> True"
| "forest_depth m d (FT h cs # ts) \<longleftrightarrow>
     tar_depth m h = d \<and> (case cs of [] \<Rightarrow> True | FT c _ # _ \<Rightarrow> d < tar_depth m c \<and> forest_depth m (tar_depth m c) cs) \<and>
     forest_depth m d ts"

definition tar_next :: "mem8 \<Rightarrow> u32 \<Rightarrow> u32" where
  "tar_next m a = a + align_up (HEADER_SIZE + tar_file_size m a) HEADER_SIZE"

fun archive_at :: "mem8 \<Rightarrow> u32 \<Rightarrow> u32 list \<Rightarrow> bool" where
  "archive_at m a [] \<longleftrightarrow> m a = 0"
| "archive_at m a (h # hs) \<longleftrightarrow> m a \<noteq> 0 \<and> h = tar_next m a \<and> m h \<noteq> 0 \<and> archive_at m (tar_next m h) hs"

text \<open>What the parser should produce: the nodes in preorder, with the number of entries directly below.\<close>

fun forest_nodes :: "u32 \<Rightarrow> mem8 \<Rightarrow> ftree list \<Rightarrow> initrd_node list" where
  "forest_nodes uninit m [] = []"
| "forest_nodes uninit m (FT h cs # ts) =
     (tar_node uninit m h)\<lparr>in_sub_ent_num := (if cs = [] then in_sub_ent_num (tar_node uninit m h)
        else word_of_nat (length cs))\<rparr> # forest_nodes uninit m cs @ forest_nodes uninit m ts"

text \<open>
  A position between two entries, or between an extended header and its entry. The header counter will be
  \<open>N\<close> at the end of the archive.
\<close>

definition parse_at :: "mem8 \<Rightarrow> u32 \<Rightarrow> tar_state \<Rightarrow> u32 list \<Rightarrow> bool" where
  "parse_at m N st hs \<longleftrightarrow>
     ts_i st - ts_i st mod 2 + 2 * word_of_nat (length hs) = N \<and>
     (if ts_i st mod 2 = 0 then archive_at m (ts_next st) hs
      else case hs of [] \<Rightarrow> False | h # hs' \<Rightarrow> ts_next st = h \<and> m h \<noteq> 0 \<and> archive_at m (tar_next m h) hs')"

definition set_sub :: "nat \<Rightarrow> u32 \<Rightarrow> initrd_node list \<Rightarrow> initrd_node list" where
  "set_sub parent n es = es[parent := (es ! parent)\<lparr>in_sub_ent_num := n\<rparr>]"

lemma odd_succ: "(w :: u32) mod 2 \<noteq> 0 \<longleftrightarrow> (w + 1) mod 2 = 0"
proof -
  have "(x :: u32) mod 2 = 0 \<longleftrightarrow> even x" for x by (simp add: even_iff_mod_2_eq_zero)
  then show ?thesis by simp
qed

lemma odd_mod: "(w :: u32) mod 2 \<noteq> 0 \<Longrightarrow> w mod 2 = 1"
  by (simp add: odd_iff_mod_2_eq_one even_iff_mod_2_eq_zero flip: odd_iff_mod_2_eq_one even_iff_mod_2_eq_zero)

lemma parse_at_end: "parse_at m N st [] \<Longrightarrow> ts_i st mod 2 = 0 \<and> m (ts_next st) = 0 \<and> ts_i st = N"
  by (auto simp: parse_at_def split: if_splits)

text \<open>Skipping an extended header leads to its entry.\<close>

lemma parse_at_entry:
  assumes "parse_at m N st (h # hs)"
  shows "\<exists>st'. tar_parse_loop u m parent d n st = tar_parse_loop u m parent d n st' \<and>
    parse_at m N st' (h # hs) \<and> ts_i st' mod 2 \<noteq> 0 \<and> ts_entries st' = ts_entries st"
proof (cases "ts_i st mod 2 = 0")
  case True
  let ?st = "tar_advance m st"
  have a: "m (ts_next st) \<noteq> 0" "h = tar_next m (ts_next st)" "m h \<noteq> 0" "archive_at m (tar_next m h) hs"
    "N = ts_i st + 2 * word_of_nat (length (h # hs))"
    using assms True by (auto simp: parse_at_def)
  have "tar_parse_loop u m parent d n st = tar_parse_loop u m parent d n ?st"
    using a True by (subst tar_parse_loop.simps) (simp add: Let_def)
  moreover have "ts_i ?st mod 2 \<noteq> 0" using True odd_succ [of "ts_i st + 1"] odd_succ [of "ts_i st"]
    by (simp add: tar_advance_def)
  moreover have "ts_next ?st = h" using a(2) by (simp add: tar_advance_def tar_next_def)
  ultimately show ?thesis using a by (intro exI [of _ ?st]) (simp add: parse_at_def tar_advance_def)
next
  case False
  with assms show ?thesis by blast
qed

lemma parse_at_sub [simp]: "parse_at m N (set_sub_ents k n st) hs = parse_at m N st hs"
  by (simp add: parse_at_def set_sub_ents_def split: list.splits)

lemma entries_sub [simp]: "ts_entries (set_sub_ents k n st) = set_sub k n (ts_entries st)"
  by (simp add: set_sub_ents_def set_sub_def)

text \<open>The end of a directory: the end of the archive or an entry of a smaller depth.\<close>

lemma tar_parse_dir_end:
  assumes "parse_at m N st rest" and "rest \<noteq> [] \<longrightarrow> tar_depth m (hd rest) < d"
  shows "\<exists>st'. tar_parse_loop u m parent d n st = Some st' \<and> parse_at m N st' rest \<and>
    ts_entries st' = set_sub parent n (ts_entries st)"
proof (cases rest)
  case Nil
  then have "tar_parse_loop u m parent d n st = Some (set_sub_ents parent n st)"
    using assms(1) parse_at_end by (subst tar_parse_loop.simps) (simp add: Let_def)
  then show ?thesis using assms(1) by simp
next
  case (Cons h hs)
  then obtain st1 where s1: "tar_parse_loop u m parent d n st = tar_parse_loop u m parent d n st1"
    "parse_at m N st1 rest" "ts_i st1 mod 2 \<noteq> 0" "ts_entries st1 = ts_entries st"
    using parse_at_entry assms(1) by blast
  then have "ts_next st1 = h" "m h \<noteq> 0" using Cons by (simp_all add: parse_at_def)
  moreover have "tar_depth m h < d" using assms(2) Cons by simp
  ultimately have "tar_parse_loop u m parent d n st1 = Some (set_sub_ents parent n st1)"
    using s1(3) by (subst tar_parse_loop.simps) (simp add: Let_def order_less_not_sym)
  then show ?thesis using s1 by simp
qed

text \<open>An entry of the directory itself.\<close>

lemma tar_parse_push:
  assumes "parse_at m N st (h # hs)" and "tar_depth m h = d"
  shows "\<exists>st'. tar_parse_loop u m parent d n st = tar_parse_loop u m parent d (n + 1) st' \<and>
    parse_at m N st' hs \<and> ts_entries st' = ts_entries st @ [tar_node u m h]"
proof -
  obtain st1 where s1: "tar_parse_loop u m parent d n st = tar_parse_loop u m parent d n st1"
    "parse_at m N st1 (h # hs)" "ts_i st1 mod 2 \<noteq> 0" "ts_entries st1 = ts_entries st"
    using parse_at_entry assms(1) by blast
  then have h: "ts_next st1 = h" "m h \<noteq> 0" "archive_at m (tar_next m h) hs" by (simp_all add: parse_at_def)
  have N: "N = ts_i st1 - 1 + 2 * word_of_nat (length (h # hs))"
    using s1(2) odd_mod [OF s1(3)] by (simp add: parse_at_def)
  let ?st = "tar_advance m (st1\<lparr>ts_entries := ts_entries st1 @ [tar_node u m h]\<rparr>)"
  have "tar_parse_loop u m parent d n st1 = tar_parse_loop u m parent d (n + 1) ?st"
    using h s1(3) assms(2) by (subst tar_parse_loop.simps) (simp add: Let_def)
  moreover have "(ts_i st1 + 1) mod 2 = 0" using s1(3) odd_succ by blast
  ultimately show ?thesis using s1(1,4) h N
    by (intro exI [of _ ?st]) (simp add: parse_at_def tar_advance_def tar_next_def)
qed

text \<open>An entry below the newest one: the parser recurses.\<close>

lemma tar_parse_descend:
  assumes "parse_at m N st (h # hs)" and "d < tar_depth m h"
  shows "\<exists>st'. tar_parse_loop u m parent d n st =
      Option.bind (tar_parse_loop u m (length (ts_entries st) - 1) (tar_depth m h) 0 st')
        (tar_parse_loop u m parent d n) \<and>
    parse_at m N st' (h # hs) \<and> ts_entries st' = ts_entries st"
proof -
  obtain st1 where s1: "tar_parse_loop u m parent d n st = tar_parse_loop u m parent d n st1"
    "parse_at m N st1 (h # hs)" "ts_i st1 mod 2 \<noteq> 0" "ts_entries st1 = ts_entries st"
    using parse_at_entry assms(1) by blast
  then have h: "ts_next st1 = h" "m h \<noteq> 0" by (simp_all add: parse_at_def)
  have "tar_parse_loop u m parent d n st1 =
      Option.bind (tar_parse_loop u m (length (ts_entries st) - 1) (tar_depth m h) 0 st1)
        (tar_parse_loop u m parent d n)"
    using h s1(3,4) assms(2) by (subst tar_parse_loop.simps) (simp add: Let_def)
  then show ?thesis using s1 by (intro exI [of _ st1]) simp
qed

lemma hd_forest: "ts \<noteq> [] \<Longrightarrow> forest_depth m d ts \<Longrightarrow>
    forest_headers ts \<noteq> [] \<and> tar_depth m (hd (forest_headers ts)) = d"
  by (cases ts rule: forest_headers.cases) auto

lemma tar_parse_loop_forest:
  assumes "parse_at m N st (forest_headers ts @ rest)" and "forest_depth m d ts"
    and "rest \<noteq> [] \<longrightarrow> tar_depth m (hd rest) < d" and "parent < length (ts_entries st)"
  shows "\<exists>st'. tar_parse_loop u m parent d n st = Some st' \<and> parse_at m N st' rest \<and>
    ts_entries st' = set_sub parent (n + word_of_nat (length ts)) (ts_entries st @ forest_nodes u m ts)"
  using assms
proof (induction ts arbitrary: st d rest parent n rule: forest_headers.induct)
  case 1
  then show ?case using tar_parse_dir_end [of m N st rest d u parent n] by simp
next
  case (2 h cs ts)
  let ?es = "ts_entries st" and ?node = "tar_node u m h"
  let ?rest = "forest_headers ts @ rest"
  have ts: "forest_depth m d ts" and h: "tar_depth m h = d" using "2.prems"(2) by simp_all
  obtain st2 where s2: "tar_parse_loop u m parent d n st = tar_parse_loop u m parent d (n + 1) st2"
    "parse_at m N st2 (forest_headers cs @ ?rest)" "ts_entries st2 = ?es @ [?node]"
    using tar_parse_push [of m N st h "forest_headers cs @ ?rest" d u parent n] "2.prems"(1) h by auto
  show ?case
  proof (cases cs)
    case Nil
    from s2 "2.IH"(2) [OF _ ts "2.prems"(3), of st2 parent "n + 1"] Nil "2.prems"(4)
    show ?thesis by (auto simp: add.assoc)
  next
    case (Cons t cs')
    then obtain c ccs where t: "t = FT c ccs" by (cases t) auto
    let ?d = "tar_depth m c"
    have dc: "d < ?d" "forest_depth m ?d cs" using "2.prems"(2) Cons t by simp_all
    obtain st3 where s3: "tar_parse_loop u m parent d (n + 1) st2 =
        Option.bind (tar_parse_loop u m (length (ts_entries st2) - 1) ?d 0 st3)
          (tar_parse_loop u m parent d (n + 1))"
      "parse_at m N st3 (forest_headers cs @ ?rest)" "ts_entries st3 = ts_entries st2"
      using tar_parse_descend [of m N st2 c "forest_headers ccs @ forest_headers cs' @ ?rest" d u parent "n + 1"]
        s2(2) dc(1) Cons t by auto
    have r: "?rest \<noteq> [] \<longrightarrow> tar_depth m (hd ?rest) < ?d"
      using dc(1) "2.prems"(3) hd_forest [OF _ ts] by (cases "ts = []") (auto simp: hd_append)
    have "length ?es < length (ts_entries st3)" using s3(3) s2(3) by simp
    from "2.IH"(1) [OF s3(2) dc(2) r this, of 0] obtain st4 where
      s4: "tar_parse_loop u m (length ?es) ?d 0 st3 = Some st4" "parse_at m N st4 ?rest"
        "ts_entries st4 = set_sub (length ?es) (word_of_nat (length cs)) ((?es @ [?node]) @ forest_nodes u m cs)"
      using s3(3) s2(3) by auto
    have e4: "ts_entries st4 = ?es @ ?node\<lparr>in_sub_ent_num := word_of_nat (length cs)\<rparr> # forest_nodes u m cs"
      unfolding s4(3) by (simp add: set_sub_def nth_append)
    have "parent < length (ts_entries st4)" using "2.prems"(4) by (simp add: e4)
    from "2.IH"(2) [OF s4(2) ts "2.prems"(3) this, of "n + 1"] obtain st5 where
      s5: "tar_parse_loop u m parent d (n + 1) st4 = Some st5" "parse_at m N st5 rest"
        "ts_entries st5 = set_sub parent (n + 1 + word_of_nat (length ts)) (ts_entries st4 @ forest_nodes u m ts)" by blast
    have "tar_parse_loop u m parent d n st = Some st5" using s2(1,3) s3(1) s4(1) s5(1) by simp
    then show ?thesis using s5(2,3) e4 Cons by (simp add: add.assoc)
  qed
qed

lemma forest_nodes_length [simp]: "length (forest_nodes u m ts) = length (forest_headers ts)"
  by (induction ts rule: forest_headers.induct) simp_all

lemma fill_nodes_exact:
  "length es \<le> length old \<Longrightarrow> fill_nodes (rev es) (length es) old = es @ drop (length es) old"
proof (induction es arbitrary: old rule: rev_induct)
  case Nil
  then show ?case by simp
next
  case (snoc e es)
  let ?old = "old[length es := e]"
  have d: "drop (length es) ?old = e # drop (Suc (length es)) old"
    using snoc.prems by (simp add: Cons_nth_drop_Suc [symmetric])
  show ?case
  proof (cases "es = []")
    case True
    then show ?thesis using d by (simp add: Let_def)
  next
    case False
    then show ?thesis using snoc.IH [of ?old] snoc.prems d by (simp add: Let_def)
  qed
qed

text \<open>
  The parser agrees with the tree of the archive. When the headers of an archive are those of a forest
  in preorder, each behind its extended header, the parser returns, its count is one more than the number
  of entries, and its list has the root first and then the entries in preorder, each with the number of
  entries directly below it; only a directory without entries keeps what was in memory before.
\<close>

lemma tar_parse_forest:
  assumes "root_header \<noteq> 0" and "m' = m(root_header := SLASH)"
    and "archive_at m' initrd_addr (forest_headers ts)" and "forest_depth m' 1 ts"
    and "length (forest_headers ts) < 2 ^ 30"
  shows "\<exists>siz. tar_parse u root_header old m initrd_addr =
    Some (1 + word_of_nat (length (forest_headers ts)),
      old\<lparr>in_type := FS_DIR, in_header := root_header, in_sub_ent_num := word_of_nat (length ts)\<rparr> #
        forest_nodes u m' ts, siz, m')"
proof -
  let ?root = "old\<lparr>in_type := FS_DIR, in_header := root_header\<rparr>"
  let ?st = "\<lparr>ts_entries = [?root], ts_next = initrd_addr, ts_i = 2\<rparr>"
  let ?k = "length (forest_headers ts)"
  let ?N = "2 + 2 * word_of_nat ?k :: u32"
  have "parse_at m' ?N ?st (forest_headers ts @ [])" using assms(3) by (simp add: parse_at_def)
  from tar_parse_loop_forest [OF this assms(4), of 0 u 0] obtain st' where
    st': "tar_parse_loop u m' 0 1 0 ?st = Some st'" "parse_at m' ?N st' []"
      "ts_entries st' = set_sub 0 (word_of_nat (length ts)) ([?root] @ forest_nodes u m' ts)" by auto
  have "unat ?N = 2 * (1 + ?k)" using assms(5) by (simp add: unat_word_ariths unat_of_nat take_bit_eq_mod)
  then have "unat (?N div 2) = unat (1 + word_of_nat ?k :: u32)"
    using assms(5) by (simp add: unat_div unat_word_ariths unat_of_nat take_bit_eq_mod)
  then have "?N div 2 = 1 + word_of_nat ?k" by (rule unsigned_word_eqI)
  moreover have "ts_i st' = ?N" using parse_at_end [OF st'(2)] by simp
  ultimately show ?thesis using st'(1,3) assms(1,2)
    by (simp add: tar_parse_def tar_parse_rec_def set_sub_def Let_def)
qed

lemma build_fs_nodes:
  "length (fst (initrd_build_fs ops a ns i m)) = length ns \<and>
    (\<forall>k < length ns. fn_inode (fst (initrd_build_fs ops a ns i m) ! k) = word_of_nat (i + k) \<and>
      fn_type (fst (initrd_build_fs ops a ns i m) ! k) = in_type (ns ! k) \<and>
      fn_size (fst (initrd_build_fs ops a ns i m) ! k) = in_size (ns ! k))"
proof (induction ns arbitrary: i m)
  case Nil
  then show ?case by simp
next
  case (Cons n ns)
  let ?m = "snd (initrd_build_node ops a n i m)"
  have f: "fn_inode (fst (initrd_build_node ops a n i m)) = word_of_nat i"
    "fn_type (fst (initrd_build_node ops a n i m)) = in_type n"
    "fn_size (fst (initrd_build_node ops a n i m)) = in_size n"
    by (simp_all add: initrd_build_node_def Let_def case_prod_unfold)
  have b: "fst (initrd_build_fs ops a (n # ns) i m) =
      fst (initrd_build_node ops a n i m) # fst (initrd_build_fs ops a ns (i + 1) ?m)"
    by (simp add: case_prod_unfold Let_def)
  show ?case unfolding b using Cons.IH [of "i + 1" ?m] f by (auto simp: nth_Cons' less_Suc_eq_0_disj)
qed

text \<open>
  C16. The ram disk that the initialisation builds is the tree of the archive: when the module is an archive
  whose headers are those of a forest in preorder, each behind its extended header, the node array holds
  the root and then the entries of the forest in preorder, each with the number of entries directly below
  it, and the file system nodes carry the position, the type and the size of these entries.
\<close>

theorem initrd_init_tree:
  assumes "root_header \<noteq> 0" and "m' = m(root_header := SLASH)"
    and "archive_at m' initrd_addr (forest_headers ts)" and "forest_depth m' 1 ts"
    and "length (forest_headers ts) < 2 ^ 30" and "length old_nodes = 1 + length (forest_headers ts)"
  shows "\<exists>rd fs m''. initrd_init (0, initrd_addr) root_header rd_fs u ops old old_nodes m =
      Some (0, Some (rd, fs), m'') \<and>
    rd_nodes rd = old\<lparr>in_type := FS_DIR, in_header := root_header, in_sub_ent_num := word_of_nat (length ts)\<rparr> #
      forest_nodes u m' ts \<and>
    rd_entry_num rd = word_of_nat (length (rd_nodes rd)) \<and> length fs = length (rd_nodes rd) \<and>
    (\<forall>i < length fs. fn_inode (fs ! i) = word_of_nat i \<and> fn_type (fs ! i) = in_type (rd_nodes rd ! i) \<and>
      fn_size (fs ! i) = in_size (rd_nodes rd ! i))"
proof -
  let ?es = "old\<lparr>in_type := FS_DIR, in_header := root_header, in_sub_ent_num := word_of_nat (length ts)\<rparr> #
      forest_nodes u m' ts"
  let ?n = "1 + word_of_nat (length (forest_headers ts)) :: u32"
  obtain siz where t: "tar_parse u root_header old m initrd_addr = Some (?n, ?es, siz, m')"
    using tar_parse_forest [OF assms(1-5)] by blast
  have n: "unat ?n = length ?es" using assms(5) by (simp add: unat_word_ariths unat_of_nat take_bit_eq_mod)
  have rd: "initrd_build_tree ?es ?n old_nodes = \<lparr>rd_nodes = ?es, rd_entry_num = ?n\<rparr>"
    unfolding initrd_build_tree_def n using fill_nodes_exact [of ?es old_nodes] assms(6) by simp
  let ?fs = "initrd_build_fs ops rd_fs ?es 0 m'"
  have "initrd_init (0, initrd_addr) root_header rd_fs u ops old old_nodes m =
      Some (0, Some (\<lparr>rd_nodes = ?es, rd_entry_num = ?n\<rparr>, fst ?fs), snd ?fs)"
    using n by (simp add: initrd_init_def t rd case_prod_unfold Let_def del: initrd_build_fs.simps)
  then show ?thesis using build_fs_nodes [of ops rd_fs ?es 0 m'] by auto
qed

text \<open>An archive with a directory \<open>a/\<close> and a file \<open>a/b\<close>, at address 4096.\<close>

definition archive_ab :: mem8 where
  "archive_ab = (\<lambda>_. 0)(4096 := 112, 4608 := 97, 4609 := 47, 5120 := 112, 5632 := 97, 5633 := 47, 5634 := 98)"

definition blank_node :: initrd_node where
  "blank_node = \<lparr>in_header = 0, in_data = 0, in_size = 0, in_sub_ent_num = 0, in_mode = 0, in_uid = 0,
     in_gid = 0, in_type = 0\<rparr>"

theorem initrd_init_tree_witness:
  "\<exists>rd fs m''. initrd_init (0, 4096) 64 8192 0 False blank_node [blank_node, blank_node, blank_node] archive_ab =
    Some (0, Some (rd, fs), m'') \<and> rd_entry_num rd = 3 \<and> length fs = 3"
proof -
  let ?m = "archive_ab(64 := SLASH)" and ?ts = "[FT 4608 [FT 5632 []]]"
  have "archive_at ?m 4096 (forest_headers ?ts)" by code_simp
  moreover have "forest_depth ?m 1 ?ts" by code_simp
  ultimately show ?thesis
    using initrd_init_tree [of 64 ?m archive_ab 4096 ?ts "[blank_node, blank_node, blank_node]" 8192 0 False blank_node]
    by auto
qed

section \<open>Directory streams\<close>

text \<open>
  What the walk of the tree needs: the nodes and the file system nodes are arrays of the same length, the node
  at position \<open>i\<close> has inode \<open>i\<close>, and the numbers of entries are smaller than the length.
\<close>

definition rd_ok :: "initrd \<Rightarrow> fs_node list \<Rightarrow> bool" where
  "rd_ok rd fs \<longleftrightarrow> unat (rd_entry_num rd) = length (rd_nodes rd) \<and> length fs = length (rd_nodes rd) \<and>
     length (rd_nodes rd) < 2 ^ 31 \<and>
     (\<forall>n \<in> set (rd_nodes rd). unat (in_sub_ent_num n) < length (rd_nodes rd)) \<and>
     (\<forall>i < length fs. fn_inode (fs ! i) = word_of_nat i)"

text \<open>An entry of a stream is behind its directory and within the array, and the stream moves on.\<close>

lemma initrd_readdir_some:
  assumes "rd_ok rd fs" and "dir_node dir \<in> set fs" and "initrd_readdir rd dir = Some (ino, dir')"
  shows "unat ino < length fs \<and> unat ino = unat (fn_inode (dir_node dir)) + unat (dir_offset dir) \<and>
    dir_node dir' = dir_node dir \<and> unat (dir_offset dir) < unat (dir_offset dir') \<and>
    unat (dir_offset dir) < length fs"
proof -
  let ?i = "fn_inode (dir_node dir)" and ?o = "dir_offset dir" and ?n = "rd_entry_num rd"
  obtain k where k: "k < length fs" "dir_node dir = fs ! k" using assms(2) by (auto simp: in_set_conv_nth)
  have len: "unat ?n = length fs" "length fs < 2 ^ 31" using assms(1) by (simp_all add: rd_ok_def)
  have i: "unat ?i = k" using assms(1) k len(2) by (simp add: rd_ok_def unat_of_nat take_bit_eq_mod)
  have "unat (?n - ?i - 1) = unat ?n - unat ?i - 1" using i k(1) len
    by (simp add: unat_sub_if' word_le_nat_alt)
  moreover have "\<not> ?o > ?n - ?i - 1" using assms(3) by (auto simp: initrd_readdir_def split: if_splits)
  ultimately have o: "unat ?o \<le> length fs - k - 1" using i len by (simp add: word_less_nat_alt)
  have ino: "ino = ?i + ?o" "dir' = dir\<lparr>dir_offset := ?o + (in_sub_ent_num (rd_nodes rd ! unat ino) + 1)\<rparr>"
    using assms(3) by (auto simp: initrd_readdir_def Let_def split: if_splits)
  have u: "unat ino = k + unat ?o" using o k(1) len(2) i by (simp add: ino(1) unat_word_ariths)
  then have b: "unat ino < length fs" using o k(1) by simp
  then have "unat (in_sub_ent_num (rd_nodes rd ! unat ino)) < length fs" using assms(1) by (simp add: rd_ok_def)
  then have "unat ?o < unat (dir_offset dir')" using o k(1) len(2) by (simp add: ino(2) unat_word_ariths)
  then show ?thesis using b u i o k(1) ino(2) by simp
qed

lemma find_entry_returns:
  assumes "rd_ok rd fs" and "\<forall>d. dir = Some d \<longrightarrow> dir_node d \<in> set fs"
  shows "\<exists>r. find_entry rd fs m name nlen dir = Some r \<and> (\<forall>n. r = Some n \<longrightarrow> n \<in> set fs)"
  using assms(2)
proof (induction "length fs - (case dir of None \<Rightarrow> 0 | Some d \<Rightarrow> unat (dir_offset d))" arbitrary: dir
    rule: less_induct)
  case less
  show ?case
  proof (cases "readdir_fs rd dir")
    case None
    then show ?thesis by (subst find_entry.simps) simp
  next
    case (Some p)
    then obtain d ino d' where d: "dir = Some d" "initrd_readdir rd d = Some (ino, d')" "p = (ino, d')"
      by (cases p) (auto simp: readdir_fs_def split: option.splits if_splits)
    note s = initrd_readdir_some [OF assms(1) _ d(2)]
    have dn: "dir_node d \<in> set fs" using less.prems d(1) by simp
    have f: "find_entry rd fs m name nlen dir =
        (if ent_name_eq m (fs ! unat ino) name nlen then Some (Some (fs ! unat ino))
         else find_entry rd fs m name nlen (Some d'))"
      using Some d(3) by (subst find_entry.simps) simp
    have m: "length fs - unat (dir_offset d') < length fs - unat (dir_offset d)" using s [OF dn] by linarith
    have "\<exists>r. find_entry rd fs m name nlen (Some d') = Some r \<and> (\<forall>n. r = Some n \<longrightarrow> n \<in> set fs)"
      using less.hyps [of "Some d'"] m d(1) s [OF dn] dn by simp
    then show ?thesis unfolding f using s [OF dn] by simp
  qed
qed

lemma component_len_bounds:
  "dlen \<le> component_len m name dlen k \<and> component_len m name dlen k \<le> dlen + k \<and>
    (0 < k \<longrightarrow> dlen < component_len m name dlen k)"
proof (induction k arbitrary: dlen)
  case (Suc k)
  show ?case using Suc.IH [of "Suc dlen"] by auto
qed simp

lemma parse_file_dir_name_bounds:
  "unat (parse_file_dir_name m name len) \<le> unat len \<and> (len \<noteq> 0 \<longrightarrow> parse_file_dir_name m name len \<noteq> 0)"
proof -
  have b: "component_len m name 0 (unat len) \<le> unat len"
    "0 < unat len \<longrightarrow> 0 < component_len m name 0 (unat len)"
    using component_len_bounds [of 0 m name "unat len"] by simp_all
  have u: "unat (parse_file_dir_name m name len) = component_len m name 0 (unat len)"
    using b(1) unat_u32_lt [of len] by (simp add: parse_file_dir_name_def unat_of_nat take_bit_eq_mod)
  show ?thesis using b u unat_gt_0 [of len] unat_gt_0 [of "parse_file_dir_name m name len"] by simp
qed

lemma get_node_loop_returns:
  assumes "rd_ok rd fs" and "\<forall>n. root = Some n \<longrightarrow> n \<in> set fs"
  shows "\<exists>r. get_node_loop rd fs m name len root = Some r \<and> (\<forall>n. r = Some n \<longrightarrow> n \<in> set fs)"
  using assms(2)
proof (induction "unat len" arbitrary: name len root rule: less_induct)
  case less
  let ?c = "parse_file_dir_name m name len"
  show ?case
  proof (cases "?c = 0 \<or> root = None")
    case True
    then show ?thesis using less.prems by (subst get_node_loop.simps) (auto simp: Let_def)
  next
    case False
    have "\<forall>d. opendir_fs rd root = Some d \<longrightarrow> dir_node d \<in> set fs"
      using less.prems by (auto simp: opendir_fs_def initrd_opendir_def split: option.splits if_splits)
    from find_entry_returns [OF assms(1) this, of m name ?c] obtain r where
      r: "find_entry rd fs m name ?c (opendir_fs rd root) = Some r" "\<forall>n. r = Some n \<longrightarrow> n \<in> set fs" by blast
    have "unat (len - ?c) < unat len"
      using parse_file_dir_name_bounds [of m name len] False unat_gt_0 [of ?c] by (simp add: unat_sub_if')
    then have "\<exists>r'. get_node_loop rd fs m (name + ?c) (len - ?c) r = Some r' \<and>
        (\<forall>n. r' = Some n \<longrightarrow> n \<in> set fs)"
      using less.hyps r(2) by blast
    then show ?thesis using False r(1) by (subst get_node_loop.simps) (simp add: Let_def)
  qed
qed

text \<open>
  A path lookup returns: on a ram disk whose arrays agree and whose entry numbers are within the
  array, the search through the directories of a path ends, for every path and start node, and gives \<open>NULL\<close>
  or one of the nodes of the ram disk.
\<close>

lemma initrd_get_node_returns:
  assumes "rd_ok rd fs" and "root \<in> set fs"
  shows "\<exists>r. initrd_get_node rd fs m (Some root) name = Some r \<and> (\<forall>n. r = Some n \<longrightarrow> n \<in> set fs)"
  using get_node_loop_returns [OF assms(1), of "Some root"] assms(2) by (simp add: initrd_get_node_def)

text \<open>
  A ram disk with a directory \<open>usr\<close>, a directory \<open>bin\<close> below it and a file \<open>sh\<close> below that, the names at 256, 512
  and 768 and the paths \<open>/us\<close>, \<open>/sh\<close> and \<open>/usr/bin/sh\<close> at 1024, 1040 and 1056.
\<close>

definition usr_bytes :: mem8 where
  "usr_bytes = (\<lambda>_. 0)(256 := 117, 257 := 115, 258 := 114, 512 := 98, 513 := 105, 514 := 110, 768 := 115, 769 := 104,
     1024 := 47, 1025 := 117, 1026 := 115, 1040 := 47, 1041 := 115, 1042 := 104,
     1056 := 47, 1057 := 117, 1058 := 115, 1059 := 114, 1060 := 47, 1061 := 98, 1062 := 105, 1063 := 110, 1064 := 47,
     1065 := 115, 1066 := 104)"

definition usr_rd :: initrd where
  "usr_rd = \<lparr>rd_nodes = map (\<lambda>n. blank_node\<lparr>in_sub_ent_num := n\<rparr>) [1, 1, 1, 0], rd_entry_num = 4\<rparr>"

definition usr_node :: "u32 \<Rightarrow> u32 \<Rightarrow> u32 \<Rightarrow> fs_node" where
  "usr_node ino name type = \<lparr>fn_name = name, fn_inode = ino, fn_mode = 0, fn_uid = 0, fn_gid = 0, fn_type = type,
     fn_size = 0, fn_readdir = (type = FS_DIR), fn_dirops = (type = FS_DIR)\<rparr>"

definition usr_fs :: "fs_node list" where
  "usr_fs = [usr_node 0 128 FS_DIR, usr_node 1 256 FS_DIR, usr_node 2 512 FS_DIR, usr_node 3 768 FS_FILE]"

lemma usr_rd_ok: "rd_ok usr_rd usr_fs"
  by (simp add: rd_ok_def usr_rd_def usr_fs_def usr_node_def blank_node_def less_Suc_eq)

text \<open>The full path finds the file.\<close>

lemma lookup_full_path: "root_get_node_fs usr_rd usr_fs usr_bytes 1056 = Some (Some (usr_node 3 768 FS_FILE))"
  by code_simp

text \<open>
  But a component of a path matches every name it is a prefix of: \<open>/us\<close> finds \<open>usr\<close>.
\<close>

theorem lookup_prefix: "root_get_node_fs usr_rd usr_fs usr_bytes 1024 = Some (Some (usr_node 1 256 FS_DIR))"
  by code_simp

text \<open>
  And a stream skips only as many nodes as an entry has direct entries, so that it lists nodes of deeper
  directories: \<open>/sh\<close> finds \<open>usr/bin/sh\<close>.
\<close>

theorem lookup_grandchild: "root_get_node_fs usr_rd usr_fs usr_bytes 1040 = Some (Some (usr_node 3 768 FS_FILE))"
  by code_simp

text \<open>
  The slot that \<open>readdir\<close> fills is numbered by the offset, which starts at 1: with one entry in the directory
  the first slot used is already behind the allocated ones.
\<close>

theorem readdir_slot_overflow:
  assumes "in_sub_ent_num (rd_nodes rd ! unat (fn_inode node)) \<le> 1"
  shows "\<not> dir_offset (initrd_opendir rd node) < dir_slots (initrd_opendir rd node)"
  using assms by (simp add: initrd_opendir_def)

end
