(* ===== verification/Address_Spaces.thy ===== *)
theory Address_Spaces
  imports Paging Initrd
begin

text \<open>
  Mapping memory, \<open>src/mem/mmap.c\<close>, and copying page directories, the rest of \<open>src/mem/paging.c\<close>: virtual
  addresses come from a buddy allocator, page tables from \<open>Paging\<close>, frames from the frame allocator.

  A buddy allocator shares the heap and the slab caches with the paging state: it is used with the memory
  state of the latter, which gets back what it leaves. Arrays of the caller for virtual addresses are
  functions from the index.
\<close>

section \<open>Mapping\<close>

text \<open>A call of the buddy allocator \<open>b\<close>.\<close>

definition with_buddy ::
  "('w buddy_state \<Rightarrow> fault + 'r \<times> 'w buddy_state) \<Rightarrow> 'w buddy_state \<Rightarrow> 'w paging_state \<Rightarrow>
     fault + 'r \<times> 'w buddy_state \<times> 'w paging_state" where
  "with_buddy f b s =
     bindE (f (b\<lparr>bd_mem := pg_mem s\<rparr>)) (\<lambda>(r, b). Inr (r, b, s\<lparr>pg_mem := bd_mem b\<rparr>))"

text \<open>
  \<open>pt\<close> is what was in the local variable before; the array of virtual addresses is not \<open>NULL\<close>. The result is the code, the address of the first entry of the
  page table, and the virtual addresses.
\<close>

definition knmmap_table ::
  "'w page_ops \<Rightarrow> u32 \<Rightarrow> u32 \<Rightarrow> u32 \<Rightarrow> u16 \<Rightarrow> (nat \<Rightarrow> u32) \<Rightarrow> 'w buddy_state \<Rightarrow> 'w paging_state \<Rightarrow>
     fault + int \<times> u32 \<times> (nat \<Rightarrow> u32) \<times> 'w buddy_state \<times> 'w paging_state" where
  "knmmap_table ops pt pd page_num flags virt_addr b s =
     (let pt_num = div_align_up page_num PT_SIZE in
      bindE (with_buddy (\<lambda>b. bindE (buddy_alloc_frames (mem_ops.truncate ops) 1 page_num b)
               (\<lambda>(ret, out, b). Inr ((ret, out), b))) b s) (\<lambda>((ret, out), b, s).
        let virt_addr = foldl (\<lambda>v (i, a). v(i := a)) virt_addr out in
        if ret \<noteq> 0 then Inr (ret, pt, virt_addr, b, s)
        else
          let (pde, pte) = get_pde_pte (virt_addr 0) in
          bindE (map_alloc_npt ops pd pt_num pde flags (\<lambda>_. pt) s) (\<lambda>(ret, pts, s).
            Inr (ret, if ret \<noteq> 0 then pt else pts 0 + 4 * ucast pte, virt_addr, b, s))))"

definition knmmap ::
  "'w page_ops \<Rightarrow> u32 \<Rightarrow> u32 \<Rightarrow> u32 \<Rightarrow> u32 \<Rightarrow> u16 \<Rightarrow> (nat \<Rightarrow> u32) \<Rightarrow> 'w buddy_state \<Rightarrow> 'w paging_state \<Rightarrow>
     fault + int \<times> (nat \<Rightarrow> u32) \<times> 'w buddy_state \<times> 'w paging_state" where
  "knmmap ops uninit pd phys_addr page_num flags virt_addr b s =
     bindE (knmmap_table ops uninit pd page_num flags virt_addr b s) (\<lambda>(ret, pt, virt_addr, b, s).
       if ret \<noteq> 0 then Inr (ret, virt_addr, b, s)
       else bindE
         (if phys_addr \<noteq> 0 then Inr (alloc_nframes page_num phys_addr pt flags (pg_frames s))
          else case find_alloc_nframes page_num pt flags (pg_frames s) of None \<Rightarrow> Inl Diverges | Some r \<Rightarrow> Inr r)
         (\<lambda>(ret, out, f).
           let s = set_elems pt out (s\<lparr>pg_frames := f\<rparr>) in
           if ret \<noteq> 0 then Inr (ret, virt_addr, b, s)
           else Inr (ret, virt_addr, b, flush_pages_contiguous (virt_addr 0) page_num s)))"

definition kmmap ::
  "'w page_ops \<Rightarrow> u32 \<Rightarrow> u32 \<Rightarrow> u32 \<Rightarrow> u16 \<Rightarrow> (nat \<Rightarrow> u32) \<Rightarrow> 'w buddy_state \<Rightarrow> 'w paging_state \<Rightarrow>
     fault + int \<times> (nat \<Rightarrow> u32) \<times> 'w buddy_state \<times> 'w paging_state" where
  "kmmap ops uninit pd phys_addr flags virt_addr b s = knmmap ops uninit pd phys_addr 1 flags virt_addr b s"

text \<open>A file of the ram disk is mapped in the current directory; the third value is the offset of the data.\<close>

definition kfsmmap ::
  "'w page_ops \<Rightarrow> initrd \<Rightarrow> fs_node option \<Rightarrow> u16 \<Rightarrow> (nat \<Rightarrow> u32) \<Rightarrow> u32 \<Rightarrow> 'w buddy_state \<Rightarrow> 'w paging_state \<Rightarrow>
     fault + int \<times> (nat \<Rightarrow> u32) \<times> u32 \<times> 'w buddy_state \<times> 'w paging_state" where
  "kfsmmap ops rd node flags virt_addr off b s =
     (case node of
        None \<Rightarrow> Inr (- 1, virt_addr, off, b, s)
      | Some n \<Rightarrow>
          let npages = div_page_align_up (fn_size n) in
          bindE (knmmap_table ops 0 (pg_cur_pd s) npages flags virt_addr b s) (\<lambda>(ret, pt, virt_addr, b, s).
            if ret \<noteq> 0 then Inr (ret, virt_addr, off, b, s)
            else
              let (off, out) = mmap_fs (\<lambda>a. to_phys_addr (pg_cur_pd s) a s) rd node npages flags;
                  s = set_elems pt out s
              in Inr (ret, virt_addr, off, b, flush_pages_contiguous (virt_addr 0) npages s)))"

definition knmunmap_contiguous ::
  "'w page_ops \<Rightarrow> u32 \<Rightarrow> u32 \<Rightarrow> u32 \<Rightarrow> 'w buddy_state \<Rightarrow> 'w paging_state \<Rightarrow>
     fault + 'w buddy_state \<times> 'w paging_state" where
  "knmunmap_contiguous ops pd virt_addr page_num b s =
     bindE (with_buddy (\<lambda>b. bindE (buddy_free_frames (mem_ops.truncate ops) virt_addr page_num b) (\<lambda>b. Inr ((), b))) b s)
       (\<lambda>(_, b, s).
         let (pde, pte) = get_pde_pte virt_addr in
         bindE (unmap_pages pd pde pte page_num s) (\<lambda>s.
           let s = s\<lparr>pg_frames := dealloc_nframes virt_addr page_num (pg_frames s)\<rparr>
           in Inr (b, flush_pages_contiguous virt_addr page_num s)))"

text \<open>\<open>munmap_fs\<close> reaches only an empty function of the ram disk.\<close>

definition kfsmunmap ::
  "'w page_ops \<Rightarrow> u32 \<Rightarrow> fs_node \<Rightarrow> u32 \<Rightarrow> 'w buddy_state \<Rightarrow> 'w paging_state \<Rightarrow>
     fault + 'w buddy_state \<times> 'w paging_state" where
  "kfsmunmap ops pd node virt_addr b s =
     (let page_num = div_page_align_up (fn_size node) in
      bindE (with_buddy (\<lambda>b. bindE (buddy_free_frames (mem_ops.truncate ops) virt_addr page_num b) (\<lambda>b. Inr ((), b))) b s)
        (\<lambda>(_, b, s).
          let (pde, pte) = get_pde_pte virt_addr in
          bindE (unmap_pages pd pde pte page_num s) (\<lambda>s.
            Inr (b, flush_pages_contiguous virt_addr page_num s))))"

definition kmunmap ::
  "'w page_ops \<Rightarrow> u32 \<Rightarrow> u32 \<Rightarrow> 'w buddy_state \<Rightarrow> 'w paging_state \<Rightarrow> fault + 'w buddy_state \<times> 'w paging_state" where
  "kmunmap ops pd virt_addr b s = knmunmap_contiguous ops pd virt_addr 1 b s"

fun map_pages_loop ::
  "('w, 'x) page_ops_scheme \<Rightarrow> u32 \<Rightarrow> u16 \<Rightarrow> u16 \<Rightarrow> u32 \<Rightarrow> nat list \<Rightarrow> 'w paging_state \<Rightarrow> fault + int \<times> 'w paging_state" where
  "map_pages_loop ops uninit pde pte npages [] s = Inr (0, s)"
| "map_pages_loop ops uninit pde pte npages (i # is) s =
     (if ucast pde + word_of_nat i \<ge> PT_SIZE then Inr (ENOMEM, s)
      else bindE (map_alloc_pt ops (pg_cur_pd s) (pde + word_of_nat i) (ucast (R_W OR PRESENT)) uninit s) (\<lambda>(ret, pt, s).
        if ret \<noteq> 0 then Inr (ret, s)
        else case find_alloc_nframes npages (pt + 4 * ucast pte) (ucast (R_W OR PRESENT)) (pg_frames s) of
          None \<Rightarrow> Inl Diverges
        | Some (ret, out, f) \<Rightarrow>
            let s = set_elems (pt + 4 * ucast pte) out (s\<lparr>pg_frames := f\<rparr>) in
            if ret \<noteq> 0 then Inr (ret, s)
            else map_pages_loop ops uninit pde pte npages is (flush_pages (pt + 4 * ucast pte) npages s)))"

definition map_pages ::
  "('w, 'x) page_ops_scheme \<Rightarrow> u32 \<Rightarrow> u16 \<Rightarrow> u16 \<Rightarrow> u32 \<Rightarrow> 'w paging_state \<Rightarrow> fault + int \<times> 'w paging_state" where
  "map_pages ops uninit pde pte npages s =
     (if pte \<noteq> 0 then Inr (EINVAL, s)
      else map_pages_loop ops uninit pde pte npages [0..<unat (div_align_up npages PT_SIZE)] s)"

definition mmap_pages ::
  "('w, 'x) page_ops_scheme \<Rightarrow> u32 \<Rightarrow> u32 \<Rightarrow> u32 \<Rightarrow> 'w paging_state \<Rightarrow> fault + int \<times> 'w paging_state" where
  "mmap_pages ops uninit addr npages s =
     (let (pde, pte) = get_pde_pte addr in map_pages ops uninit pde pte npages s)"

definition mmap_page ::
  "('w, 'x) page_ops_scheme \<Rightarrow> u32 \<Rightarrow> u32 \<Rightarrow> 'w paging_state \<Rightarrow> fault + int \<times> 'w paging_state" where
  "mmap_page ops uninit addr s =
     (let (pde, pte) = get_pde_pte addr in map_pages ops uninit pde pte 1 s)"

text \<open>The buddy allocator of the kernel; \<open>b\<close> is what is in its memory before, the second value the pointer.\<close>

definition kmmap_init ::
  "'w page_ops \<Rightarrow> 'w buddy_state \<Rightarrow> 'w paging_state \<Rightarrow> fault + int \<times> u32 \<times> 'w buddy_state \<times> 'w paging_state" where
  "kmmap_init ops b s =
     bindE (with_buddy (buddy_alloc_create (mem_ops.truncate ops) 0xD0000000 0xFFFFFFFF) b s)
       (\<lambda>(kern_buddy, b, s). Inr (0, kern_buddy, b, s))"

section \<open>Copying a directory\<close>

text \<open>
  A page is copied through a temporary mapping of the destination; both addresses are translated by the
  current directory.
\<close>

definition copy_page ::
  "'w page_ops \<Rightarrow> u32 \<Rightarrow> u32 \<Rightarrow> u32 \<Rightarrow> u32 \<Rightarrow> 'w buddy_state \<Rightarrow> 'w paging_state \<Rightarrow>
     fault + int \<times> 'w buddy_state \<times> 'w paging_state" where
  "copy_page ops uninit pd dest_phys src_virt b s =
     bindE (kmmap ops uninit pd dest_phys (ucast (R_W OR PRESENT)) (\<lambda>_. uninit) b s) (\<lambda>(ret, v, b, s).
       if ret \<noteq> 0 then Inr (1, b, s)
       else
         let dst = to_phys_addr (pg_cur_pd s) (v 0) s;
             src = to_phys_addr (pg_cur_pd s) src_virt s;
             s = s\<lparr>pg_page := (pg_page s)(dst := pg_page s src)\<rparr>
         in bindE (knmunmap_contiguous ops pd (v 0) 1 b s) (\<lambda>(b, s). Inr (0, b, s)))"

fun clone_entries ::
  "'w page_ops \<Rightarrow> u32 \<Rightarrow> u32 \<Rightarrow> u16 \<Rightarrow> u32 \<Rightarrow> u32 \<Rightarrow> nat list \<Rightarrow> 'w buddy_state \<Rightarrow> 'w paging_state \<Rightarrow>
     fault + int \<times> 'w buddy_state \<times> 'w paging_state" where
  "clone_entries ops uninit pd pde pt new_pt [] b s = Inr (0, b, s)"
| "clone_entries ops uninit pd pde pt new_pt (i # is) b s =
     (let e = elem pt (word_of_nat i) s; flags = get_tab_flags e in
      if e AND USER \<noteq> 0 \<and> e AND PRESENT \<noteq> 0
      then bindE (find_alloc_frame_at (new_pt + 4 * word_of_nat i) (ucast flags) s) (\<lambda>(ret, s).
        if ret \<noteq> 0 then Inr (ENOMEM, b, s)
        else bindE (copy_page ops uninit pd (get_tab_pure_addr (elem new_pt (word_of_nat i) s))
                      (get_virt_addr pde (word_of_nat i)) b s) (\<lambda>(ret, b, s).
          if ret \<noteq> 0 then Inr (1, b, s) else clone_entries ops uninit pd pde pt new_pt is b s))
      else clone_entries ops uninit pd pde pt new_pt is b (set_elem new_pt (word_of_nat i) e s))"

text \<open>The code, the virtual and the physical address of the new table.\<close>

definition clone_page_table ::
  "'w page_ops \<Rightarrow> u32 \<Rightarrow> u32 \<Rightarrow> u16 \<Rightarrow> 'w buddy_state \<Rightarrow> 'w paging_state \<Rightarrow>
     fault + int \<times> u32 \<times> u32 \<times> 'w buddy_state \<times> 'w paging_state" where
  "clone_page_table ops uninit pd pde b s =
     (let pt = pt_virt pd s (ucast pde) in
      bindE (mo_slab_alloc ops (pg_slab_cache s) (pg_mem s)) (\<lambda>(new_pt, w).
        let s = s\<lparr>pg_mem := w\<rparr>; new_pt_phys_addr = ptr_to_phys_addr pd new_pt s in
        if new_pt = 0 then Inr (EINVAL, new_pt, new_pt_phys_addr, b, s)
        else bindE (clone_entries ops uninit pd pde pt new_pt [0..<1024] b s) (\<lambda>(ret, b, s).
          Inr (ret, new_pt, new_pt_phys_addr, b, s))))"

definition free_pd :: "('w, 'x) page_ops_scheme \<Rightarrow> u32 \<Rightarrow> 'w paging_state \<Rightarrow> fault + 'w paging_state" where
  "free_pd ops pd s =
     (if pd = 0 then Inr s
      else bindE (mo_slab_free ops (pg_slab_cache s) (page_tables (pg_pd s pd)) (pg_mem s)) (\<lambda>w.
        bindE (mo_slab_free ops (pg_slab_cache s) (page_tables_virt (pg_pd s pd)) w) (\<lambda>w.
          bindE (mo_kfree ops pd w) (\<lambda>w. Inr (s\<lparr>pg_mem := w\<rparr>)))))"

fun clone_tables ::
  "'w page_ops \<Rightarrow> u32 \<Rightarrow> u32 \<Rightarrow> u32 \<Rightarrow> nat list \<Rightarrow> 'w buddy_state \<Rightarrow> 'w paging_state \<Rightarrow>
     fault + int \<times> 'w buddy_state \<times> 'w paging_state" where
  "clone_tables ops uninit pd new_pd [] b s = Inr (0, b, s)"
| "clone_tables ops uninit pd new_pd (i # is) b s =
     (let i' = word_of_nat i;
          s = (if pt_entry pd s i' AND ACCESSED \<noteq> 0 then set_pt_entry pd i' (pt_entry pd s i' AND NOT ACCESSED) s else s)
      in if pt_entry pd s i' AND USER \<noteq> 0 \<and> tab_present (pt_entry pd s i')
         then bindE (clone_page_table ops uninit pd (word_of_nat i) b s) (\<lambda>(ret, new_pt, new_pt_paddr, b, s).
           if ret \<noteq> 0 then Inr (ret, b, s)
           else clone_tables ops uninit pd new_pd is b
                  (set_pt_virt new_pd i' new_pt (set_pt_entry new_pd i' new_pt_paddr s)))
         else let s = set_pt_virt new_pd i' (pt_virt pd s i') s
              in clone_tables ops uninit pd new_pd is b (set_pt_entry new_pd i' (pt_entry pd s i') s))"

definition clone_page_dir ::
  "'w page_ops \<Rightarrow> u32 \<Rightarrow> u32 \<Rightarrow> u32 \<Rightarrow> 'w buddy_state \<Rightarrow> 'w paging_state \<Rightarrow>
     fault + int \<times> 'w buddy_state \<times> 'w paging_state" where
  "clone_page_dir ops uninit pd new_pd b s =
     (if new_pd = 0 then Inr (EINVAL, b, s)
      else bindE (po_kmalloc_align ops PAGE_SIZE PAGE_SIZE (pg_mem s)) (\<lambda>(pts, w).
        let s = s\<lparr>pg_mem := w, pg_pd := (pg_pd s)(new_pd := (pg_pd s new_pd)\<lparr>page_tables := pts\<rparr>)\<rparr>;
            ptables_phys = ptr_to_phys_addr pd pts s
        in bindE (mo_kmalloc ops PAGE_SIZE (pg_mem s)) (\<lambda>(vs, w).
          let s = s\<lparr>pg_mem := w, pg_pd := (pg_pd s)(new_pd := (pg_pd s new_pd)\<lparr>page_tables_virt := vs\<rparr>)\<rparr> in
          if pts = 0 \<or> vs = 0 then Inr (ENOMEM, b, s)
          else
            let s = s\<lparr>pg_pd := (pg_pd s)(new_pd := (pg_pd s new_pd)\<lparr>pd_phys_addr := ptables_phys\<rparr>)\<rparr>
            in if pd = 0 then Inl NullDeref else clone_tables ops uninit pd new_pd [0..<1024] b s)))"

definition clone_cur_page_dir ::
  "'w page_ops \<Rightarrow> u32 \<Rightarrow> u32 \<Rightarrow> 'w buddy_state \<Rightarrow> 'w paging_state \<Rightarrow>
     fault + int \<times> 'w buddy_state \<times> 'w paging_state" where
  "clone_cur_page_dir ops uninit new_pd b s = clone_page_dir ops uninit (pg_cur_pd s) new_pd b s"

section \<open>A mapping of one page\<close>

lemma ucast_u16_u32 [simp]: "(ucast (ucast (w :: u16) :: u32) :: u16) = w"
  by (rule bit_eqI) (auto simp: bit_ucast_iff dest: bit_imp_le_length)

lemma flush_contiguous_one [simp]: "flush_pages_contiguous v 1 s = flush_page v s"
  by (simp add: flush_pages_contiguous_def)

lemma flush_page_simps [simp]:
  "pg_word (flush_page a s) = pg_word s" "pg_pd (flush_page a s) = pg_pd s" "pg_frames (flush_page a s) = pg_frames s"
  "pg_flushed (flush_page a s) = pg_flushed s @ [a]"
  by (simp_all add: flush_page_def)

lemma set_elem_flushed [simp]: "pg_flushed (set_elem a i v s) = pg_flushed s"
  by (simp add: set_elem_def)

text \<open>\<open>map_alloc_npt\<close> for one table that is present only changes the flags of its entry.\<close>

lemma map_alloc_present:
  assumes "pd \<noteq> 0" and "unat pde < 1024" and "pt_present pd pde s"
    and "page_tables (pg_pd s pd) + 4 * ucast pde \<noteq> page_tables_virt (pg_pd s pd) + 4 * ucast pde"
  shows "\<exists>pt' e. map_alloc_npt ops pd 1 pde flags pt s = Inr (0, pt', set_pt_entry pd (ucast pde) e s) \<and>
    pt' 0 = pt_virt pd s (ucast pde)"
proof -
  have pde: "\<not> ucast pde > PT_SIZE" "ucast pde \<noteq> PT_SIZE"
    using assms(2) by (auto simp: word_less_nat_alt unat_simps dest: arg_cong [of _ _ unat])
  let ?e = "pt_entry pd s (ucast pde)"
  define x where "x = (if ?e AND ACCESSED \<noteq> 0 then ?e AND NOT ACCESSED else ?e)"
  define s1 where "s1 = (if ?e AND ACCESSED \<noteq> 0 then set_pt_entry pd (ucast pde) (?e AND NOT ACCESSED) s else s)"
  have s1: "s1 = set_pt_entry pd (ucast pde) x s"
    by (simp add: s1_def x_def set_pt_entry_def pt_entry_def elem_def set_elem_def)
  have e1: "pt_entry pd s1 (ucast pde) = x" by (simp add: s1 set_pt_entry_def pt_entry_def elem_def)
  have "bit (NOT ACCESSED) 0" by (simp add: bit_not_iff bit_0)
  then have "tab_present x" using assms(3) by (simp add: x_def pt_present_def tab_present_bit bit_and_iff)
  then have "map_alloc_npt ops pd 1 pde flags pt s =
      Inr (0, pt(0 := pt_virt pd (set_pt_entry pd (ucast pde) (x OR ucast flags) s1) (ucast pde)),
        set_pt_entry pd (ucast pde) (x OR ucast flags) s1)"
    using assms(1) pde e1 by (simp add: map_alloc_npt_def Let_def flip: s1_def)
  moreover have "set_pt_entry pd (ucast pde) (x OR ucast flags) s1 = set_pt_entry pd (ucast pde) (x OR ucast flags) s"
    by (simp add: s1 set_pt_entry_def set_elem_def)
  moreover have "pt_virt pd (set_pt_entry pd (ucast pde) y s) (ucast pde) = pt_virt pd s (ucast pde)" for y
    using assms(4) by (simp add: set_pt_entry_def pt_virt_def elem_def)
  ultimately show ?thesis by auto
qed

lemma page_number:
  assumes "(phys :: u32) AND 0xFFF = 0"
  shows "word_of_nat (4096 * (unat phys div 4096)) = phys"
proof -
  have "unat phys mod 4096 = 0" using assms unat_and_FFF [of phys] by simp
  then have "4096 * (unat phys div 4096) = unat phys" using mult_div_mod_eq [of 4096 "unat phys"] by linarith
  then show ?thesis by (simp only: of_nat_unat ucast_id)
qed

lemma alloc_nframes_one:
  assumes "p \<noteq> 0" and "phys AND 0xFFF = 0"
  shows "\<exists>f'. alloc_nframes 1 phys p flags f = (0, [page_entry flags (unat phys div 4096)], f') \<and>
    unat phys div 4096 \<in> used_frames f'"
proof -
  have "phys OR ucast flags = page_entry flags (unat phys div 4096)"
    unfolding page_entry_def page_number [OF assms(2)] by simp
  then show ?thesis using alloc_frame_one [OF assms(1), of phys "ucast flags" f] by (auto simp: alloc_frame_def)
qed

text \<open>
  C17. \<open>kmmap\<close> maps a page of physical memory: when the buddy allocator gives the address \<open>v\<close>, whose page table is
  present, then after the call \<open>v\<close> is translated to the given physical address, its frame is marked as used,
  and the translation of \<open>v\<close> has been flushed.
\<close>

theorem kmmap_translates:
  assumes "pd \<noteq> 0" and "phys \<noteq> 0" and "phys AND 0xFFF = 0" and "flags < 4096"
    and "buddy_alloc_frames (mem_ops.truncate ops) 1 1 (b\<lparr>bd_mem := pg_mem s\<rparr>) = Inr (0, [(0, v)], b')"
    and "get_pde_pte v = (pde, pte)" and "pt_present pd pde s"
    and "T = page_tables (pg_pd s pd) + 4 * ucast pde" and "V = page_tables_virt (pg_pd s pd) + 4 * ucast pde"
    and "e = pt_virt pd s (ucast pde) + 4 * ucast pte"
    and "T \<noteq> V" and "e \<noteq> T" and "e \<noteq> V" and "e \<noteq> 0" and "pt_virt pd s (ucast pde) \<noteq> 0"
  shows "\<exists>s'. kmmap ops uninit pd phys flags va b s = Inr (0, va(0 := v), b', s') \<and>
    to_phys_addr pd v s' = phys + (v AND 0xFFF) \<and> unat phys div 4096 \<in> used_frames (pg_frames s') \<and>
    pg_flushed s' = pg_flushed s @ [v]"
proof -
  let ?s = "s\<lparr>pg_mem := bd_mem b'\<rparr>"
  have pv: "pt_virt pd ?s x = pt_virt pd s x" for x by (simp add: pt_virt_def elem_def)
  have "unat pde < 1024"
    using get_pde_pte_unat(1) [of v] assms(6) unat_u32_lt [of v] by (simp add: less_mult_imp_div_less)
  moreover have "pt_present pd pde ?s" using assms(7) by (simp add: pt_present_def pt_entry_def elem_def)
  ultimately obtain pt' x where m: "map_alloc_npt ops pd 1 pde flags (\<lambda>_. uninit) ?s =
      Inr (0, pt', set_pt_entry pd (ucast pde) x ?s)" "pt' 0 = pt_virt pd s (ucast pde)"
    using map_alloc_present [of pd pde ?s ops flags "\<lambda>_. uninit"] assms(1,8,9,11) pv by auto
  have one: "div_align_up 1 PT_SIZE = 1" by (simp add: div_align_up_def)
  define s1 where "s1 = set_pt_entry pd (ucast pde) x ?s"
  have t: "knmmap_table ops uninit pd 1 flags va b s = Inr (0, e, va(0 := v), b', s1)"
    using assms(5,6,10) m by (simp add: knmmap_table_def with_buddy_def one s1_def)
  have s1: "pg_word s1 = (pg_word s)(T := x)" "pg_pd s1 = pg_pd s" "pg_flushed s1 = pg_flushed s"
    using assms(8) by (simp_all add: s1_def set_pt_entry_def set_elem_def)
  obtain f' where f: "alloc_nframes 1 phys e flags (pg_frames s1) = (0, [page_entry flags (unat phys div 4096)], f')"
    "unat phys div 4096 \<in> used_frames f'"
    using alloc_nframes_one [OF assms(14,3)] by blast
  define s2 where "s2 = flush_page v (set_elem e 0 (page_entry flags (unat phys div 4096)) (s1\<lparr>pg_frames := f'\<rparr>))"
  have k: "kmmap ops uninit pd phys flags va b s = Inr (0, va(0 := v), b', s2)"
    using assms(2) f(1) by (simp add: kmmap_def knmmap_def t s2_def)
  have w: "pg_word s2 = (pg_word s)(T := x, e := page_entry flags (unat phys div 4096))" "pg_pd s2 = pg_pd s"
    using s1 by (simp_all add: s2_def)
  have "pt_virt pd s2 (ucast pde) = pt_virt pd s (ucast pde)"
    using w assms(9,11,13) by (simp add: pt_virt_def elem_def)
  moreover have "word_of_nat (4096 * (unat phys div 4096)) = phys"
    by (rule page_number [OF assms(3)])
  ultimately have "to_phys_addr pd v s2 = phys + (v AND 0xFFF)"
    using assms(1,6,15) w assms(10) pure_addr_entry [OF assms(4), of "unat phys div 4096"]
    by (simp add: to_phys_addr_def elem_def)
  then show ?thesis using k f(2) s1(3) by (intro exI [of _ s2]) (simp add: s2_def)
qed

text \<open>A buddy allocator with one free page, at 0x5000.\<close>

definition one_page_buddy :: "u32 buddy_state" where
  "one_page_buddy = \<lparr>bd_mem_size = 0x1000, bd_mem_start = 0x5000, bd_fl_slab = 0, bd_maps_ptr = 0, bd_data_ptr = 0,
     bd_area_ptr = 0, bd_maps = (\<lambda>_. 0), bd_data = (\<lambda>_. 0), bd_head = (\<lambda>_. 0)(0 := 32), bd_num = (\<lambda>_. 0)(0 := 1),
     bd_next = (\<lambda>_. 0), bd_addr = (\<lambda>_. 0x5000), bd_mem = 0x4000\<rparr>"

theorem kmmap_translates_witness:
  "\<exists>b' s'. kmmap bump_ops 0 64 0x200000 3 (\<lambda>_. 0) one_page_buddy bump_paging = Inr (0, (\<lambda>_. 0)(0 := 0x5000), b', s') \<and>
    to_phys_addr 64 0x5000 s' = 0x200000"
proof -
  have "\<exists>b'. buddy_alloc_frames (mem_ops.truncate bump_ops) 1 1 (one_page_buddy\<lparr>bd_mem := pg_mem bump_paging\<rparr>) =
      Inr (0, [(0, 0x5000)], b')"
    by (simp add: buddy_alloc_frames_def buddy_alloc_frames_max_order_def get_buddy_order_def upt_rec
        remove_free_head_def one_page_buddy_def bump_ops_def mem_ops.truncate_def Let_def order_pages_def)
  then obtain b' where b': "buddy_alloc_frames (mem_ops.truncate bump_ops) 1 1
      (one_page_buddy\<lparr>bd_mem := pg_mem bump_paging\<rparr>) = Inr (0, [(0, 0x5000)], b')" ..
  have p: "get_pde_pte 0x5000 = (0, 5)" by code_simp
  have t: "pt_present 64 0 bump_paging" "pt_virt 64 bump_paging 0 = 0x3000" by code_simp+
  have d: "page_tables (pg_pd bump_paging 64) = 0x1000" "page_tables_virt (pg_pd bump_paging 64) = 0x2000"
    by (simp_all add: bump_paging_def)
  show ?thesis
    using kmmap_translates [OF _ _ _ _ b' p t(1), where phys = "0x200000" and flags = 3 and T = "0x1000" and V = "0x2000"
        and e = "0x3014" and uninit = 0 and va = "\<lambda>_. 0"] t(2) d by fastforce
qed

section \<open>Unmapping\<close>

lemma unmap_page_frames: "unmap_page pd pde pte s = Inr s' \<Longrightarrow> pg_frames s' = pg_frames s"
  by (auto simp: unmap_page_def Let_def split: if_splits)

lemma unmap_pages_loop_frames:
  "unmap_pages_loop pd pde pte ovf is s = Inr s' \<Longrightarrow> pg_frames s' = pg_frames s"
proof (induction "is" arbitrary: pde ovf s)
  case (Cons i "is")
  from Cons.prems show ?case
    by (auto simp: Let_def split_beta bindE_Inr_iff split: if_splits dest!: Cons.IH unmap_page_frames)
qed simp

lemma dealloc_fold_used:
  "used_frames (fold (\<lambda>i. dealloc_frame (f i)) is s) = used_frames s - (\<lambda>i. unat (f i) div 4096) ` set is"
  by (induction "is" arbitrary: s) (auto simp: dealloc_frame_used)

lemma flush_contiguous_frames [simp]: "pg_frames (flush_pages_contiguous v n s) = pg_frames s"
proof -
  have "pg_frames (foldl (\<lambda>s i. flush_page (v + word_of_nat i * 0x1000) s) s is) = pg_frames s" for "is"
    by (induction "is" arbitrary: s) simp_all
  then show ?thesis by (simp add: flush_pages_contiguous_def)
qed

text \<open>
  Unmapping does not give the frames back: \<open>knmunmap_contiguous\<close> passes the virtual address to the frame
  allocator, so that every frame below the page number of the virtual address, whatever was mapped there,
  is still marked as used if it was before.
\<close>

lemma knmunmap_keeps_frames:
  assumes "knmunmap_contiguous ops pd virt_addr page_num b s = Inr (b', s')"
    and "unat virt_addr + 4096 * unat page_num \<le> 4294967296" and "k < unat virt_addr div 4096"
  shows "k \<in> used_frames (pg_frames s') \<longleftrightarrow> k \<in> used_frames (pg_frames s)"
proof -
  obtain w s2 where u: "unmap_pages pd (fst (get_pde_pte virt_addr)) (snd (get_pde_pte virt_addr)) page_num
      (s\<lparr>pg_mem := w\<rparr>) = Inr s2" and s': "pg_frames s' = dealloc_nframes virt_addr page_num (pg_frames s2)"
    using assms(1) by (auto simp: knmunmap_contiguous_def with_buddy_def bindE_Inr_iff Let_def split_beta)
  have f: "pg_frames s2 = pg_frames s" using unmap_pages_loop_frames u by (fastforce simp: unmap_pages_def)
  have "unat (virt_addr + PAGE_SIZE * word_of_nat i) = unat virt_addr + 4096 * i" if "i < unat page_num" for i
    using that assms(2) by (simp add: unat_simps)
  then have "k \<noteq> unat (virt_addr + PAGE_SIZE * word_of_nat i) div 4096" if "i < unat page_num" for i
    using that assms(3) by auto
  then show ?thesis unfolding s' f dealloc_nframes_def dealloc_fold_used by (simp add: image_iff)
qed

definition used_page_buddy :: "u32 buddy_state" where
  "used_page_buddy = one_page_buddy\<lparr>bd_data := (\<lambda>_. 0xFFFFFFFF), bd_head := (\<lambda>_. 0), bd_num := (\<lambda>_. 0)\<rparr>"

section \<open>Copying a directory without user pages\<close>

definition user_entry :: "u32 \<Rightarrow> bool" where
  "user_entry e \<longleftrightarrow> e AND USER \<noteq> 0 \<and> tab_present e"

text \<open>What the loop does with an entry that is not of a user's page table.\<close>

definition clone_step :: "u32 \<Rightarrow> u32 \<Rightarrow> 'w paging_state \<Rightarrow> nat \<Rightarrow> 'w paging_state" where
  "clone_step pd new_pd s i =
     (let i' = word_of_nat i;
          s = (if pt_entry pd s i' AND ACCESSED \<noteq> 0 then set_pt_entry pd i' (pt_entry pd s i' AND NOT ACCESSED) s else s);
          s = set_pt_virt new_pd i' (pt_virt pd s i') s
      in set_pt_entry new_pd i' (pt_entry pd s i') s)"

definition dirs_apart :: "u32 \<Rightarrow> u32 \<Rightarrow> 'w paging_state \<Rightarrow> bool" where
  "dirs_apart pd new_pd s \<longleftrightarrow>
     (let T = page_tables (pg_pd s pd); V = page_tables_virt (pg_pd s pd);
          N = page_tables (pg_pd s new_pd); W = page_tables_virt (pg_pd s new_pd)
      in apart T 1024 V 1024 \<and> apart T 1024 N 1024 \<and> apart T 1024 W 1024 \<and> apart V 1024 N 1024 \<and>
         apart V 1024 W 1024 \<and> apart N 1024 W 1024)"

lemma and_not_idle: "(e :: u32) AND a = 0 \<Longrightarrow> e AND NOT a = e"
proof -
  assume "e AND a = 0"
  moreover have "e = (e AND a) OR (e AND NOT a)"
    by (rule bit_eqI) (auto simp: bit_and_iff bit_or_iff bit_not_iff dest: bit_imp_le_length)
  ultimately show ?thesis by simp
qed

lemma user_entry_and: "user_entry (e AND a) \<Longrightarrow> user_entry e"
proof -
  assume "user_entry (e AND a)"
  moreover have "(e AND a) AND USER = (e AND USER) AND a" by (simp add: ac_simps)
  ultimately show ?thesis by (auto simp: user_entry_def tab_present_bit bit_and_iff)
qed

lemma clone_step_words:
  fixes s :: "'w paging_state" and pd new_pd :: u32
  defines "T \<equiv> \<lambda>i. page_tables (pg_pd s pd) + 4 * word_of_nat i"
    and "V \<equiv> \<lambda>i. page_tables_virt (pg_pd s pd) + 4 * word_of_nat i"
    and "N \<equiv> \<lambda>i. page_tables (pg_pd s new_pd) + 4 * word_of_nat i"
    and "W \<equiv> \<lambda>i. page_tables_virt (pg_pd s new_pd) + 4 * word_of_nat i"
  assumes "dirs_apart pd new_pd s" and "i < 1024"
  shows "pg_word (clone_step pd new_pd s i) =
      (pg_word s)(T i := pg_word s (T i) AND NOT ACCESSED, W i := pg_word s (V i), N i := pg_word s (T i) AND NOT ACCESSED)"
    and "clone_step pd new_pd s i = s\<lparr>pg_word := pg_word (clone_step pd new_pd s i)\<rparr>"
proof -
  define s1 where "s1 = (if pt_entry pd s (word_of_nat i) AND ACCESSED \<noteq> 0
    then set_pt_entry pd (word_of_nat i) (pt_entry pd s (word_of_nat i) AND NOT ACCESSED) s else s)"
  have s1: "s1 = s\<lparr>pg_word := (pg_word s)(T i := pg_word s (T i) AND NOT ACCESSED)\<rparr>"
    using and_not_idle [of "pg_word s (T i)" ACCESSED]
    by (auto simp: s1_def T_def pt_entry_def elem_def set_pt_entry_def set_elem_def)
  have ne: "T i \<noteq> V i" "W i \<noteq> T i"
    using assms(5,6) unfolding dirs_apart_def Let_def apart_def T_def V_def W_def by metis+
  have c: "clone_step pd new_pd s i = s\<lparr>pg_word := (pg_word s)(T i := pg_word s (T i) AND NOT ACCESSED,
      W i := pg_word s (V i), N i := pg_word s (T i) AND NOT ACCESSED)\<rparr>"
    using ne unfolding clone_step_def Let_def s1_def [symmetric]
    by (simp add: s1 T_def V_def N_def W_def set_pt_entry_def set_pt_virt_def set_elem_def pt_entry_def pt_virt_def elem_def)
  show "pg_word (clone_step pd new_pd s i) =
      (pg_word s)(T i := pg_word s (T i) AND NOT ACCESSED, W i := pg_word s (V i), N i := pg_word s (T i) AND NOT ACCESSED)"
    and "clone_step pd new_pd s i = s\<lparr>pg_word := pg_word (clone_step pd new_pd s i)\<rparr>"
    unfolding c by simp_all
qed

lemma clone_step_pd [simp]: "pg_pd (clone_step pd new_pd s i) = pg_pd s"
  by (simp add: clone_step_def Let_def set_pt_entry_def set_pt_virt_def)

lemma clone_step_entry:
  assumes "dirs_apart pd new_pd s" and "i < 1024" and "j < 1024"
  shows "pt_entry pd (clone_step pd new_pd s i) (word_of_nat j) =
    (if i = j then pt_entry pd s (word_of_nat j) AND NOT ACCESSED else pt_entry pd s (word_of_nat j))"
proof -
  have "page_tables (pg_pd s pd) + 4 * word_of_nat j \<noteq> page_tables (pg_pd s new_pd) + 4 * word_of_nat i"
    "page_tables (pg_pd s pd) + 4 * word_of_nat j \<noteq> page_tables_virt (pg_pd s new_pd) + 4 * word_of_nat i"
    using assms unfolding dirs_apart_def Let_def apart_def by metis+
  moreover have "page_tables (pg_pd s pd) + 4 * word_of_nat j \<noteq> page_tables (pg_pd s pd) + 4 * word_of_nat i" if "i \<noteq> j"
    using elem_addr_inj [of j i "page_tables (pg_pd s pd)"] assms(2,3) that by auto
  ultimately show ?thesis
    by (auto simp: pt_entry_def elem_def clone_step_words(1) [OF assms(1,2)])
qed

lemma clone_tables_kernel:
  assumes "dirs_apart pd new_pd s" and "\<forall>i \<in> set is. i < 1024"
    and "\<forall>i < 1024. \<not> user_entry (pt_entry pd s (word_of_nat i))"
  shows "clone_tables ops uninit pd new_pd is b s = Inr (0, b, foldl (clone_step pd new_pd) s is)"
  using assms
proof (induction "is" arbitrary: s)
  case Nil
  then show ?case by simp
next
  case (Cons i "is")
  let ?t = "clone_step pd new_pd s i"
  have i: "i < 1024" using Cons.prems(2) by simp
  have "dirs_apart pd new_pd ?t" using Cons.prems(1) by (simp add: dirs_apart_def)
  moreover have "\<forall>j < 1024. \<not> user_entry (pt_entry pd ?t (word_of_nat j))"
    using clone_step_entry [OF Cons.prems(1) i] Cons.prems(3) user_entry_and by (metis (full_types))
  ultimately have ih: "clone_tables ops uninit pd new_pd is b ?t = Inr (0, b, foldl (clone_step pd new_pd) ?t is)"
    using Cons.IH Cons.prems(2) by simp
  let ?s1 = "if pt_entry pd s (word_of_nat i) AND ACCESSED \<noteq> 0
    then set_pt_entry pd (word_of_nat i) (pt_entry pd s (word_of_nat i) AND NOT ACCESSED) s else s"
  have "\<not> user_entry (pt_entry pd ?s1 (word_of_nat i))"
    using Cons.prems(3) i user_entry_and by (auto simp: set_pt_entry_def pt_entry_def elem_def)
  then have "clone_tables ops uninit pd new_pd (i # is) b s = clone_tables ops uninit pd new_pd is b ?t"
    unfolding clone_tables.simps Let_def user_entry_def [symmetric] clone_step_def by (simp only: if_False)
  then show ?case using ih by simp
qed

lemma clone_fold:
  fixes s :: "'w paging_state" and pd new_pd :: u32
  defines "T \<equiv> \<lambda>i. page_tables (pg_pd s pd) + 4 * word_of_nat i"
    and "V \<equiv> \<lambda>i. page_tables_virt (pg_pd s pd) + 4 * word_of_nat i"
    and "N \<equiv> \<lambda>i. page_tables (pg_pd s new_pd) + 4 * word_of_nat i"
    and "W \<equiv> \<lambda>i. page_tables_virt (pg_pd s new_pd) + 4 * word_of_nat i"
    and "t \<equiv> \<lambda>n. foldl (clone_step pd new_pd) s [0..<n]"
  assumes "dirs_apart pd new_pd s" and "n \<le> 1024"
  shows "pg_pd (t n) = pg_pd s \<and>
    (\<forall>i < n. pg_word (t n) (N i) = pg_word s (T i) AND NOT ACCESSED \<and> pg_word (t n) (W i) = pg_word s (V i)) \<and>
    (\<forall>i < 1024. n \<le> i \<longrightarrow> pg_word (t n) (T i) = pg_word s (T i)) \<and>
    (\<forall>i < 1024. pg_word (t n) (V i) = pg_word s (V i)) \<and>
    (\<forall>a. (\<forall>i < 1024. a \<noteq> T i \<and> a \<noteq> N i \<and> a \<noteq> W i) \<longrightarrow> pg_word (t n) a = pg_word s a)"
  using assms(7)
proof (induction n)
  case 0
  then show ?case by (simp add: t_def)
next
  case (Suc n)
  have n: "n < 1024" using Suc.prems by simp
  note ih = Suc.IH [OF less_imp_le [OF n]]
  have pd: "pg_pd (t n) = pg_pd s" using ih by blast
  have da: "dirs_apart pd new_pd (t n)" using assms(6) pd by (simp add: dirs_apart_def)
  have ts: "t (Suc n) = clone_step pd new_pd (t n) n" by (simp add: t_def)
  have fo: "page_tables (pg_pd s pd) + 4 * word_of_nat n = T n" "page_tables_virt (pg_pd s pd) + 4 * word_of_nat n = V n"
    "page_tables (pg_pd s new_pd) + 4 * word_of_nat n = N n" "page_tables_virt (pg_pd s new_pd) + 4 * word_of_nat n = W n"
    by (simp_all add: T_def V_def N_def W_def)
  have w: "pg_word (t (Suc n)) = (pg_word (t n))(T n := pg_word s (T n) AND NOT ACCESSED,
      W n := pg_word s (V n), N n := pg_word s (T n) AND NOT ACCESSED)"
    unfolding ts clone_step_words(1) [OF da n] pd fo using ih n by simp
  have ap: "T i \<noteq> V j" "T i \<noteq> N j" "T i \<noteq> W j" "V i \<noteq> N j" "V i \<noteq> W j" "N i \<noteq> W j" if "i < 1024" "j < 1024" for i j
    using assms(6) that unfolding dirs_apart_def Let_def apart_def T_def V_def N_def W_def by blast+
  have inj: "T i = T j \<longleftrightarrow> i = j" "N i = N j \<longleftrightarrow> i = j" "W i = W j \<longleftrightarrow> i = j" if "i < 1024" "j < 1024" for i j
    using that elem_addr_inj [of i j] unfolding T_def N_def W_def by auto
  have b: "i < n \<Longrightarrow> i < 1024" for i using n by simp
  have nw: "pg_word (t (Suc n)) (N i) = pg_word s (T i) AND NOT ACCESSED \<and> pg_word (t (Suc n)) (W i) = pg_word s (V i)"
    if "i < Suc n" for i
  proof (cases "i = n")
    case True
    then show ?thesis unfolding w using ap(6) [OF n n] by (simp add: not_sym)
  next
    case False
    then have "i < n" using that by simp
    then have "N i \<noteq> T n" "N i \<noteq> W n" "N i \<noteq> N n" "W i \<noteq> T n" "W i \<noteq> W n" "W i \<noteq> N n"
      using ap(2,3) [OF n b] ap(6) [OF b n] ap(6) [OF n b] inj(2,3) [OF b n] False by metis+
    then show ?thesis unfolding w using ih \<open>i < n\<close> by simp
  qed
  have tt: "pg_word (t (Suc n)) (T i) = pg_word s (T i)" if "i < 1024" "Suc n \<le> i" for i
    unfolding w using ih that ap(2,3) [OF that(1) n] inj(1) [OF that(1) n] by simp
  have vv: "pg_word (t (Suc n)) (V i) = pg_word s (V i)" if "i < 1024" for i
    unfolding w using ih that ap(4,5) [OF that n] ap(1) [OF n that] by (simp add: not_sym)
  have oo: "pg_word (t (Suc n)) a = pg_word s a" if "\<forall>i < 1024. a \<noteq> T i \<and> a \<noteq> N i \<and> a \<noteq> W i" for a
    unfolding w using ih that n by simp
  show ?case using pd nw tt vv oo by (simp add: ts)
qed

lemma clone_page_dir_kernel:
  fixes s :: "'w paging_state"
  assumes "pd \<noteq> 0" and "new_pd \<noteq> 0" and "pd \<noteq> new_pd"
    and "po_kmalloc_align ops PAGE_SIZE PAGE_SIZE (pg_mem s) = Inr (N, w1)" and "N \<noteq> 0"
    and "mo_kmalloc ops PAGE_SIZE w1 = Inr (W, w2)" and "W \<noteq> 0"
    and "T = page_tables (pg_pd s pd)" and "V = page_tables_virt (pg_pd s pd)"
    and "apart T 1024 V 1024 \<and> apart T 1024 N 1024 \<and> apart T 1024 W 1024 \<and> apart V 1024 N 1024 \<and>
      apart V 1024 W 1024 \<and> apart N 1024 W 1024"
    and "\<forall>i < 1024. \<not> user_entry (pt_entry pd s (word_of_nat i))"
  obtains s0 where "clone_page_dir ops uninit pd new_pd b s = Inr (0, b, foldl (clone_step pd new_pd) s0 [0..<1024])"
    and "dirs_apart pd new_pd s0" and "pg_word s0 = pg_word s"
    and "page_tables (pg_pd s0 pd) = T" and "page_tables_virt (pg_pd s0 pd) = V"
    and "page_tables (pg_pd s0 new_pd) = N" and "page_tables_virt (pg_pd s0 new_pd) = W"
proof -
  define P where "P = ptr_to_phys_addr pd N
    (s\<lparr>pg_mem := w1, pg_pd := (pg_pd s)(new_pd := (pg_pd s new_pd)\<lparr>page_tables := N\<rparr>)\<rparr>)"
  define s0 where "s0 = s\<lparr>pg_mem := w2, pg_pd := (pg_pd s)(new_pd := (pg_pd s new_pd)\<lparr>page_tables := N, page_tables_virt := W,
    pd_phys_addr := P\<rparr>)\<rparr>"
  have d: "page_tables (pg_pd s0 pd) = T" "page_tables_virt (pg_pd s0 pd) = V"
    "page_tables (pg_pd s0 new_pd) = N" "page_tables_virt (pg_pd s0 new_pd) = W" and w0: "pg_word s0 = pg_word s"
    using assms(3,8,9) by (simp_all add: s0_def)
  have da: "dirs_apart pd new_pd s0" unfolding dirs_apart_def Let_def d using assms(10) by simp
  have e0: "pt_entry pd s0 i = pt_entry pd s i" for i
    using d w0 assms(8,9) by (simp add: pt_entry_def elem_def)
  have "clone_page_dir ops uninit pd new_pd b s = clone_tables ops uninit pd new_pd [0..<1024] b s0"
    using assms(1,2,4-7) by (simp add: clone_page_dir_def Let_def s0_def P_def del: upt_Suc)
  also have "\<dots> = Inr (0, b, foldl (clone_step pd new_pd) s0 [0..<1024])"
    using clone_tables_kernel [OF da, of "[0..<1024]" ops uninit b] assms(11) by (simp add: e0)
  finally show ?thesis using that da w0 d by blast
qed

text \<open>
  C18. A directory without user pages is shared by its copy: \<open>clone_page_dir\<close> succeeds, the entries of the copy
  are those of the original without the flag \<open>ACCESSED\<close>, and the copy translates every address as the
  original did before, provided that the new arrays do not overlap the arrays and the page tables.
\<close>

theorem clone_page_dir_shares:
  fixes s :: "'w paging_state"
  assumes "pd \<noteq> 0" and "new_pd \<noteq> 0" and "pd \<noteq> new_pd"
    and "po_kmalloc_align ops PAGE_SIZE PAGE_SIZE (pg_mem s) = Inr (N, w1)" and "N \<noteq> 0"
    and "mo_kmalloc ops PAGE_SIZE w1 = Inr (W, w2)" and "W \<noteq> 0"
    and "T = page_tables (pg_pd s pd)" and "V = page_tables_virt (pg_pd s pd)"
    and "apart T 1024 V 1024 \<and> apart T 1024 N 1024 \<and> apart T 1024 W 1024 \<and> apart V 1024 N 1024 \<and>
      apart V 1024 W 1024 \<and> apart N 1024 W 1024"
    and "\<forall>i < 1024. \<not> user_entry (pt_entry pd s (word_of_nat i))"
    and "\<forall>i < 1024. \<forall>A \<in> {T, N, W}. apart (pt_virt pd s (word_of_nat i)) 1024 A 1024"
  shows "\<exists>s'. clone_page_dir ops uninit pd new_pd b s = Inr (0, b, s') \<and>
    (\<forall>i < 1024. pt_entry new_pd s' (word_of_nat i) = pt_entry pd s (word_of_nat i) AND NOT ACCESSED) \<and>
    (\<forall>addr. to_phys_addr new_pd addr s' = to_phys_addr pd addr s)"
proof -
  obtain s0 where c: "clone_page_dir ops uninit pd new_pd b s = Inr (0, b, foldl (clone_step pd new_pd) s0 [0..<1024])"
    and da: "dirs_apart pd new_pd s0" and w0: "pg_word s0 = pg_word s"
    and d: "page_tables (pg_pd s0 pd) = T" "page_tables_virt (pg_pd s0 pd) = V"
      "page_tables (pg_pd s0 new_pd) = N" "page_tables_virt (pg_pd s0 new_pd) = W"
    using clone_page_dir_kernel [OF assms(1-11), of uninit b] by blast
  define s' where "s' = foldl (clone_step pd new_pd) s0 [0..<1024]"
  note r = clone_fold [OF da order_refl, folded s'_def, unfolded d w0]
  have pn: "pg_pd s' = pg_pd s0" using r by blast
  have ent: "pt_entry new_pd s' (word_of_nat i) = pt_entry pd s (word_of_nat i) AND NOT ACCESSED"
    "pt_virt new_pd s' (word_of_nat i) = pt_virt pd s (word_of_nat i)" if "i < 1024" for i
    using r that by (simp_all add: pt_entry_def pt_virt_def elem_def pn d assms(8,9) [symmetric])
  have "to_phys_addr new_pd addr s' = to_phys_addr pd addr s" for addr
  proof -
    obtain pde pte where p: "get_pde_pte addr = (pde, pte)" by fastforce
    have b: "unat pde < 1024" "unat pte < 1024"
      using get_pde_pte_unat [of addr] p unat_u32_lt [of addr] by (simp_all add: less_mult_imp_div_less)
    have u: "(ucast pde :: u32) = word_of_nat (unat pde)" "(ucast pte :: u32) = word_of_nat (unat pte)" by simp_all
    let ?pt = "pt_virt pd s (word_of_nat (unat pde))"
    let ?x = "?pt + 4 * word_of_nat (unat pte)"
    have "apart ?pt 1024 T 1024" "apart ?pt 1024 N 1024" "apart ?pt 1024 W 1024" using assms(12) b(1) by blast+
    then have "\<forall>i < 1024. ?x \<noteq> T + 4 * word_of_nat i \<and> ?x \<noteq> N + 4 * word_of_nat i \<and> ?x \<noteq> W + 4 * word_of_nat i"
      using b(2) unfolding apart_def by blast
    then have "pg_word s' ?x = pg_word s ?x" using r by blast
    then show ?thesis using assms(1,2) ent(2) [OF b(1)] unfolding to_phys_addr_def p Let_def prod.case u elem_def by simp
  qed
  then show ?thesis using c ent(1) unfolding s'_def by blast
qed

theorem clone_page_dir_shares_witness:
  "\<exists>s'. clone_page_dir bump_ops 0 64 128 one_page_buddy bump_paging = Inr (0, one_page_buddy, s') \<and>
    to_phys_addr 128 0x5123 s' = to_phys_addr 64 0x5123 bump_paging"
proof -
  have w: "pg_word bump_paging = (\<lambda>_. 0)(0x1000 := 0x3003, 0x2000 := 0x3000)"
    "page_tables (pg_pd bump_paging 64) = 0x1000" "page_tables_virt (pg_pd bump_paging 64) = 0x2000"
    "pg_mem bump_paging = 0x4000" by (simp_all add: bump_paging_def)
  have o: "po_kmalloc_align bump_ops PAGE_SIZE PAGE_SIZE (pg_mem bump_paging) = Inr (0x4000, 0x5000)"
    "mo_kmalloc bump_ops PAGE_SIZE 0x5000 = Inr (0x5000, 0x6000)" by (simp_all add: bump_ops_def w)
  have u: "\<forall>i < 1024. \<not> user_entry (pt_entry 64 bump_paging (word_of_nat i))"
    by (auto simp: pt_entry_def elem_def w user_entry_def)
  have "apart 0x1000 1 0x2000 1024" by (rule apartI) simp_all
  then have "(0x2000 :: u32) + 4 * word_of_nat i \<noteq> 0x1000" if "i < 1024" for i
    using that unfolding apart_def by fastforce
  then have v: "pt_virt 64 bump_paging (word_of_nat i) \<in> {0, 0x3000}" if "i < 1024" for i
    using that by (auto simp: pt_virt_def elem_def w)
  have "apart p 1024 A 1024" if "p \<in> {0, 0x3000}" "A \<in> {0x1000, 0x4000, 0x5000}" for p A
    using that by (auto intro: apartI apart_sym [THEN iffD1, OF apartI])
  then have a: "\<forall>i < 1024. \<forall>A \<in> {0x1000, 0x4000, 0x5000}. apart (pt_virt 64 bump_paging (word_of_nat i)) 1024 A 1024"
    using v by blast
  have "apart 0x1000 1024 0x2000 1024 \<and> apart 0x1000 1024 0x4000 1024 \<and> apart 0x1000 1024 0x5000 1024 \<and>
      apart 0x2000 1024 0x4000 1024 \<and> apart 0x2000 1024 0x5000 1024 \<and> apart 0x4000 1024 0x5000 1024"
    by (simp add: apartI)
  from clone_page_dir_shares [OF _ _ _ o(1) _ o(2) _ w(2) [symmetric] w(3) [symmetric] this u a, of 128 0 one_page_buddy]
  show ?thesis by auto
qed

text \<open>
  The entry of a copied page table of a user has no flags: the directory gets the plain physical address of
  the new table, so that the table is not present in the copy.
\<close>

theorem clone_page_table_not_present:
  fixes s :: "'w paging_state"
  assumes "pd \<noteq> 0" and "clone_page_table ops uninit pd pde b s = Inr (ret, new_pt, new_pt_paddr, b', s')"
    and "new_pt AND 0xFFF = 0"
  shows "\<not> tab_present new_pt_paddr"
proof -
  have "\<exists>s1 :: 'w paging_state. new_pt_paddr = to_phys_addr pd new_pt s1"
    using assms(2) by (auto simp: clone_page_table_def Let_def bindE_Inr_iff ptr_to_phys_addr_def split: if_splits)
  then have "new_pt_paddr = 0 \<or> (\<exists>e. new_pt_paddr = e AND NOT 0xFFF)"
    using assms(1,3) by (auto simp: to_phys_addr_def Let_def split_beta get_tab_pure_addr_def split: if_splits)
  moreover have "\<not> bit (NOT 0xFFF :: u32) 0" by (simp add: bit_not_iff bit_0)
  ultimately show ?thesis by (auto simp: tab_present_bit bit_and_iff)
qed

end
