(* ===== verification/Tasks.thy ===== *)
theory Tasks
  imports Address_Spaces
begin

text \<open>
  Tasks, \<open>src/proc/proc.c\<close>, with the list macros of \<open>src/include/lib/kernel.h\<close>: the list of tasks, the scheduler
  that the timer calls, and the system calls that make, replace and end a task.

  The tasks are a store \<open>pr_task\<close> addressed by their pointer; the buddy allocators are a store too,
  \<open>pr_buddy\<close>, and share the memory state of the paging state. \<open>jump_usermode\<close> does not return to its caller;
  the state records the entry point and the stack it is called with. The endless loops of \<open>kern\<close> and
  \<open>run_kernel_task\<close> are the fault \<open>Diverges\<close>. The contents of fresh local variables and of fresh memory are
  arguments.
\<close>

section \<open>State\<close>

datatype task_state = EMPTY | RUNNING | IDLE | DEAD

text \<open>The numbers of the enumeration, and its order.\<close>

fun state_num :: "task_state \<Rightarrow> u32" where
  "state_num EMPTY = 0"
| "state_num RUNNING = 1"
| "state_num IDLE = 2"
| "state_num DEAD = 3"

lemma state_num_inject [simp]: "state_num s = state_num t \<longleftrightarrow> s = t"
  by (cases s; cases t) simp_all

instantiation task_state :: linorder
begin

definition less_eq_task_state :: "task_state \<Rightarrow> task_state \<Rightarrow> bool" where
  "less_eq_task_state s t \<longleftrightarrow> state_num s \<le> state_num t"

definition less_task_state :: "task_state \<Rightarrow> task_state \<Rightarrow> bool" where
  "less_task_state s t \<longleftrightarrow> state_num s < state_num t"

instance
  by standard (auto simp: less_eq_task_state_def less_task_state_def simp flip: state_num_inject)

end

record task =
  tk_pd :: u32
  tk_reg :: "u32 list"
  tk_eip :: u32
  tk_esp :: u32
  tk_map_addr :: u32
  tk_map_page_num :: u32
  tk_state :: task_state
  tk_id :: u32
  tk_buddy :: u32
  tk_exec_node :: "fs_node option"
  tk_next :: u32
  tk_prev :: u32

abbreviation SIZEOF_TASK :: u32 where "SIZEOF_TASK \<equiv> 76"
abbreviation USER_STACK_SIZE :: u32 where "USER_STACK_SIZE \<equiv> 4"

text \<open>The events of the timer, \<open>struct pit_event\<close>; a callback is given by its address.\<close>

record pit_event =
  pe_cb :: u32
  pe_priority :: u32
  pe_period_ms :: u32
  pe_last_call_tick :: u32
  pe_next :: u32
  pe_next_in_queue :: u32

record 'w proc_state =
  pr_task :: "u32 \<Rightarrow> task"
  pr_task_list :: u32
  pr_cur_task :: u32
  pr_task_slab :: u32
  pr_last_kernel_tid :: u32
  pr_last_user_tid :: u32
  pr_ready_schedule :: bool
  pr_event :: "u32 \<Rightarrow> pit_event"
  pr_events :: u32
  pr_event_queue :: u32
  pr_buddy :: "u32 \<Rightarrow> 'w buddy_state"
  pr_kern_buddy :: u32
  pr_rd :: initrd
  pr_fs :: "fs_node list"
  pr_bytes :: mem8
  pr_paging :: "'w paging_state"
  pr_int_enabled :: bool
  pr_user :: "(u32 \<times> u32) option"

definition upd_task :: "u32 \<Rightarrow> (task \<Rightarrow> task) \<Rightarrow> 'w proc_state \<Rightarrow> 'w proc_state" where
  "upd_task t f s = s\<lparr>pr_task := (pr_task s)(t := f (pr_task s t))\<rparr>"

section \<open>The list of tasks\<close>

definition doubly_ll_insert :: "u32 \<Rightarrow> 'w proc_state \<Rightarrow> 'w proc_state" where
  "doubly_ll_insert member s =
     (let nxt = pr_task_list s;
          s = s\<lparr>pr_task_list := member\<rparr>;
          s = upd_task member (\<lambda>t. t\<lparr>tk_next := nxt\<rparr>) s;
          s = (if nxt \<noteq> 0 then upd_task nxt (\<lambda>t. t\<lparr>tk_prev := member\<rparr>) s else s)
      in upd_task member (\<lambda>t. t\<lparr>tk_prev := 0\<rparr>) s)"

definition doubly_ll_remove :: "u32 \<Rightarrow> 'w proc_state \<Rightarrow> 'w proc_state" where
  "doubly_ll_remove member s =
     (let s = (if tk_next (pr_task s member) \<noteq> 0
               then upd_task (tk_next (pr_task s member)) (\<lambda>t. t\<lparr>tk_prev := tk_prev (pr_task s member)\<rparr>) s else s);
          s = (if tk_prev (pr_task s member) \<noteq> 0
               then upd_task (tk_prev (pr_task s member)) (\<lambda>t. t\<lparr>tk_next := tk_next (pr_task s member)\<rparr>) s else s)
      in s\<lparr>pr_task_list := tk_next (pr_task s member)\<rparr>)"

text \<open>
  \<open>schedule\<close> marks the new tasks of the list and returns; the code behind the \<open>return\<close> is not reached. \<open>None\<close> is a
  list that does not end.
\<close>

partial_function (option) schedule_loop :: "u32 \<Rightarrow> 'w proc_state \<Rightarrow> 'w proc_state option" where
  "schedule_loop t s =
     (if t = 0 then Some s
      else let s = (if tk_state (pr_task s t) = EMPTY
                    then (upd_task t (\<lambda>t. t\<lparr>tk_state := RUNNING\<rparr>) s)\<lparr>pr_ready_schedule := True\<rparr> else s)
           in schedule_loop (tk_next (pr_task s t)) s)"

declare schedule_loop.simps [code]

definition schedule :: "'w proc_state \<Rightarrow> 'w proc_state option" where
  "schedule s = schedule_loop (pr_task_list s) s"

section \<open>Switching\<close>

definition run_user_task :: "u32 \<Rightarrow> 'w proc_state \<Rightarrow> 'w proc_state" where
  "run_user_task t s = s\<lparr>pr_cur_task := t, pr_user := Some (tk_eip (pr_task s t), tk_esp (pr_task s t))\<rparr>"

definition run_kernel_task :: "u32 \<Rightarrow> 'w proc_state \<Rightarrow> fault + 'w proc_state" where
  "run_kernel_task t s = Inl Diverges"

definition kern :: "'w proc_state \<Rightarrow> fault + 'w proc_state" where
  "kern s = Inl Diverges"

definition switch_task :: "u32 \<Rightarrow> 'w proc_state \<Rightarrow> fault + 'w proc_state" where
  "switch_task t s =
     (if t = 0 then Inl NullDeref
      else bindE (switch_page_dir (tk_pd (pr_task s t)) (pr_paging s)) (\<lambda>(_, pg).
        let s = s\<lparr>pr_paging := pg, pr_int_enabled := True\<rparr> in
        if tk_id (pr_task s t) \<ge> 1000 then Inr (run_user_task t s) else run_kernel_task t s))"

section \<open>Making and ending tasks\<close>

text \<open>A call that works on the paging state and the buddy allocator at \<open>p\<close>.\<close>

definition with_space ::
  "u32 \<Rightarrow> ('w buddy_state \<Rightarrow> 'w paging_state \<Rightarrow> fault + 'r \<times> 'w buddy_state \<times> 'w paging_state) \<Rightarrow>
     'w proc_state \<Rightarrow> fault + 'r \<times> 'w proc_state" where
  "with_space p f s =
     bindE (f (pr_buddy s p) (pr_paging s)) (\<lambda>(r, b, pg).
       Inr (r, s\<lparr>pr_buddy := (pr_buddy s)(p := b), pr_paging := pg\<rparr>))"

text \<open>A call of the heap or of a slab cache.\<close>

definition with_mem :: "('w \<Rightarrow> fault + 'r \<times> 'w) \<Rightarrow> 'w proc_state \<Rightarrow> fault + 'r \<times> 'w proc_state" where
  "with_mem f s =
     bindE (f (pg_mem (pr_paging s))) (\<lambda>(r, w). Inr (r, s\<lparr>pr_paging := (pr_paging s)\<lparr>pg_mem := w\<rparr>\<rparr>))"

text \<open>The new allocator gets its state at the pointer that is returned; \<open>b0\<close> is what was in memory.\<close>

definition new_buddy ::
  "('w buddy_state \<Rightarrow> fault + u32 \<times> 'w buddy_state) \<Rightarrow> 'w buddy_state \<Rightarrow> 'w proc_state \<Rightarrow>
     fault + u32 \<times> 'w proc_state" where
  "new_buddy f b0 s =
     bindE (with_buddy f b0 (pr_paging s)) (\<lambda>(p, b, pg).
       Inr (p, s\<lparr>pr_buddy := (pr_buddy s)(p := b), pr_paging := pg\<rparr>))"

definition create_user_buddy_alloc ::
  "'w page_ops \<Rightarrow> 'w buddy_state \<Rightarrow> 'w proc_state \<Rightarrow> fault + u32 \<times> 'w proc_state" where
  "create_user_buddy_alloc ops b0 s =
     new_buddy (buddy_alloc_create (mem_ops.truncate ops) 0x100000 0x40000000) b0 s"

definition free_task :: "'w page_ops \<Rightarrow> u32 \<Rightarrow> 'w proc_state \<Rightarrow> fault + 'w proc_state" where
  "free_task ops t s =
     bindE (free_pd ops (tk_pd (pr_task s t)) (pr_paging s)) (\<lambda>pg.
       let s = s\<lparr>pr_paging := pg\<rparr> in
       bindE (with_mem (\<lambda>w. bindE (mo_slab_free ops (pr_task_slab s) t w) (\<lambda>w. Inr ((), w))) s) (\<lambda>(_, s). Inr s))"

definition exit_task :: "'w page_ops \<Rightarrow> u32 \<Rightarrow> 'w proc_state \<Rightarrow> fault + 'w proc_state" where
  "exit_task ops code s =
     (let s = doubly_ll_remove (pr_cur_task s) s in
      if pr_task_list s = 0 then Inl Panic
      else if tk_next (pr_task s (pr_task_list s)) = 0 then kern s
      else bindE (free_task ops (pr_cur_task s) s) (\<lambda>s. switch_task (pr_task_list s) s))"

definition zero_pd :: page_dir where
  "zero_pd = \<lparr>page_tables = 0, page_tables_virt = 0, pd_phys_addr = 0\<rparr>"

definition fork_task ::
  "'w page_ops \<Rightarrow> u32 \<Rightarrow> u32 \<Rightarrow> 'w proc_state \<Rightarrow> fault + int \<times> 'w proc_state" where
  "fork_task ops uninit new_task s =
     (if new_task = 0 then Inl NullDeref
      else
        let cur = pr_cur_task s;
            s = upd_task new_task (\<lambda>_. pr_task s cur) s
        in bindE (with_mem (mo_kmalloc ops 12) s) (\<lambda>(pd, s).
          let s = upd_task new_task (\<lambda>t. t\<lparr>tk_pd := pd\<rparr>) s in
          if pd = 0 then Inr (ENOMEM, s)
          else
            let s = s\<lparr>pr_paging := (pr_paging s)\<lparr>pg_pd := (pg_pd (pr_paging s))(pd := zero_pd)\<rparr>\<rparr>;
                s = upd_task new_task (\<lambda>t. t\<lparr>tk_state := IDLE\<rparr>) s;
                s = (if tk_id (pr_task s cur) \<ge> 1000
                     then (upd_task new_task (\<lambda>t. t\<lparr>tk_id := pr_last_user_tid s + 1\<rparr>) s)
                            \<lparr>pr_last_user_tid := pr_last_user_tid s + 1\<rparr>
                     else (upd_task new_task (\<lambda>t. t\<lparr>tk_id := pr_last_kernel_tid s + 1\<rparr>) s)
                            \<lparr>pr_last_kernel_tid := pr_last_kernel_tid s + 1\<rparr>)
            in with_space (pr_kern_buddy s) (\<lambda>b pg.
                 bindE (clone_cur_page_dir ops uninit pd b pg) (\<lambda>(ret, b, pg). Inr (ret, b, pg))) s))"

definition fork :: "'w page_ops \<Rightarrow> u32 \<Rightarrow> 'w buddy_state \<Rightarrow> 'w proc_state \<Rightarrow> fault + int \<times> 'w proc_state" where
  "fork ops uninit b0 s =
     bindE (with_mem (mo_slab_alloc ops (pr_task_slab s)) s) (\<lambda>(new_task, s).
       bindE (fork_task ops uninit new_task s) (\<lambda>(_, s).
         bindE (new_buddy (buddy_alloc_clone (mem_ops.truncate ops) (pr_buddy s (tk_buddy (pr_task s (pr_cur_task s))))) b0 s)
           (\<lambda>(buddy, s). Inr (0, upd_task new_task (\<lambda>t. t\<lparr>tk_buddy := buddy\<rparr>) s))))"

text \<open>The path is the string at \<open>exec\<close>.\<close>

definition execve :: "'w page_ops \<Rightarrow> u32 \<Rightarrow> 'w proc_state \<Rightarrow> fault + int \<times> 'w proc_state" where
  "execve ops exec s =
     (case root_get_node_fs (pr_rd s) (pr_fs s) (pr_bytes s) exec of
        None \<Rightarrow> Inl Diverges
      | Some None \<Rightarrow> Inr (- ENOENT, s)
      | Some (Some exec_node) \<Rightarrow>
          bindE (with_space (tk_buddy (pr_task s (pr_cur_task s)))
                   (with_buddy (\<lambda>b. bindE (buddy_alloc_clean (mem_ops.truncate ops) b) (\<lambda>b. Inr ((), b)))) s)
            (\<lambda>(_, s). Inr (0, upd_task (pr_cur_task s) (\<lambda>t. t\<lparr>tk_exec_node := Some exec_node, tk_state := EMPTY\<rparr>) s)))"

section \<open>The first task\<close>

text \<open>A word of memory as the current directory shows it, little-endian.\<close>

definition read_byte :: "u32 \<Rightarrow> 'w paging_state \<Rightarrow> u8" where
  "read_byte a s = (let p = to_phys_addr (pg_cur_pd s) a s in pg_page s (p AND NOT 0xFFF) (p AND 0xFFF))"

definition read_word :: "u32 \<Rightarrow> 'w paging_state \<Rightarrow> u32" where
  "read_word a s = ucast (read_byte a s) OR push_bit 8 (ucast (read_byte (a + 1) s)) OR
     push_bit 16 (ucast (read_byte (a + 2) s)) OR push_bit 24 (ucast (read_byte (a + 3) s))"

text \<open>\<open>e_entry\<close> is at offset 24 of the header of an executable.\<close>

definition load_elf ::
  "'w page_ops \<Rightarrow> u32 \<Rightarrow> u32 \<Rightarrow> fs_node option \<Rightarrow> 'w proc_state \<Rightarrow> fault + int \<times> 'w proc_state" where
  "load_elf ops uninit t exec_node s =
     (case exec_node of
        None \<Rightarrow> Inl NullDeref
      | Some n \<Rightarrow>
          let map_npages = page_align_up (fn_size n);
              flags = ucast (USER OR R_W OR PRESENT)
          in bindE (with_mem (mo_kmalloc ops map_npages) s) (\<lambda>(user_addr, s).
            let buddy = tk_buddy (pr_task s t) in
            bindE (with_space buddy (\<lambda>b pg. bindE (kfsmmap ops (pr_rd s) exec_node flags (\<lambda>_. uninit) uninit b pg)
                     (\<lambda>(ret, va, off, b, pg). Inr ((ret, va, off), b, pg))) s) (\<lambda>((ret, va, data_off), s).
              if ret \<noteq> 0 then Inl Panic
              else
                let user_eip = read_word (va 0 + data_off + 24) (pr_paging s);
                    user_entry = va 0 + data_off + user_eip + PAGE_SIZE
                in bindE (with_space buddy (\<lambda>b pg. bindE (knmmap ops uninit (pg_cur_pd pg) 0 USER_STACK_SIZE flags (\<lambda>_. uninit) b pg)
                            (\<lambda>(ret, va, b, pg). Inr (va, b, pg))) s) (\<lambda>(user_esp, s).
                  Inr (0, upd_task t (\<lambda>t. t\<lparr>tk_eip := user_entry, tk_esp := user_esp 0 + (USER_STACK_SIZE - 1) * 0x1000,
                                          tk_map_addr := user_addr, tk_map_page_num := map_npages\<rparr>) s)))))"

text \<open>
  The ram disk is mapped by the buddy allocator of the kernel; the places and the contents of the memory that
  its initialisation takes from the heap are given by \<open>env\<close>. \<open>path\<close> is the address of the string
  \<open>/usr/bin/init\<close>.
\<close>

record rd_env =
  re_root_header :: u32
  re_rd_fs :: u32
  re_uninit :: u32
  re_uninit_ops :: bool
  re_old :: initrd_node
  re_old_nodes :: "initrd_node list"

definition spawn_rd ::
  "'w page_ops \<Rightarrow> u32 \<Rightarrow> u32 \<Rightarrow> u32 \<Rightarrow> rd_env \<Rightarrow> 'w proc_state \<Rightarrow> fault + 'w proc_state" where
  "spawn_rd ops uninit mod_start mod_end env s =
     (let mod_size = mod_end - mod_start;
          npages = mod_size div PAGE_SIZE + (if mod_size mod PAGE_SIZE \<noteq> 0 then 1 else 0)
      in bindE (with_space (pr_kern_buddy s) (\<lambda>b pg.
                 bindE (knmmap ops uninit (pg_cur_pd pg) mod_start npages (ucast (R_W OR PRESENT)) (\<lambda>_. uninit) b pg)
                   (\<lambda>(ret, va, b, pg). Inr ((ret, va 0), b, pg))) s) (\<lambda>(r, s).
           case initrd_init r (re_root_header env) (re_rd_fs env) (re_uninit env) (re_uninit_ops env) (re_old env)
                  (re_old_nodes env) (pr_bytes s) of
             None \<Rightarrow> Inl Diverges
           | Some (_, None, _) \<Rightarrow> Inl NullDeref
           | Some (_, Some (rd, fs), m) \<Rightarrow> Inr (s\<lparr>pr_rd := rd, pr_fs := fs, pr_bytes := m\<rparr>)))"

definition spawn_init ::
  "'w page_ops \<Rightarrow> u32 \<Rightarrow> u32 \<Rightarrow> u32 \<Rightarrow> rd_env \<Rightarrow> u32 \<Rightarrow> 'w buddy_state \<Rightarrow> 'w proc_state \<Rightarrow> fault + 'w proc_state" where
  "spawn_init ops uninit mod_start mod_end env path b0 s =
     bindE (spawn_rd ops uninit mod_start mod_end env s) (\<lambda>s.
       let s = s\<lparr>pr_int_enabled := False\<rparr> in
       case root_get_node_fs (pr_rd s) (pr_fs s) (pr_bytes s) path of
         None \<Rightarrow> Inl Diverges
       | Some exec_node \<Rightarrow>
           bindE (with_mem (mo_slab_alloc ops (pr_task_slab s)) s) (\<lambda>(new_task, s).
             bindE (fork_task ops uninit new_task s) (\<lambda>(ret, s).
               if ret \<noteq> 0 then Inl Panic
               else
                 let s = upd_task new_task (\<lambda>t. t\<lparr>tk_id := pr_last_user_tid s, tk_state := EMPTY, tk_exec_node := exec_node\<rparr>) s
                 in bindE (create_user_buddy_alloc ops b0 s) (\<lambda>(buddy, s).
                   let s = doubly_ll_insert new_task (upd_task new_task (\<lambda>t. t\<lparr>tk_buddy := buddy\<rparr>) s);
                       t = pr_task_list s
                   in bindE (switch_page_dir (tk_pd (pr_task s t)) (pr_paging s)) (\<lambda>(_, pg).
                     bindE (load_elf ops uninit t (tk_exec_node (pr_task s t)) (s\<lparr>pr_paging := pg\<rparr>)) (\<lambda>(_, s).
                       switch_task t s))))))"

text \<open>
  The callback is refused when the event at the index of its priority has one. At the first call \<open>events\<close> is
  \<open>NULL\<close>, and what is read is the memory at its address.
\<close>

definition pit_add_callback ::
  "'w page_ops \<Rightarrow> u32 \<Rightarrow> u32 \<Rightarrow> u32 \<Rightarrow> 'w proc_state \<Rightarrow> fault + 'w proc_state" where
  "pit_add_callback ops cb priority period s =
     (if pe_cb (pr_event s (pr_events s + 24 * priority)) \<noteq> 0 then Inr s
      else bindE (with_mem (mo_kmalloc ops 24) s) (\<lambda>(e, s).
        if e = 0 then Inl NullDeref
        else Inr (s\<lparr>pr_event := (pr_event s)(e := \<lparr>pe_cb = cb, pe_priority = priority, pe_period_ms = period,
               pe_last_call_tick = 0, pe_next = pr_events s, pe_next_in_queue = 0\<rparr>), pr_events := e\<rparr>)))"

definition insert_invent_in_queue :: "u32 \<Rightarrow> 'w proc_state \<Rightarrow> 'w proc_state" where
  "insert_invent_in_queue event s =
     (let nxt = pr_event_queue s
      in s\<lparr>pr_event_queue := event, pr_event := (pr_event s)(event := (pr_event s event)\<lparr>pe_next_in_queue := nxt\<rparr>)\<rparr>)"

definition remove_event_from_queue :: "u32 \<Rightarrow> 'w proc_state \<Rightarrow> 'w proc_state" where
  "remove_event_from_queue event s = s\<lparr>pr_event_queue := pe_next_in_queue (pr_event s event)\<rparr>"

text \<open>The loop over the queue has an empty body; \<open>None\<close> is a queue that does not end.\<close>

partial_function (option) event_loop :: "u32 \<Rightarrow> 'w proc_state \<Rightarrow> 'w proc_state option" where
  "event_loop eiq s = (if eiq = 0 then Some s else event_loop (pe_next_in_queue (pr_event s eiq)) s)"

definition pit_event_loop :: "'w proc_state \<Rightarrow> 'w proc_state option" where
  "pit_event_loop s = event_loop (pr_event_queue s) s"

text \<open>\<open>schedule_addr\<close> and \<open>kern_addr\<close> are the addresses of the two functions.\<close>

definition multiproc_init :: "'w page_ops \<Rightarrow> u32 \<Rightarrow> u32 \<Rightarrow> 'w proc_state \<Rightarrow> fault + int \<times> 'w proc_state" where
  "multiproc_init ops schedule_addr kern_addr s =
     bindE (with_mem (mo_cache_create ops SIZEOF_TASK) s) (\<lambda>(slab, s).
       bindE (pit_add_callback ops schedule_addr 0 8 (s\<lparr>pr_task_slab := slab\<rparr>)) (\<lambda>s.
         bindE (with_mem (mo_slab_alloc ops (pr_task_slab s)) s) (\<lambda>(cur, s).
           if cur = 0 then Inl NullDeref
           else
             let s = upd_task cur (\<lambda>t. t\<lparr>tk_pd := pg_kernel_pd (pr_paging s), tk_buddy := pr_kern_buddy s, tk_eip := kern_addr,
                       tk_id := 0, tk_state := RUNNING\<rparr>) (s\<lparr>pr_cur_task := cur\<rparr>);
                 s = s\<lparr>pr_last_kernel_tid := 0, pr_last_user_tid := 1000\<rparr>
             in Inr (0, doubly_ll_insert cur s))))"

section \<open>The list as a stack\<close>

text \<open>
  What the kernel relies on for a list with insertion at its head: \<open>repr\<close> relates a state to the members in
  order, \<open>ok\<close> are the pointers that may be members.
\<close>

locale linked_stack =
  fixes repr :: "'s \<Rightarrow> 'a list \<Rightarrow> bool"
    and ok :: "'a \<Rightarrow> bool"
    and push :: "'a \<Rightarrow> 's \<Rightarrow> 's"
    and remove :: "'a \<Rightarrow> 's \<Rightarrow> 's"
  assumes repr_push: "repr s xs \<Longrightarrow> ok x \<Longrightarrow> x \<notin> set xs \<Longrightarrow> repr (push x s) (x # xs)"
    and repr_remove: "repr s (x # xs) \<Longrightarrow> repr (remove x s) xs"
begin

lemma repr_push_all:
  "repr s xs \<Longrightarrow> \<forall>y \<in> set ys. ok y \<Longrightarrow> distinct (ys @ xs) \<Longrightarrow> repr (fold push ys s) (rev ys @ xs)"
proof (induction ys arbitrary: s xs)
  case (Cons y ys)
  then have "repr (push y s) (y # xs)" using repr_push by simp
  with Cons.IH [of "push y s" "y # xs"] Cons.prems show ?case by simp
qed simp

lemma repr_remove_all: "repr s (ys @ xs) \<Longrightarrow> repr (fold remove ys s) xs"
  by (induction ys arbitrary: s) (simp_all add: repr_remove)

lemma repr_lifo:
  "repr s xs \<Longrightarrow> \<forall>y \<in> set ys. ok y \<Longrightarrow> distinct (ys @ xs) \<Longrightarrow>
    repr (fold remove (rev ys) (fold push ys s)) xs"
  using repr_push_all repr_remove_all by blast

end

text \<open>The members from \<open>p\<close> on, where \<open>q\<close> is the one before.\<close>

fun task_chain :: "(u32 \<Rightarrow> task) \<Rightarrow> u32 \<Rightarrow> u32 \<Rightarrow> u32 list \<Rightarrow> bool" where
  "task_chain tk p q [] \<longleftrightarrow> p = 0"
| "task_chain tk p q (x # xs) \<longleftrightarrow> p = x \<and> x \<noteq> 0 \<and> tk_prev (tk x) = q \<and> task_chain tk (tk_next (tk x)) x xs"

definition task_list_repr :: "'w proc_state \<Rightarrow> u32 list \<Rightarrow> bool" where
  "task_list_repr s xs \<longleftrightarrow> task_chain (pr_task s) (pr_task_list s) 0 xs \<and> distinct xs"

lemma task_chain_cong:
  "(\<And>x. x \<in> set xs \<Longrightarrow> tk_next (tk' x) = tk_next (tk x) \<and> tk_prev (tk' x) = tk_prev (tk x)) \<Longrightarrow>
    task_chain tk' p q xs = task_chain tk p q xs"
  by (induction xs arbitrary: p q) auto

lemma task_chain_head: "task_chain tk p q xs \<Longrightarrow> p = (case xs of [] \<Rightarrow> 0 | x # _ \<Rightarrow> x)"
  by (cases xs) auto

lemma task_chain_nonzero: "task_chain tk p q xs \<Longrightarrow> 0 \<notin> set xs"
  by (induction xs arbitrary: p q) auto

lemma task_insert_repr:
  assumes "task_list_repr s xs" and "x \<noteq> 0" and "x \<notin> set xs"
  shows "task_list_repr (doubly_ll_insert x s) (x # xs)"
proof (cases xs)
  case Nil
  then have "pr_task_list s = 0" using assms(1) by (simp add: task_list_repr_def)
  then show ?thesis using Nil assms(2) by (simp add: task_list_repr_def doubly_ll_insert_def upd_task_def Let_def)
next
  case (Cons y ys)
  have c: "task_chain (pr_task s) (tk_next (pr_task s y)) y ys" "y \<noteq> 0" "pr_task_list s = y" "distinct xs"
    using assms(1) Cons by (auto simp: task_list_repr_def)
  let ?tk = "pr_task (doubly_ll_insert x s)"
  have tk: "?tk = (pr_task s)(x := (pr_task s x)\<lparr>tk_next := y, tk_prev := 0\<rparr>, y := (pr_task s y)\<lparr>tk_prev := x\<rparr>)"
    using c(2,3) assms(3) Cons by (auto simp: doubly_ll_insert_def upd_task_def Let_def fun_eq_iff)
  have "task_chain ?tk (tk_next (pr_task s y)) y ys = task_chain (pr_task s) (tk_next (pr_task s y)) y ys"
    using assms(3) c(4) Cons unfolding tk by (intro task_chain_cong) auto
  moreover have "pr_task_list (doubly_ll_insert x s) = x" by (simp add: doubly_ll_insert_def upd_task_def Let_def)
  ultimately show ?thesis using c assms(2,3) Cons by (auto simp: task_list_repr_def tk)
qed

lemma task_chain_split:
  "task_chain tk p q (ys @ x # zs) \<Longrightarrow>
    tk_prev (tk x) = (if ys = [] then q else last ys) \<and> task_chain tk (tk_next (tk x)) x zs"
proof (induction ys arbitrary: p q)
  case (Cons y ys)
  then have "task_chain tk (tk_next (tk y)) y (ys @ x # zs)" by simp
  from Cons.IH [OF this] show ?case by simp
qed simp

text \<open>Removing a member makes the ones behind it the whole list.\<close>

lemma task_remove_repr:
  assumes "task_list_repr s (ys @ x # zs)"
  shows "pr_task_list (doubly_ll_remove x s) = (case zs of [] \<Rightarrow> 0 | z # _ \<Rightarrow> z) \<and>
    task_chain (pr_task (doubly_ll_remove x s)) (pr_task_list (doubly_ll_remove x s)) (if ys = [] then 0 else last ys) zs"
proof -
  let ?n = "tk_next (pr_task s x)" and ?p = "tk_prev (pr_task s x)"
  have c: "?p = (if ys = [] then 0 else last ys)" "task_chain (pr_task s) ?n x zs"
    using task_chain_split assms by (auto simp: task_list_repr_def)
  have d: "x \<notin> set zs" "distinct zs" "ys \<noteq> [] \<Longrightarrow> last ys \<notin> set zs" "ys \<noteq> [] \<Longrightarrow> last ys \<noteq> x"
    using assms by (auto simp: task_list_repr_def dest: last_in_set)
  show ?thesis
  proof (cases zs)
    case Nil
    then have "?n = 0" using c(2) by simp
    then show ?thesis using Nil d(4) c(1) by (auto simp: doubly_ll_remove_def upd_task_def Let_def)
  next
    case (Cons z zs')
    have n: "?n = z" "z \<noteq> 0" "z \<noteq> x" using c(2) Cons d(1) by auto
    have p: "?p \<noteq> z" "?p \<notin> set zs'" "?p \<noteq> 0 \<Longrightarrow> ?p \<noteq> x"
      using c(1) d(3,4) n(2) Cons task_chain_nonzero [OF c(2)] by auto
    let ?tk = "(pr_task s)(z := (pr_task s z)\<lparr>tk_prev := ?p\<rparr>)"
    have tk: "pr_task (doubly_ll_remove x s) = (if ?p \<noteq> 0 then ?tk(?p := (?tk ?p)\<lparr>tk_next := z\<rparr>) else ?tk)"
      "pr_task_list (doubly_ll_remove x s) = z"
      using n p by (auto simp: doubly_ll_remove_def upd_task_def Let_def)
    have z: "pr_task (doubly_ll_remove x s) z = (pr_task s z)\<lparr>tk_prev := ?p\<rparr>" using p(1) by (auto simp: tk(1))
    have "task_chain (pr_task (doubly_ll_remove x s)) (tk_next (pr_task s z)) z zs' =
        task_chain (pr_task s) (tk_next (pr_task s z)) z zs'"
      using p(2) d(2) Cons by (intro task_chain_cong) (auto simp: tk(1))
    then show ?thesis using c n Cons z by (simp add: tk(2))
  qed
qed

interpretation tl: linked_stack task_list_repr "\<lambda>x. x \<noteq> 0" doubly_ll_insert doubly_ll_remove
proof unfold_locales
  fix s :: "'w proc_state" and xs x
  assume "task_list_repr s xs" "x \<noteq> 0" "x \<notin> set xs"
  then show "task_list_repr (doubly_ll_insert x s) (x # xs)" by (rule task_insert_repr)
next
  fix s :: "'w proc_state" and x xs
  assume "task_list_repr s (x # xs)"
  then show "task_list_repr (doubly_ll_remove x s) xs"
    using task_remove_repr [of s "[]" x xs] by (auto simp: task_list_repr_def)
qed

text \<open>
  C22. The list of tasks is a stack: inserting tasks that are not in it and removing them in the opposite order
  leaves the list with the same members in the same order, linked in both directions.
\<close>

theorem task_list_lifo:
  assumes "task_list_repr s xs" and "\<forall>y \<in> set ys. y \<noteq> 0" and "distinct (ys @ xs)"
  shows "task_list_repr (fold doubly_ll_insert ys s) (rev ys @ xs) \<and>
    task_list_repr (fold doubly_ll_remove (rev ys) (fold doubly_ll_insert ys s)) xs"
  using tl.repr_push_all [OF assms] tl.repr_lifo [OF assms] by blast

text \<open>
  Removing a task that is not the first one loses all the tasks before it: the list becomes the part behind
  the task.
\<close>

theorem task_remove_loses:
  assumes "task_list_repr s (y # ys @ x # zs)"
  shows "pr_task_list (doubly_ll_remove x s) = (case zs of [] \<Rightarrow> 0 | z # _ \<Rightarrow> z) \<and>
    pr_task_list (doubly_ll_remove x s) \<noteq> y"
proof -
  have "pr_task_list (doubly_ll_remove x s) = (case zs of [] \<Rightarrow> 0 | z # _ \<Rightarrow> z)"
    using task_remove_repr [of s "y # ys" x zs] assms by simp
  moreover have "y \<noteq> 0" "y \<notin> set zs" using assms by (auto simp: task_list_repr_def)
  ultimately show ?thesis by (auto split: list.splits)
qed

definition blank_task :: task where
  "blank_task = \<lparr>tk_pd = 0, tk_reg = replicate 8 0, tk_eip = 0, tk_esp = 0, tk_map_addr = 0, tk_map_page_num = 0,
     tk_state = EMPTY, tk_id = 0, tk_buddy = 0, tk_exec_node = None, tk_next = 0, tk_prev = 0\<rparr>"

text \<open>A system without tasks on the paging state \<open>bump_paging\<close>, with the ram disk of \<open>usr_rd\<close>.\<close>

definition demo_proc :: "u32 proc_state" where
  "demo_proc = \<lparr>pr_task = (\<lambda>_. blank_task), pr_task_list = 0, pr_cur_task = 0x100, pr_task_slab = 0, pr_last_kernel_tid = 0,
     pr_last_user_tid = 1000, pr_ready_schedule = False, pr_event = (\<lambda>_. \<lparr>pe_cb = 0, pe_priority = 0, pe_period_ms = 0,
     pe_last_call_tick = 0, pe_next = 0, pe_next_in_queue = 0\<rparr>), pr_events = 0, pr_event_queue = 0, pr_buddy = (\<lambda>_. one_page_buddy),
     pr_kern_buddy = 0, pr_rd = usr_rd, pr_fs = usr_fs, pr_bytes = usr_bytes, pr_paging = bump_paging,
     pr_int_enabled = True, pr_user = None\<rparr>"

lemma demo_proc_list: "task_list_repr demo_proc []"
  by (simp add: task_list_repr_def demo_proc_def)

theorem task_list_lifo_witness:
  "task_list_repr (fold doubly_ll_insert [0x100, 0x200] demo_proc) [0x200, 0x100]"
  using task_list_lifo [OF demo_proc_list, of "[0x100, 0x200]"] by simp

section \<open>The queue of events\<close>

fun event_chain :: "(u32 \<Rightarrow> pit_event) \<Rightarrow> u32 \<Rightarrow> u32 list \<Rightarrow> bool" where
  "event_chain ev p [] \<longleftrightarrow> p = 0"
| "event_chain ev p (x # xs) \<longleftrightarrow> p = x \<and> x \<noteq> 0 \<and> event_chain ev (pe_next_in_queue (ev x)) xs"

definition event_queue_repr :: "'w proc_state \<Rightarrow> u32 list \<Rightarrow> bool" where
  "event_queue_repr s xs \<longleftrightarrow> event_chain (pr_event s) (pr_event_queue s) xs \<and> distinct xs"

lemma event_chain_upd: "e \<notin> set xs \<Longrightarrow> event_chain (ev(e := v)) p xs = event_chain ev p xs"
  by (induction xs arbitrary: p) auto

text \<open>The queue of timer events is a second list of the same kind, and the loop over it returns.\<close>

interpretation eq: linked_stack event_queue_repr "\<lambda>x. x \<noteq> 0" insert_invent_in_queue remove_event_from_queue
  by unfold_locales
    (auto simp: event_queue_repr_def insert_invent_in_queue_def remove_event_from_queue_def Let_def event_chain_upd)

lemma event_loop_returns: "event_chain (pr_event s) p xs \<Longrightarrow> event_loop p s = Some s"
  by (induction xs arbitrary: p) (subst event_loop.simps; simp)+

theorem pit_event_loop_returns:
  "event_queue_repr s [] \<Longrightarrow> \<forall>e \<in> set es. e \<noteq> 0 \<Longrightarrow> distinct es \<Longrightarrow>
    pit_event_loop (fold insert_invent_in_queue es s) = Some (fold insert_invent_in_queue es s)"
  using eq.repr_push_all [of s "[]" es] event_loop_returns
  by (fastforce simp: pit_event_loop_def event_queue_repr_def)

section \<open>The scheduler\<close>

definition wake :: "u32 set \<Rightarrow> 'w proc_state \<Rightarrow> 'w proc_state" where
  "wake ts s =
     s\<lparr>pr_task := (\<lambda>t. if t \<in> ts \<and> tk_state (pr_task s t) = EMPTY then (pr_task s t)\<lparr>tk_state := RUNNING\<rparr> else pr_task s t),
       pr_ready_schedule := (pr_ready_schedule s \<or> (\<exists>t \<in> ts. tk_state (pr_task s t) = EMPTY))\<rparr>"

text \<open>Waking only moves tasks on in the order of their states.\<close>

lemma wake_mono: "tk_state (pr_task s t) \<le> tk_state (pr_task (wake ts s) t)"
  by (simp add: wake_def less_eq_task_state_def)

lemma schedule_loop_wake:
  "task_chain (pr_task s) p q xs \<Longrightarrow> distinct xs \<Longrightarrow> schedule_loop p s = Some (wake (set xs) s)"
proof (induction xs arbitrary: p q s)
  case Nil
  then show ?case by (subst schedule_loop.simps) (simp add: wake_def)
next
  case (Cons x xs)
  have c: "p = x" "x \<noteq> 0" "task_chain (pr_task s) (tk_next (pr_task s x)) x xs" "x \<notin> set xs" "distinct xs"
    using Cons.prems by auto
  let ?t = "wake {x} s"
  have n: "tk_next (pr_task ?t y) = tk_next (pr_task s y)" "tk_prev (pr_task ?t y) = tk_prev (pr_task s y)" for y
    by (simp_all add: wake_def)
  then have "task_chain (pr_task ?t) (tk_next (pr_task s x)) x xs"
    using c(3) task_chain_cong [of xs "pr_task ?t" "pr_task s"] by simp
  from Cons.IH [OF this c(5)] have "schedule_loop (tk_next (pr_task s x)) ?t = Some (wake (set xs) ?t)" .
  moreover have "schedule_loop p s = schedule_loop (tk_next (pr_task ?t x)) ?t"
  proof -
    have "(if tk_state (pr_task s x) = EMPTY
        then (upd_task x (\<lambda>t. t\<lparr>tk_state := RUNNING\<rparr>) s)\<lparr>pr_ready_schedule := True\<rparr> else s) = ?t"
      by (auto simp: wake_def upd_task_def fun_eq_iff)
    then show ?thesis unfolding c(1) by (subst schedule_loop.simps) (simp only: Let_def c(2) if_False)
  qed
  moreover have "wake (set xs) ?t = wake (set (x # xs)) s"
  proof (rule proc_state.equality)
    show "pr_task (wake (set xs) ?t) = pr_task (wake (set (x # xs)) s)" using c(4) by (auto simp: wake_def fun_eq_iff)
    show "pr_ready_schedule (wake (set xs) ?t) = pr_ready_schedule (wake (set (x # xs)) s)" using c(4) by (auto simp: wake_def)
  qed (simp_all add: wake_def)
  ultimately show ?case by (simp add: n)
qed

text \<open>
  C20. The scheduler returns on a list of tasks and marks exactly the tasks of the list that were new as running;
  it sets the flag for a ready task when there was one, and changes nothing else.
\<close>

theorem schedule_wakes:
  assumes "task_list_repr s xs"
  shows "schedule s = Some (wake (set xs) s)"
  using schedule_loop_wake [of s "pr_task_list s" 0 xs] assms by (simp add: schedule_def task_list_repr_def)

theorem schedule_wakes_witness:
  "\<exists>s'. schedule (doubly_ll_insert 0x100 demo_proc) = Some s' \<and> tk_state (pr_task s' 0x100) = RUNNING"
proof -
  have "task_list_repr (doubly_ll_insert 0x100 demo_proc) [0x100]" using tl.repr_push [OF demo_proc_list, of "0x100"] by simp
  moreover have "tk_state (pr_task (doubly_ll_insert 0x100 demo_proc) 0x100) = EMPTY"
    by (simp add: doubly_ll_insert_def upd_task_def demo_proc_def blank_task_def Let_def)
  ultimately show ?thesis
    using schedule_wakes [of "doubly_ll_insert 0x100 demo_proc" "[0x100]"] by (auto simp: wake_def)
qed

section \<open>Making and replacing tasks\<close>

text \<open>Calls of the memory components leave the tasks alone.\<close>

definition same_tasks :: "'w proc_state \<Rightarrow> 'w proc_state \<Rightarrow> bool" where
  "same_tasks s s' \<longleftrightarrow> pr_task s' = pr_task s \<and> pr_task_list s' = pr_task_list s \<and> pr_cur_task s' = pr_cur_task s \<and>
     pr_last_user_tid s' = pr_last_user_tid s \<and> pr_last_kernel_tid s' = pr_last_kernel_tid s \<and>
     pr_ready_schedule s' = pr_ready_schedule s"

lemma with_mem_same: "with_mem f s = Inr (r, s') \<Longrightarrow> same_tasks s s'"
  by (auto simp: with_mem_def bindE_Inr_iff same_tasks_def)

lemma with_space_same: "with_space p f s = Inr (r, s') \<Longrightarrow> same_tasks s s'"
  by (auto simp: with_space_def bindE_Inr_iff same_tasks_def)

lemma new_buddy_same: "new_buddy f b s = Inr (r, s') \<Longrightarrow> same_tasks s s'"
  by (auto simp: new_buddy_def bindE_Inr_iff same_tasks_def)

text \<open>The numbers of the tasks \<open>L\<close>: below 1000 for the kernel, from 1000 on for users, none above the last one given.\<close>

definition ids_ok :: "'w proc_state \<Rightarrow> u32 set \<Rightarrow> bool" where
  "ids_ok s L \<longleftrightarrow> pr_last_kernel_tid s < 1000 \<and> pr_last_user_tid s \<ge> 1000 \<and>
     inj_on (\<lambda>t. tk_id (pr_task s t)) L \<and>
     (\<forall>t \<in> L. tk_id (pr_task s t) \<le> pr_last_kernel_tid s \<or>
        1000 \<le> tk_id (pr_task s t) \<and> tk_id (pr_task s t) \<le> pr_last_user_tid s)"

lemma fork_task_result:
  assumes "fork_task ops uninit new s = Inr (ret, s')" and "new \<noteq> pr_cur_task s" and "ret = 0"
  shows "(\<forall>t. t \<noteq> new \<longrightarrow> pr_task s' t = pr_task s t) \<and> pr_task_list s' = pr_task_list s \<and>
    pr_cur_task s' = pr_cur_task s \<and> tk_state (pr_task s' new) = IDLE \<and>
    (if tk_id (pr_task s (pr_cur_task s)) \<ge> 1000
     then tk_id (pr_task s' new) = pr_last_user_tid s + 1 \<and> pr_last_user_tid s' = pr_last_user_tid s + 1 \<and>
       pr_last_kernel_tid s' = pr_last_kernel_tid s
     else tk_id (pr_task s' new) = pr_last_kernel_tid s + 1 \<and> pr_last_kernel_tid s' = pr_last_kernel_tid s + 1 \<and>
       pr_last_user_tid s' = pr_last_user_tid s)"
proof -
  have E: "ENOMEM \<noteq> 0" by (simp add: ENOMEM_def)
  obtain pd s1 where m: "with_mem (mo_kmalloc ops 12) (upd_task new (\<lambda>_. pr_task s (pr_cur_task s)) s) = Inr (pd, s1)"
    using assms(1) by (auto simp: fork_task_def Let_def bindE_Inr_iff split: if_splits)
  note s1 = with_mem_same [OF m, unfolded same_tasks_def]
  show ?thesis
    using assms m s1 E
    by (auto simp: fork_task_def Let_def upd_task_def bindE_Inr_iff split: if_splits
        dest!: with_space_same simp: same_tasks_def)
qed

text \<open>
  C19. The numbers of tasks stay unique: when no task has a number above the last one given, a successful
  \<open>fork_task\<close> gives the new task a number that no task has, of the class of its parent, and the invariant
  holds with the new task, as long as the class has numbers left.
\<close>

theorem fork_task_fresh_id:
  assumes "ids_ok s L" and "pr_cur_task s \<in> L" and "new \<notin> L"
    and "fork_task ops uninit new s = Inr (0, s')"
    and "pr_last_kernel_tid s < 999" and "pr_last_user_tid s < 0xFFFFFFFF"
  shows "ids_ok s' (insert new L) \<and>
    (tk_id (pr_task s' new) \<ge> 1000 \<longleftrightarrow> tk_id (pr_task s (pr_cur_task s)) \<ge> 1000)"
proof -
  have ne: "new \<noteq> pr_cur_task s" using assms(2,3) by blast
  note r = fork_task_result [OF assms(4) ne refl]
  have ku: "unat (pr_last_kernel_tid s + 1) = unat (pr_last_kernel_tid s) + 1"
    "unat (pr_last_user_tid s + 1) = unat (pr_last_user_tid s) + 1"
    using assms(5,6) by (simp_all add: word_less_nat_alt unat_u32_add)
  have b: "unat (pr_last_kernel_tid s) < 999" "1000 \<le> unat (pr_last_user_tid s)"
    using assms(1,5) by (simp_all add: ids_ok_def word_less_nat_alt word_le_nat_alt)
  have old: "tk_id (pr_task s' t) = tk_id (pr_task s t)" if "t \<in> L" for t using r that assms(3) by auto
  have L: "unat (tk_id (pr_task s t)) \<le> unat (pr_last_kernel_tid s) \<or>
      1000 \<le> unat (tk_id (pr_task s t)) \<and> unat (tk_id (pr_task s t)) \<le> unat (pr_last_user_tid s)" if "t \<in> L" for t
    using assms(1) that by (simp add: ids_ok_def word_le_nat_alt)
  have inj: "inj_on (\<lambda>t. tk_id (pr_task s' t)) L" using assms(1) old by (simp add: ids_ok_def inj_on_def)
  show ?thesis
  proof (cases "tk_id (pr_task s (pr_cur_task s)) \<ge> 1000")
    case True
    then have n: "tk_id (pr_task s' new) = pr_last_user_tid s + 1" "pr_last_user_tid s' = pr_last_user_tid s + 1"
      "pr_last_kernel_tid s' = pr_last_kernel_tid s" using r by simp_all
    have "tk_id (pr_task s' t) \<noteq> tk_id (pr_task s' new)" if "t \<in> L" for t
      using L [OF that] old [OF that] ku b n(1) by auto
    then have "inj_on (\<lambda>t. tk_id (pr_task s' t)) (insert new L)" using inj assms(3) unfolding inj_on_insert by fastforce
    moreover have "tk_id (pr_task s' t) \<le> pr_last_kernel_tid s' \<or>
        1000 \<le> tk_id (pr_task s' t) \<and> tk_id (pr_task s' t) \<le> pr_last_user_tid s'" if "t \<in> L" for t
      using L [OF that] old [OF that] ku n by (auto simp: word_le_nat_alt)
    ultimately show ?thesis using True n ku b by (auto simp: ids_ok_def word_le_nat_alt word_less_nat_alt)
  next
    case False
    then have n: "tk_id (pr_task s' new) = pr_last_kernel_tid s + 1" "pr_last_kernel_tid s' = pr_last_kernel_tid s + 1"
      "pr_last_user_tid s' = pr_last_user_tid s" using r by simp_all
    have "tk_id (pr_task s' t) \<noteq> tk_id (pr_task s' new)" if "t \<in> L" for t
      using L [OF that] old [OF that] ku b n(1) by auto
    then have "inj_on (\<lambda>t. tk_id (pr_task s' t)) (insert new L)" using inj assms(3) unfolding inj_on_insert by fastforce
    moreover have "tk_id (pr_task s' t) \<le> pr_last_kernel_tid s' \<or>
        1000 \<le> tk_id (pr_task s' t) \<and> tk_id (pr_task s' t) \<le> pr_last_user_tid s'" if "t \<in> L" for t
      using L [OF that] old [OF that] ku n by (auto simp: word_le_nat_alt)
    ultimately show ?thesis using False n ku b by (auto simp: ids_ok_def word_le_nat_alt word_less_nat_alt)
  qed
qed

text \<open>On the demonstration state a task can be copied: the pages of its directory are no user's pages.\<close>

lemma demo_fork_task: "\<exists>s'. fork_task bump_ops 0 0x200 demo_proc = Inr (0, s')"
proof -
  let ?s = "bump_paging\<lparr>pg_mem := 0x400C, pg_pd := (pg_pd bump_paging)(0x4000 := zero_pd)\<rparr>"
  have a: "apart 0x1000 1024 0x2000 1024 \<and> apart 0x1000 1024 0x400C 1024 \<and> apart 0x1000 1024 0x500C 1024 \<and>
      apart 0x2000 1024 0x400C 1024 \<and> apart 0x2000 1024 0x500C 1024 \<and> apart 0x400C 1024 0x500C 1024"
    by (simp add: apartI)
  have o: "po_kmalloc_align bump_ops PAGE_SIZE PAGE_SIZE (pg_mem ?s) = Inr (0x400C, 0x500C)"
    "mo_kmalloc bump_ops PAGE_SIZE 0x500C = Inr (0x500C, 0x600C)" by (simp_all add: bump_ops_def)
  have d: "0x1000 = page_tables (pg_pd ?s 64)" "0x2000 = page_tables_virt (pg_pd ?s 64)" by (simp_all add: bump_paging_def)
  have u: "\<forall>i < 1024. \<not> user_entry (pt_entry 64 ?s (word_of_nat i))"
    by (auto simp: pt_entry_def elem_def bump_paging_def user_entry_def)
  have "\<exists>s'. clone_page_dir bump_ops 0 64 0x4000 one_page_buddy ?s = Inr (0, one_page_buddy, s')"
    by (rule clone_page_dir_kernel [OF _ _ _ o(1) _ o(2) _ d a u, of "0x4000" 0 one_page_buddy], simp, simp, simp, simp, simp, rule exI)
  then show ?thesis
    by (auto simp: fork_task_def with_mem_def with_space_def upd_task_def demo_proc_def clone_cur_page_dir_def
        bump_ops_def bump_paging_def Let_def)
qed

theorem fork_task_fresh_id_witness:
  "\<exists>s'. fork_task bump_ops 0 0x200 demo_proc = Inr (0, s') \<and> ids_ok s' {0x100, 0x200}"
proof -
  obtain s' where "fork_task bump_ops 0 0x200 demo_proc = Inr (0, s')" using demo_fork_task by blast
  moreover have "ids_ok demo_proc {0x100}" by (simp add: ids_ok_def demo_proc_def blank_task_def)
  ultimately show ?thesis using fork_task_fresh_id [of demo_proc "{0x100}" "0x200" bump_ops 0 s']
    by (simp add: demo_proc_def insert_commute)
qed

text \<open>
  A forked task is never run: \<open>fork\<close> returns 0 and leaves the list of tasks, and every task in it, as it is, so
  that the scheduler does not find the new task.
\<close>

theorem fork_not_listed:
  assumes "fork ops uninit b0 s = Inr (ret, s')" and "task_list_repr s xs"
    and "mo_slab_alloc ops (pr_task_slab s) (pg_mem (pr_paging s)) = Inr (new, w)" and "new \<notin> set xs" and "new \<noteq> pr_cur_task s"
  shows "ret = 0 \<and> task_list_repr s' xs"
proof -
  obtain s1 s2 s3 r2 p where s: "with_mem (mo_slab_alloc ops (pr_task_slab s)) s = Inr (new, s1)"
    "fork_task ops uninit new s1 = Inr (r2, s2)" "same_tasks s2 s3" "ret = 0" "s' = upd_task new (\<lambda>t. t\<lparr>tk_buddy := p\<rparr>) s3"
    using assms(1,3) by (auto simp: fork_def bindE_Inr_iff with_mem_def dest: new_buddy_same)
  note s1 = with_mem_same [OF s(1), unfolded same_tasks_def]
  have t2: "pr_task s2 t = pr_task s1 t" "pr_task_list s2 = pr_task_list s1" if "t \<noteq> new" for t
    using s(2) that
    by (auto simp: fork_task_def Let_def upd_task_def bindE_Inr_iff same_tasks_def split: if_splits
        dest!: with_space_same with_mem_same)
  have "pr_task s' t = pr_task s t" "pr_task_list s' = pr_task_list s" if "t \<noteq> new" for t
    using t2 that s1 s(3,5) by (auto simp: same_tasks_def upd_task_def)
  then have "task_chain (pr_task s') (pr_task_list s') 0 xs = task_chain (pr_task s) (pr_task_list s) 0 xs"
    using assms(4,5) task_chain_cong [of xs "pr_task s'" "pr_task s"] by (metis (no_types))
  then show ?thesis using assms(2) s(4) by (simp add: task_list_repr_def)
qed



end
