(* ===== verification/Syscalls.thy ===== *)
theory Syscalls
  imports Tasks Peripherals Framebuffer
begin

text \<open>
  System calls, \<open>src/kernel/syscall.c\<close>, and the reports of errors, \<open>src/kernel/error.c\<close>.

  The state \<open>sys_state\<close> puts the tasks, the drivers and the console together. The arguments of a system call are
  the words of the stack behind the call number, a function of their index, as \<open>va_arg\<close> reads them: how many of
  them the caller pushed is not known to \<open>syscall_exec\<close>. The bytes that a pointer argument points to are those of
  \<open>pr_bytes\<close>. The gate of interrupt 0x80 disables interrupts, so that no key arrives during a call.
  \<open>syscall_setup\<close> is assembler; it is modelled by the registers it writes.
\<close>

section \<open>State\<close>

record ('d, 'w) sys_state =
  sy_proc :: "'w proc_state"
  sy_kst :: "'d kst"
  sy_fb :: fb_state
  sy_sysenter_avl :: bool
  sy_msr :: "u32 \<Rightarrow> u32"

type_synonym va_list = "nat \<Rightarrow> u32"

section \<open>Operations\<close>

text \<open>The zero ends the text for the console.\<close>

definition sys_write :: "u32 \<Rightarrow> u32 \<Rightarrow> ('d, 'w) sys_state \<Rightarrow> u32 \<times> ('d, 'w) sys_state" where
  "sys_write msg len s =
     (let (_, fb) = fb_nprint_black (cstrn (pr_bytes (sy_proc s)) msg (unat len)) len (sy_fb s)
      in (len, s\<lparr>sy_fb := fb\<rparr>))"

definition sys_exit :: "'w page_ops \<Rightarrow> u32 \<Rightarrow> ('d, 'w) sys_state \<Rightarrow> fault + u32 \<times> ('d, 'w) sys_state" where
  "sys_exit ops code s = bindE (exit_task ops code (sy_proc s)) (\<lambda>p. Inr (0, s\<lparr>sy_proc := p\<rparr>))"

definition sys_fork ::
  "'w page_ops \<Rightarrow> u32 \<Rightarrow> 'w buddy_state \<Rightarrow> ('d, 'w) sys_state \<Rightarrow> fault + u32 \<times> ('d, 'w) sys_state" where
  "sys_fork ops uninit b0 s =
     bindE (fork ops uninit b0 (sy_proc s)) (\<lambda>(ret, p). Inr (word_of_int ret, s\<lparr>sy_proc := p\<rparr>))"

text \<open>A word is stored with its low byte first.\<close>

definition store_word :: "u32 \<Rightarrow> u32 \<Rightarrow> mem8 \<Rightarrow> mem8" where
  "store_word a v m = m(a := ucast v, a + 1 := ucast (drop_bit 8 v), a + 2 := ucast (drop_bit 16 v), a + 3 := ucast (drop_bit 24 v))"

definition sys_read :: "u32 \<Rightarrow> u32 \<Rightarrow> ('d, 'w) sys_state \<Rightarrow> u32 \<times> ('d, 'w) sys_state" where
  "sys_read buf cnt s =
     (let p = sy_proc s;
          m = foldl (\<lambda>m i. store_word (buf + 4 * word_of_nat i) (kbd_read (sy_kst s)) m) (pr_bytes p) [0..<unat cnt]
      in (cnt, s\<lparr>sy_proc := p\<lparr>pr_bytes := m\<rparr>\<rparr>))"

definition sys_execve :: "'w page_ops \<Rightarrow> u32 \<Rightarrow> ('d, 'w) sys_state \<Rightarrow> fault + u32 \<times> ('d, 'w) sys_state" where
  "sys_execve ops exec_name s =
     bindE (execve ops exec_name (sy_proc s)) (\<lambda>(ret, p). Inr (word_of_int ret, s\<lparr>sy_proc := p\<rparr>))"

definition sys_echo :: "u32 \<Rightarrow> ('d, 'w) sys_state \<Rightarrow> u32 \<times> ('d, 'w) sys_state" where
  "sys_echo len s = (len, s\<lparr>sy_fb := fb_newline (fb_print_num len (sy_fb s))\<rparr>)"

section \<open>Dispatch\<close>

datatype syscall_f = Sys_read_v | Sys_write_v | Sys_fork_v | Sys_execve_v | Sys_exit_v

text \<open>The designated initialisers leave null pointers between the entries.\<close>

definition syscall_table :: "syscall_f option list" where
  "syscall_table = (replicate 61 None)
     [0 := Some Sys_read_v, 1 := Some Sys_write_v, 2 := Some Sys_fork_v, 59 := Some Sys_execve_v, 60 := Some Sys_exit_v]"

definition call_syscall ::
  "'w page_ops \<Rightarrow> u32 \<Rightarrow> 'w buddy_state \<Rightarrow> syscall_f \<Rightarrow> va_list \<Rightarrow> ('d, 'w) sys_state \<Rightarrow>
     fault + u32 \<times> ('d, 'w) sys_state" where
  "call_syscall ops uninit b0 f args s =
     (case f of
        Sys_read_v \<Rightarrow> Inr (sys_read (args 0) (args 1) s)
      | Sys_write_v \<Rightarrow> Inr (sys_write (args 0) (args 1) s)
      | Sys_fork_v \<Rightarrow> sys_fork ops uninit b0 s
      | Sys_execve_v \<Rightarrow> sys_execve ops (args 0) s
      | Sys_exit_v \<Rightarrow> sys_exit ops (args 0) s)"

text \<open>The number is a signed integer and is used as index without a check.\<close>

definition syscall_exec ::
  "'w page_ops \<Rightarrow> u32 \<Rightarrow> 'w buddy_state \<Rightarrow> u32 \<Rightarrow> va_list \<Rightarrow> ('d, 'w) sys_state \<Rightarrow>
     fault + u32 \<times> ('d, 'w) sys_state" where
  "syscall_exec ops uninit b0 num args s =
     (if sint num < 0 \<or> sint num \<ge> int (length syscall_table) then Inl OutOfBounds
      else case syscall_table ! nat (sint num) of
             None \<Rightarrow> Inl NullDeref
           | Some f \<Rightarrow> call_syscall ops uninit b0 f args s)"

definition scall_s :: "u32 \<Rightarrow> ('d, 'w) sys_state \<Rightarrow> ('d, 'w) sys_state" where
  "scall_s esp s = s\<lparr>sy_kst := klog ''Int 0x80 %x'' (sy_kst s)\<rparr>"

text \<open>\<open>sep\<close> is the answer of the processor on the instruction \<open>sysenter\<close>; \<open>stack\<close> and \<open>entry\<close> are the addresses of
  \<open>kernel_int_stack_end\<close> and \<open>scall_wrapper\<close>.\<close>

definition syscall_setup :: "bool \<Rightarrow> u32 \<Rightarrow> u32 \<Rightarrow> ('d, 'w) sys_state \<Rightarrow> ('d, 'w) sys_state" where
  "syscall_setup sep stack entry s =
     (if sep then s\<lparr>sy_sysenter_avl := True, sy_msr := (sy_msr s)(0x174 := 0x8, 0x175 := stack, 0x176 := entry)\<rparr>
      else s\<lparr>sy_sysenter_avl := False\<rparr>)"

definition syscall_init :: "'d bus \<Rightarrow> bool \<Rightarrow> u32 \<Rightarrow> u32 \<Rightarrow> ('d, 'w) sys_state \<Rightarrow> ('d, 'w) sys_state" where
  "syscall_init b sep stack entry s =
     syscall_setup sep stack entry
       (s\<lparr>sy_kst := snd (add_isr_handler b 0x80 Scall_wrapper (IDTD_RING3 OR IDTD_DEFAULT) (sy_kst s))\<rparr>)"

section \<open>Errors\<close>

abbreviation FB_LIGHT_RED :: u8 where "FB_LIGHT_RED \<equiv> 12"
abbreviation FB_LIGHT_CYAN :: u8 where "FB_LIGHT_CYAN \<equiv> 11"

definition klog_console :: "u8 list \<Rightarrow> farg list \<Rightarrow> fb_state \<Rightarrow> fb_state option" where
  "klog_console msg args s = map_option snd (fb_vprintf msg args s)"

definition debug_log :: "u8 list \<Rightarrow> farg list \<Rightarrow> fb_state \<Rightarrow> fb_state option" where
  "debug_log msg args s = map_option snd (fb_vprintf msg args s)"

definition klog_warn :: "u8 list \<Rightarrow> farg list \<Rightarrow> fb_state \<Rightarrow> fb_state option" where
  "klog_warn msg args s = map_option snd (fb_vprintf_color msg FB_LIGHT_CYAN FB_BLACK args s)"

definition klog_error :: "u8 list \<Rightarrow> farg list \<Rightarrow> fb_state \<Rightarrow> fb_state option" where
  "klog_error msg args s = map_option snd (fb_vprintf_color msg FB_LIGHT_RED FB_BLACK args s)"

text \<open>\<open>None\<close> is a message whose format needs an argument.\<close>

definition error :: "u8 list \<Rightarrow> u32 \<Rightarrow> fb_state \<Rightarrow> fb_state option" where
  "error msg type s = do {
     s \<leftarrow> klog_error msg [] s;
     s \<leftarrow> klog_error (text_bytes ''Error type: '') [] s;
     Some (fb_print_num type s)
   }"

text \<open>\<open>panic\<close> does not return; the result is what the console shows when the processor stops.\<close>

definition panic :: "u8 list \<Rightarrow> u32 \<Rightarrow> fb_state \<Rightarrow> fb_state option" where
  "panic msg type s = do {
     s \<leftarrow> klog_error ([10] @ text_bytes ''PANIC'' @ [10]) [] s;
     klog_error msg [] s
   }"

text \<open>\<open>reboot\<close> does not return either: the result is the state when the processor is halted for the last time.\<close>

partial_function (option) drain_ps2 :: "'d bus \<Rightarrow> u8 \<Rightarrow> 'd kst \<Rightarrow> 'd kst option" where
  "drain_ps2 b temp s = (if temp AND 1 \<noteq> 0 then let (t, s) = ps2_read_data b s in drain_ps2 b t s else Some s)"

declare drain_ps2.simps [code]

abbreviation PS2_RESET :: u8 where "PS2_RESET \<equiv> 0xFE"

definition reboot :: "'d bus \<Rightarrow> 'd kst \<Rightarrow> 'd kst option" where
  "reboot b s =
     (let s = trace_event Cli s;
          (temp, s) = ps2_read_status b s
      in do { s \<leftarrow> drain_ps2 b temp s; Some (ps2_write_cmd b PS2_RESET s) })"

section \<open>Numbers of system calls\<close>

lemma syscall_table_nth:
  "n < 61 \<Longrightarrow> syscall_table ! n =
    (if n = 0 then Some Sys_read_v else if n = 1 then Some Sys_write_v else if n = 2 then Some Sys_fork_v
     else if n = 59 then Some Sys_execve_v else if n = 60 then Some Sys_exit_v else None)"
  by (simp add: syscall_table_def nth_list_update)

lemma length_syscall_table [simp]: "length syscall_table = 61"
  by (simp add: syscall_table_def)

lemma uint_sint_u32: "uint (x :: u32) = (if sint x < 0 then sint x + 4294967296 else sint x)"
proof -
  have u: "uint x = sint x mod 4294967296" using uint_sint [of x] by (simp add: take_bit_eq_mod)
  have b: "- 2147483648 \<le> sint x" "sint x < 2147483648" using sint_ge [of x] sint_lt [of x] by simp_all
  have "sint x mod 4294967296 = (sint x + 4294967296) mod 4294967296" by simp
  then show ?thesis using u b mod_pos_pos_trivial [of "sint x" 4294967296]
    mod_pos_pos_trivial [of "sint x + 4294967296" 4294967296] by (simp only: split: if_split) linarith
qed

lemma sint_small_iff: "(0 \<le> sint (x :: u32) \<and> sint x < 61) \<longleftrightarrow> unat x < 61"
proof -
  have "- 2147483648 \<le> sint x" using sint_ge [of x] by simp
  moreover have "unat x < 61 \<longleftrightarrow> uint x < 61" using nat_less_iff [of "uint x" 61] by simp
  ultimately show ?thesis using uint_sint_u32 [of x] by (simp only: split: if_split) linarith
qed


section \<open>Reading keys\<close>

lemma unat_diff_u32: "unat ((x :: u32) - y) = (if unat y \<le> unat x then unat x - unat y else unat x + 4294967296 - unat y)"
  using unat_sub_if_size [of x y] by (simp add: word_size)

lemma store_word_at:
  "store_word p v m a = (if unat (a - p) < 4 then ucast (drop_bit (8 * unat (a - p)) v) else m a)"
proof (cases "unat (a - p) < 4")
  case True
  then have "unat (a - p) \<in> {0, 1, 2, 3}" by auto
  then have "a - p \<in> {0, 1, 2, 3}" by (auto simp: word_unat_eq_iff)
  then have "a \<in> {p, p + 1, p + 2, p + 3}" by (auto simp: diff_eq_eq add.commute)
  then show ?thesis by (auto simp: store_word_def)
next
  case False
  then have "a - p \<notin> {0, 1, 2, 3}" by auto
  then have "a \<notin> {p, p + 1, p + 2, p + 3}" by auto
  then show ?thesis using False by (simp add: store_word_def)
qed

lemma store_words_at:
  fixes m :: mem8
  assumes "4 * n \<le> 4294967296"
  shows "foldl (\<lambda>m i. store_word (buf + 4 * word_of_nat i) v m) m [0..<n] a =
    (if unat (a - buf) < 4 * n then ucast (drop_bit (8 * (unat (a - buf) mod 4)) v) else m a)"
  using assms
proof (induction n)
  case (Suc n)
  have "unat (4 * word_of_nat n :: u32) = 4 * n" using Suc.prems by (simp add: unat_word_ariths unat_of_nat)
  then have d: "unat (a - (buf + 4 * word_of_nat n)) =
      (if 4 * n \<le> unat (a - buf) then unat (a - buf) - 4 * n else unat (a - buf) + 4294967296 - 4 * n)"
    using unat_diff_u32 [of "a - buf" "4 * word_of_nat n"] by (simp add: diff_diff_eq)
  have "(unat (a - buf) - 4 * n) = unat (a - buf) mod 4" if "4 * n \<le> unat (a - buf)" "unat (a - buf) < 4 * Suc n"
  proof -
    have "unat (a - buf) = (unat (a - buf) - 4 * n) + n * 4" using that by simp
    then have "unat (a - buf) mod 4 = (unat (a - buf) - 4 * n) mod 4" by (metis mod_mult_self1)
    then show ?thesis using that by simp
  qed
  then show ?case using Suc by (auto simp: store_word_at d)
qed simp

text \<open>
  C29. \<open>sys_read\<close> of \<open>count\<close> characters returns \<open>count\<close> but stores a word for each: exactly the \<open>4 * count\<close>
  bytes from \<open>buf\<close> on change, whatever the size of the buffer, and hold the last key again and again.
\<close>

theorem sys_read_overruns:
  assumes "4 * unat cnt \<le> 4294967296"
  shows "\<exists>m. sys_read buf cnt s = (cnt, s\<lparr>sy_proc := (sy_proc s)\<lparr>pr_bytes := m\<rparr>\<rparr>) \<and>
    (\<forall>a. m a = (if unat (a - buf) < 4 * unat cnt
                then ucast (drop_bit (8 * (unat (a - buf) mod 4)) (k_kbd_buf (sy_kst s))) else pr_bytes (sy_proc s) a))"
  using store_words_at [OF assms] by (auto simp: sys_read_def kbd_read_def Let_def)

definition demo_sys :: "(u32 list, u32) sys_state" where
  "demo_sys = \<lparr>sy_proc = demo_proc\<lparr>pr_bytes := (\<lambda>_. 1)\<rparr>, sy_kst = (kst_script [])\<lparr>k_kbd_buf := 97\<rparr>, sy_fb = fb_blank,
     sy_sysenter_avl = False, sy_msr = (\<lambda>_. 0)\<rparr>"

theorem sys_read_overruns_witness:
  "\<exists>m. sys_read 0x1000 1 demo_sys = (1, demo_sys\<lparr>sy_proc := (sy_proc demo_sys)\<lparr>pr_bytes := m\<rparr>\<rparr>) \<and>
    m 0x1000 = 97 \<and> m 0x1003 = 0 \<and> m 0x1004 = 1"
proof -
  obtain m where m: "sys_read 0x1000 1 demo_sys = (1, demo_sys\<lparr>sy_proc := (sy_proc demo_sys)\<lparr>pr_bytes := m\<rparr>\<rparr>)"
    "\<And>a. m a = (if unat (a - 0x1000) < 4 * unat (1 :: u32)
       then ucast (drop_bit (8 * (unat (a - 0x1000) mod 4)) (k_kbd_buf (sy_kst demo_sys))) else pr_bytes (sy_proc demo_sys) a)"
    using sys_read_overruns [of 1 "0x1000" demo_sys] by auto
  have "k_kbd_buf (sy_kst demo_sys) = 97" "pr_bytes (sy_proc demo_sys) = (\<lambda>_. 1)" by (simp_all add: demo_sys_def)
  then have "m 0x1000 = 97 \<and> m 0x1003 = 0 \<and> m 0x1004 = 1" by (simp add: m(2))
  then show ?thesis using m(1) by blast
qed

section \<open>Writing text\<close>

lemma sys_write_plain:
  assumes "\<forall>i < unat len. plain (pr_bytes (sy_proc s) (msg + word_of_nat i))"
    and "unat (fb_pos (sy_fb s)) + unat len < 2000" and "\<not> fb_sync (sy_fb s)"
  shows "\<exists>fb. sys_write msg len s = (len, s\<lparr>sy_fb := fb\<rparr>) \<and> unat (fb_pos fb) = unat (fb_pos (sy_fb s)) + unat len \<and>
    (\<forall>i < unat len. fb_out fb (uint (fb_pos (sy_fb s)) + int i) = pr_bytes (sy_proc s) (msg + word_of_nat i))"
proof -
  let ?t = "bytes_at (pr_bytes (sy_proc s)) msg (unat len)"
  have pl: "\<forall>c \<in> set ?t. plain c" using assms(1) by (auto simp: bytes_at_def)
  then have "cstrn (pr_bytes (sy_proc s)) msg (unat len) = ?t" by (auto simp: cstrn_def plain_def)
  then have "sys_write msg len s = (len, s\<lparr>sy_fb := fb_print ?t FB_WHITE FB_BLACK (sy_fb s)\<rparr>)"
    by (simp add: sys_write_def fb_nprint_black_def fb_nprint_def Let_def)
  then show ?thesis using fb_print_plain [OF _ assms(3) pl, of FB_WHITE FB_BLACK] assms(2)
    by (intro exI [of _ "fb_print ?t FB_WHITE FB_BLACK (sy_fb s)"]) simp
qed

lemma syscall_exec_write: "syscall_exec ops uninit b0 1 args s = Inr (sys_write (args 0) (args 1) s)"
  by (simp add: syscall_exec_def syscall_table_nth call_syscall_def)

text \<open>
  The system call \<open>write\<close> shows a text of drawable characters that fits on the screen: the call returns the
  length, the characters stand in order from the old position on, the position moves behind them, and the
  tasks and drivers do not change.
\<close>

lemma syscall_write_shows:
  assumes "\<forall>i < unat len. plain (pr_bytes (sy_proc s) (msg + word_of_nat i))"
    and "unat (fb_pos (sy_fb s)) + unat len < 2000" and "\<not> fb_sync (sy_fb s)"
    and "args 0 = msg" and "args 1 = len"
  shows "\<exists>s'. syscall_exec ops uninit b0 1 args s = Inr (len, s') \<and> sy_proc s' = sy_proc s \<and> sy_kst s' = sy_kst s \<and>
    unat (fb_pos (sy_fb s')) = unat (fb_pos (sy_fb s)) + unat len \<and>
    (\<forall>i < unat len. fb_out (sy_fb s') (uint (fb_pos (sy_fb s)) + int i) = pr_bytes (sy_proc s) (msg + word_of_nat i))"
  using sys_write_plain [OF assms(1-3)] unfolding syscall_exec_write assms(4,5) by fastforce

section \<open>The gate\<close>

lemma syscall_init_gate:
  "k_isr_handlers (sy_kst (syscall_init b sep stack entry s)) = (k_isr_handlers (sy_kst s))(0x80 := Scall_wrapper)"
  "idt_attributes (k_idt (sy_kst (syscall_init b sep stack entry s)) 0x80) = 0xEE"
  "idt_target (k_idt (sy_kst (syscall_init b sep stack entry s)) 0x80) = bus_isr_table b 0x80"
  "n \<noteq> 0x80 \<Longrightarrow> k_idt (sy_kst (syscall_init b sep stack entry s)) n = k_idt (sy_kst s) n"
  using idt_target_set [of "0x80" "bus_isr_table b 0x80"]
  by (simp_all add: syscall_init_def syscall_setup_def add_isr_handler_def idt_set_entry_def Let_def)

end
