(* ===== verification/Dir_Streams.thy ===== *)
theory Dir_Streams
  imports Initrd Slab_Objects
begin

text \<open>
  Directory streams with the heap they live in, \<open>src/fs/initrd.c\<close> and \<open>src/fs/fs.c\<close>: opening a directory allocates a
  stream, closing it releases the block, and a path lookup does both for every component of the path. The theory
  \<open>Initrd\<close> has the results of the lookup; here it is done with the operations of the heap, and it is shown that it
  gives the same result and returns all memory. The write of \<open>readdir\<close> behind the block of the stream
  (\<open>readdir_slot_overflow\<close>) is not part of this: the contents of a stream are a value.
\<close>

section \<open>Operations\<close>

abbreviation SIZEOF_DIR :: u32 where "SIZEOF_DIR \<equiv> 8"
abbreviation SIZEOF_DIRENT :: u32 where "SIZEOF_DIRENT \<equiv> 4"

text \<open>The stream and its address; the code does not check the address.\<close>

definition opendir_alloc ::
  "('w, 'x) mem_ops_scheme \<Rightarrow> initrd \<Rightarrow> fs_node \<Rightarrow> 'w \<Rightarrow> fault + (u32 \<times> fs_dir) \<times> 'w" where
  "opendir_alloc ops rd node w =
     (let ent = rd_nodes rd ! unat (fn_inode node);
          allocation = in_sub_ent_num ent * SIZEOF_DIRENT
      in bindE (mo_kmalloc ops (SIZEOF_DIR + allocation) w) (\<lambda>(p, w).
           if p = 0 then Inl NullDeref else Inr ((p, initrd_opendir rd node), w)))"

definition opendir_fs_alloc ::
  "('w, 'x) mem_ops_scheme \<Rightarrow> initrd \<Rightarrow> fs_node option \<Rightarrow> 'w \<Rightarrow> fault + (u32 \<times> fs_dir) option \<times> 'w" where
  "opendir_fs_alloc ops rd node w =
     (case node of
        None \<Rightarrow> Inr (None, w)
      | Some n \<Rightarrow> if fn_dirops n then bindE (opendir_alloc ops rd n w) (\<lambda>(d, w). Inr (Some d, w)) else Inr (None, w))"

definition initrd_closedir :: "('w, 'x) mem_ops_scheme \<Rightarrow> u32 \<Rightarrow> 'w \<Rightarrow> fault + 'w" where
  "initrd_closedir ops dir w = mo_kfree ops dir w"

definition closedir_fs :: "('w, 'x) mem_ops_scheme \<Rightarrow> (u32 \<times> fs_dir) option \<Rightarrow> 'w \<Rightarrow> fault + 'w" where
  "closedir_fs ops dir w =
     (case dir of None \<Rightarrow> Inr w | Some (p, d) \<Rightarrow> if fn_dirops (dir_node d) then initrd_closedir ops p w else Inr w)"

text \<open>Every node of the ram disk has \<open>munmap\<close>, which does nothing.\<close>

definition initrd_munmap :: "fs_node \<Rightarrow> u32 \<Rightarrow> unit" where
  "initrd_munmap node addr = ()"

definition munmap_fs :: "fs_node option \<Rightarrow> u32 \<Rightarrow> unit" where
  "munmap_fs node addr = (case node of None \<Rightarrow> () | Some n \<Rightarrow> initrd_munmap n addr)"

text \<open>The path lookup; the outer option is the termination.\<close>

partial_function (option) get_node_alloc ::
  "('w, 'x) mem_ops_scheme \<Rightarrow> initrd \<Rightarrow> fs_node list \<Rightarrow> mem8 \<Rightarrow> u32 \<Rightarrow> u32 \<Rightarrow> fs_node option \<Rightarrow> 'w \<Rightarrow>
     (fault + fs_node option \<times> 'w) option" where
  "get_node_alloc ops rd fs m cur_name fname_len cur_root w =
     (let cur_name_len = parse_file_dir_name m cur_name fname_len in
      if cur_name_len = 0 then Some (Inr (cur_root, w))
      else if cur_root = None then Some (Inr (None, w))
      else (case opendir_fs_alloc ops rd cur_root w of
         Inl f \<Rightarrow> Some (Inl f)
       | Inr (root_dir, w) \<Rightarrow> do {
           next_root \<leftarrow> find_entry rd fs m cur_name cur_name_len (map_option snd root_dir);
           (case closedir_fs ops root_dir w of
              Inl f \<Rightarrow> Some (Inl f)
            | Inr w \<Rightarrow> get_node_alloc ops rd fs m (cur_name + cur_name_len) (fname_len - cur_name_len) next_root w)
         }))"

declare get_node_alloc.simps [code]

definition initrd_get_node_alloc ::
  "('w, 'x) mem_ops_scheme \<Rightarrow> initrd \<Rightarrow> fs_node list \<Rightarrow> mem8 \<Rightarrow> fs_node option \<Rightarrow> u32 \<Rightarrow> 'w \<Rightarrow>
     (fault + fs_node option \<times> 'w) option" where
  "initrd_get_node_alloc ops rd fs m root name w =
     (if m name \<noteq> SLASH then Some (Inr (None, w))
      else get_node_alloc ops rd fs m (name + 1) (get_filename_len m (name + 1)) root w)"

section \<open>Memory that comes back\<close>

text \<open>
  What a lookup needs of the heap: a block of the size of a stream can be allocated, and releasing it leaves
  memory that looks as before.
\<close>

locale stream_memory =
  fixes kalloc :: "u32 \<Rightarrow> 'w \<Rightarrow> fault + u32 \<times> 'w"
    and release :: "u32 \<Rightarrow> 'w \<Rightarrow> fault + 'w"
    and ready :: "nat \<Rightarrow> 'w \<Rightarrow> bool"
    and view :: "'w \<Rightarrow> 'v"
  assumes lifo: "ready room w \<Longrightarrow> siz \<noteq> 0 \<Longrightarrow> unat siz \<le> room \<Longrightarrow>
    \<exists>p w' w''. kalloc siz w = Inr (p, w') \<and> p \<noteq> 0 \<and> release p w' = Inr w'' \<and> ready room w'' \<and> view w'' = view w"
begin

lemma stream_comes_back:
  assumes ops: "mo_kmalloc ops = kalloc" "mo_kfree ops = release" and "ready room w"
    and rd: "rd_ok rd fs" "n \<in> set fs" and room: "8 + 4 * length (rd_nodes rd) \<le> room" "length (rd_nodes rd) < 2 ^ 28"
  shows "\<exists>d w' w''. opendir_fs_alloc ops rd (Some n) w = Inr (d, w') \<and> map_option snd d = opendir_fs rd (Some n) \<and>
    closedir_fs ops d w' = Inr w'' \<and> ready room w'' \<and> view w'' = view w"
proof (cases "fn_dirops n")
  case True
  let ?k = "in_sub_ent_num (rd_nodes rd ! unat (fn_inode n))" and ?siz = "8 + in_sub_ent_num (rd_nodes rd ! unat (fn_inode n)) * 4"
  obtain i where i: "i < length fs" "n = fs ! i" using rd(2) by (auto simp: in_set_conv_nth)
  have len: "length fs = length (rd_nodes rd)" "length fs < 2 ^ 31" using rd(1) by (simp_all add: rd_ok_def)
  have "unat (fn_inode n) = i" using rd(1) i len(2) by (simp add: rd_ok_def unat_of_nat take_bit_eq_mod)
  then have "rd_nodes rd ! unat (fn_inode n) \<in> set (rd_nodes rd)" using i(1) len(1) by simp
  then have "unat ?k < length (rd_nodes rd)" using rd(1) by (simp add: rd_ok_def)
  then have u: "unat ?siz = 8 + 4 * unat ?k" "unat ?siz \<le> room"
    using room by (simp_all add: unat_word_ariths)
  then have "?siz \<noteq> 0" by auto
  from lifo [OF assms(3) this u(2)] obtain p w' w'' where
    p: "kalloc ?siz w = Inr (p, w')" "p \<noteq> 0" "release p w' = Inr w''" "ready room w''" "view w'' = view w" by blast
  have "opendir_fs_alloc ops rd (Some n) w = Inr (Some (p, initrd_opendir rd n), w')"
    using True p(1,2) by (simp add: opendir_fs_alloc_def opendir_alloc_def ops Let_def)
  moreover have "closedir_fs ops (Some (p, initrd_opendir rd n)) w' = Inr w''"
    using True p(3) by (simp add: closedir_fs_def initrd_closedir_def ops initrd_opendir_def)
  ultimately show ?thesis using True p(4,5) by (fastforce simp: opendir_fs_def)
next
  case False
  then show ?thesis using assms(3) by (auto simp: opendir_fs_alloc_def closedir_fs_def opendir_fs_def)
qed

lemma get_node_same:
  assumes ops: "mo_kmalloc ops = kalloc" "mo_kfree ops = release" and "ready room w" and rd: "rd_ok rd fs"
    and root: "\<forall>n. root = Some n \<longrightarrow> n \<in> set fs"
    and room: "8 + 4 * length (rd_nodes rd) \<le> room" "length (rd_nodes rd) < 2 ^ 28"
  shows "\<exists>r w'. get_node_loop rd fs m name len root = Some r \<and> get_node_alloc ops rd fs m name len root w = Some (Inr (r, w')) \<and>
    ready room w' \<and> view w' = view w"
  using root assms(3)
proof (induction "unat len" arbitrary: name len root w rule: less_induct)
  case less
  let ?c = "parse_file_dir_name m name len"
  show ?case
  proof (cases "?c = 0 \<or> root = None")
    case True
    then show ?thesis using less.prems(2) by (subst get_node_loop.simps, subst get_node_alloc.simps) (auto simp: Let_def)
  next
    case False
    then obtain n where n: "root = Some n" "n \<in> set fs" using less.prems(1) by blast
    have "\<forall>d. opendir_fs rd root = Some d \<longrightarrow> dir_node d \<in> set fs"
      using n by (auto simp: opendir_fs_def initrd_opendir_def)
    from find_entry_returns [OF rd this, of m name ?c] obtain r where
      r: "find_entry rd fs m name ?c (opendir_fs rd root) = Some r" "\<forall>n. r = Some n \<longrightarrow> n \<in> set fs" by blast
    obtain d w1 w2 where d: "opendir_fs_alloc ops rd root w = Inr (d, w1)" "map_option snd d = opendir_fs rd root"
      "closedir_fs ops d w1 = Inr w2" "ready room w2" "view w2 = view w"
      using stream_comes_back [OF ops less.prems(2) rd n(2) room] n(1) by blast
    have "unat (len - ?c) < unat len"
      using parse_file_dir_name_bounds [of m name len] False unat_gt_0 [of ?c] by (simp add: unat_sub_if')
    from less.hyps [OF this r(2) d(4)] obtain r' w' where
      "get_node_loop rd fs m (name + ?c) (len - ?c) r = Some r'"
      "get_node_alloc ops rd fs m (name + ?c) (len - ?c) r w2 = Some (Inr (r', w'))" "ready room w'" "view w' = view w"
      unfolding d(5) by blast
    then show ?thesis using False n(1) r(1) d(1-3) by (subst get_node_loop.simps, subst get_node_alloc.simps) (auto simp: Let_def)
  qed
qed

end

section \<open>The heap of the kernel\<close>

definition stream_ready :: "nat \<Rightarrow> 'e slab_world \<Rightarrow> bool" where
  "stream_ready room w \<longleftrightarrow> open_heap (sw_heap w) \<and> unat (hole_top (sw_heap w)) mod 16 = 0 \<and> room + 64 \<le> heap_room (sw_heap w)"

definition heap_view :: "'e slab_world \<Rightarrow> u32 \<times> nat \<times> u32" where
  "heap_view w = (hole_top (sw_heap w), hole_room (sw_heap w), hs_end (sw_heap w))"

interpretation streams: stream_memory "mo_kmalloc (slab_ops mm)" "mo_kfree (slab_ops mm)" stream_ready heap_view
proof unfold_locales
  fix room :: nat and w :: "'a slab_world" and siz :: u32
  assume r: "stream_ready room w" and s: "siz \<noteq> 0" "unat siz \<le> room"
  let ?h = "sw_heap w"
  have "unat siz + 64 \<le> heap_room ?h" using r s(2) by (simp add: stream_ready_def)
  then obtain p h' h'' where h: "kmalloc mm siz ?h = Inr (p, h')" "p \<noteq> 0" "kfree p h' = Inr h''" "open_heap h''"
    "hole_top h'' = hole_top ?h" "hole_room h'' = hole_room ?h" "hs_end h'' = hs_end ?h"
    using kmalloc_kfree_open [OF _ s(1), of ?h mm] r by (auto simp: stream_ready_def)
  let ?w' = "w\<lparr>sw_heap := h'\<rparr>" and ?w'' = "w\<lparr>sw_heap := h''\<rparr>"
  have "mo_kmalloc (slab_ops mm) siz w = Inr (p, ?w')" "mo_kfree (slab_ops mm) p ?w' = Inr ?w''"
    using h(1,3) by (simp_all add: slab_ops_def)
  moreover have "stream_ready room ?w''" "heap_view ?w'' = heap_view w"
    using r h(4-7) by (simp_all add: stream_ready_def heap_view_def heap_room_def)
  ultimately show "\<exists>p w' w''. mo_kmalloc (slab_ops mm) siz w = Inr (p, w') \<and> p \<noteq> 0 \<and> mo_kfree (slab_ops mm) p w' = Inr w'' \<and>
      stream_ready room w'' \<and> heap_view w'' = heap_view w"
    using h(2) by blast
qed



end
