(* ===== verification/Reports.thy ===== *)
theory Reports
  imports Syscalls Dir_Streams
begin

text \<open>
  The routines that print the state of a component on the console: tasks (\<open>src/proc/proc.c\<close>), nodes and headers of the
  ram disk (\<open>src/fs/initrd.c\<close>) and the slabs of a cache (\<open>src/mem/slav_allocator.c\<close>). Elsewhere a message is an event
  of the trace; here \<open>klog\<close> is the formatted output that it is, \<open>klog_console\<close>. A report returns, and it keeps the
  console consistent.
\<close>

section \<open>Reports\<close>

definition klog_line :: "string \<Rightarrow> farg list \<Rightarrow> fb_state \<Rightarrow> fb_state option" where
  "klog_line msg args fb = klog_console (text_bytes msg @ [10]) args fb"

definition print_task :: "task \<Rightarrow> fb_state \<Rightarrow> fb_state option" where
  "print_task t fb = do {
     fb \<leftarrow> klog_line ''Task id = %u, state = %u'' [ANum (tk_id t), ANum (state_num (tk_state t))] fb;
     klog_line ''Task eip = %x; esp = %x'' [ANum (tk_eip t), ANum (tk_esp t)] fb
   }"

text \<open>The name is an array of 256 bytes that ends with a zero.\<close>

definition print_node :: "initrd \<Rightarrow> mem8 \<Rightarrow> fs_node \<Rightarrow> fb_state \<Rightarrow> fb_state option" where
  "print_node rd m node fb = do {
     fb \<leftarrow> klog_line ''Node name: %s'' [AStr (cstrn m (fn_name node) 256)] fb;
     fb \<leftarrow> klog_line ''Node inode: %u'' [ANum (fn_inode node)] fb;
     fb \<leftarrow> klog_line ''Node sub entry num: %u'' [ANum (in_sub_ent_num (rd_nodes rd ! unat (fn_inode node)))] fb;
     klog_line ''Node type: %d'' [ANum (fn_type node)] fb
   }"

text \<open>\<open>nodes\<close> is the address of the array of nodes on the heap.\<close>

definition print_header :: "initrd \<Rightarrow> u32 \<Rightarrow> 'e heap_state \<Rightarrow> u32 \<Rightarrow> fb_state \<Rightarrow> fb_state option" where
  "print_header rd nodes h inode fb =
     (if nodes \<noteq> 0 \<and> in_header (rd_nodes rd ! unat inode) \<noteq> 0
      then do {
        fb \<leftarrow> klog_line ''SZieof %u'' [ANum (check_block_size nodes h)] fb;
        klog_line ''Print header initrd %x'' [ANum (in_header (rd_nodes rd ! unat inode))] fb
      }
      else Some fb)"

definition print_all_slabs :: "u32 \<Rightarrow> 'e slab_world \<Rightarrow> fb_state \<Rightarrow> fb_state option" where
  "print_all_slabs cache w fb =
     (let nxt = (\<lambda>s. sl_next (sw_slab w s));
          partial = nxt (slabs_partial cache); free = nxt (slabs_free cache); full = nxt (slabs_full cache)
      in do {
        fb \<leftarrow> (if partial \<noteq> 0 then klog_line ''Partial slabs %x'' [ANum partial] fb else Some fb);
        fb \<leftarrow> (if free \<noteq> 0
              then do { fb \<leftarrow> klog_line ''Free slabs  %x'' [ANum free] fb; klog_line ''Free slabs next %x'' [ANum (nxt free)] fb }
              else Some fb);
        (if full \<noteq> 0
         then do { fb \<leftarrow> klog_line ''Full slabs %x'' [ANum full] fb; klog_line ''Full slabs next%x'' [ANum (nxt full)] fb }
         else Some fb)
      })"

section \<open>Reports return\<close>

text \<open>A report that returns with a consistent console.\<close>

definition returns_ok :: "fb_state option \<Rightarrow> bool" where
  "returns_ok r \<longleftrightarrow> (\<exists>fb. r = Some fb \<and> fb_ok fb)"

lemma returns_ok_Some [simp]: "returns_ok (Some fb) = fb_ok fb"
  by (simp add: returns_ok_def)

lemma returns_ok_bind: "returns_ok r \<Longrightarrow> (\<And>fb. fb_ok fb \<Longrightarrow> returns_ok (k fb)) \<Longrightarrow> returns_ok (Option.bind r k)"
  by (auto simp: returns_ok_def)

lemma klog_line_ok: "fb_ok fb \<Longrightarrow> format_fits (text_bytes msg @ [10]) False args \<Longrightarrow> returns_ok (klog_line msg args fb)"
  using fb_vprintf_loop_ok [of fb "text_bytes msg @ [10]" False args FB_WHITE FB_BLACK]
  by (auto simp: klog_line_def klog_console_def fb_vprintf_def fb_vprintf_color_def returns_ok_def)

lemma print_task_ok: "fb_ok fb \<Longrightarrow> returns_ok (print_task t fb)"
  unfolding print_task_def by (intro returns_ok_bind klog_line_ok) (simp_all add: text_bytes_def)

lemma print_node_ok:
  "fb_ok fb \<Longrightarrow> KBD_DEL \<notin> set (cstrn m (fn_name node) 256) \<Longrightarrow> returns_ok (print_node rd m node fb)"
  unfolding print_node_def by (intro returns_ok_bind klog_line_ok) (simp_all add: text_bytes_def)

lemma print_header_ok: "fb_ok fb \<Longrightarrow> returns_ok (print_header rd nodes h inode fb)"
  unfolding print_header_def by (auto intro!: returns_ok_bind klog_line_ok simp: text_bytes_def)

lemma print_all_slabs_ok: "fb_ok fb \<Longrightarrow> returns_ok (print_all_slabs cache w fb)"
  unfolding print_all_slabs_def Let_def by (auto intro!: returns_ok_bind klog_line_ok simp: text_bytes_def)

end
