(* ===== verification/Segments.thy ===== *)
theory Segments
  imports Machine
begin

text \<open>
  The segment descriptors and the task state segment, \<open>src/kernel/gdt.c\<close> and \<open>src/kernel/tss.c\<close>. The
  addresses of the tables are arguments; loading the descriptor table and the task register are assembler
  routines, recorded as flags of the state.
\<close>

section \<open>Data\<close>

abbreviation GDT_SIZE :: nat where "GDT_SIZE \<equiv> 6"

abbreviation GDTD_PRESENT_MASK :: u8 where "GDTD_PRESENT_MASK \<equiv> 0x80"
abbreviation GDTD_DPL_MASK :: u8 where "GDTD_DPL_MASK \<equiv> 0x60"
abbreviation GDTD_NON_SYSTEM_SEG_MASK :: u8 where "GDTD_NON_SYSTEM_SEG_MASK \<equiv> 0x10"
abbreviation GDTD_EXEC_MASK :: u8 where "GDTD_EXEC_MASK \<equiv> 0x8"
abbreviation GDTD_RW_MASK :: u8 where "GDTD_RW_MASK \<equiv> 0x2"
abbreviation GDTF_GRAN :: u8 where "GDTF_GRAN \<equiv> 0x8"
abbreviation GDTF_PROTECTED_MODE :: u8 where "GDTF_PROTECTED_MODE \<equiv> 0x4"

text \<open>\<open>limit_high\<close> and \<open>flags\<close> have four bits.\<close>

record gdt_entry =
  gd_limit_low :: u16
  gd_base_low :: u16
  gd_base_middle :: u8
  gd_acces :: u8
  gd_limit_high :: "4 word"
  gd_flags :: "4 word"
  gd_base_high :: u8

record tss_entry =
  ts_link :: u32
  ts_esp0 :: u32
  ts_ss0 :: u32
  ts_esp1 :: u32
  ts_ss1 :: u32
  ts_esp2 :: u32
  ts_ss2 :: u32
  ts_cr3 :: u32
  ts_eip :: u32
  ts_eflags :: u32
  ts_eax :: u32
  ts_ecx :: u32
  ts_edx :: u32
  ts_ebx :: u32
  ts_esp :: u32
  ts_ebp :: u32
  ts_esi :: u32
  ts_edi :: u32
  ts_es :: u32
  ts_cs :: u32
  ts_ss :: u32
  ts_ds :: u32
  ts_fs :: u32
  ts_gs :: u32
  ts_ldtr :: u32
  ts_reserved :: u16
  ts_iomap :: u16

abbreviation SIZEOF_TSS :: u32 where "SIZEOF_TSS \<equiv> 104"

record seg_state =
  sg_gdt :: "gdt_entry list"
  sg_gdtr_base :: u32
  sg_gdtr_limit :: u16
  sg_tss :: tss_entry
  sg_kern_int_stack_end :: u32
  sg_gdt_loaded :: bool
  sg_tss_loaded :: bool
  sg_int_enabled :: bool

section \<open>Operations\<close>

definition gdt_fill_entry :: "nat \<Rightarrow> u32 \<Rightarrow> u32 \<Rightarrow> u8 \<Rightarrow> u8 \<Rightarrow> seg_state \<Rightarrow> seg_state" where
  "gdt_fill_entry i base limit access flags s =
     s\<lparr>sg_gdt := (sg_gdt s)[i :=
       \<lparr>gd_limit_low = ucast (limit AND 0xFFFF), gd_base_low = ucast (base AND 0xFFFF),
        gd_base_middle = ucast (drop_bit 16 base AND 0xFF), gd_acces = access,
        gd_limit_high = ucast (drop_bit 16 limit AND 0x0F), gd_flags = ucast flags,
        gd_base_high = ucast (drop_bit 24 base AND 0xFF)\<rparr>]\<rparr>"

definition zero_tss :: tss_entry where
  "zero_tss = \<lparr>ts_link = 0, ts_esp0 = 0, ts_ss0 = 0, ts_esp1 = 0, ts_ss1 = 0, ts_esp2 = 0, ts_ss2 = 0, ts_cr3 = 0,
     ts_eip = 0, ts_eflags = 0, ts_eax = 0, ts_ecx = 0, ts_edx = 0, ts_ebx = 0, ts_esp = 0, ts_ebp = 0, ts_esi = 0,
     ts_edi = 0, ts_es = 0, ts_cs = 0, ts_ss = 0, ts_ds = 0, ts_fs = 0, ts_gs = 0, ts_ldtr = 0, ts_reserved = 0,
     ts_iomap = 0\<rparr>"

text \<open>\<open>int_stack\<close> is the address that the linker gives for the end of the interrupt stack.\<close>

definition load_tss :: "u32 \<Rightarrow> seg_state \<Rightarrow> seg_state" where
  "load_tss int_stack s =
     (let s = s\<lparr>sg_kern_int_stack_end := int_stack\<rparr>;
          t = zero_tss\<lparr>ts_iomap := ucast SIZEOF_TSS, ts_ss0 := 0x10, ts_esp0 := sg_kern_int_stack_end s,
                ts_cs := 0x8 OR 3, ts_ss := 0x10 OR 3, ts_ds := 0x10 OR 3, ts_es := 0x10 OR 3, ts_fs := 0x10 OR 3,
                ts_gs := 0x10 OR 3\<rparr>
      in s\<lparr>sg_tss := t, sg_tss_loaded := True\<rparr>)"

definition set_kernel_stack :: "u32 \<Rightarrow> seg_state \<Rightarrow> seg_state" where
  "set_kernel_stack stack s = s\<lparr>sg_tss := (sg_tss s)\<lparr>ts_esp0 := stack\<rparr>\<rparr>"

definition fill_gdt :: "u32 \<Rightarrow> u32 \<Rightarrow> u32 \<Rightarrow> seg_state \<Rightarrow> seg_state" where
  "fill_gdt gdt tss int_stack s =
     (let s = s\<lparr>sg_gdtr_base := gdt, sg_gdtr_limit := word_of_nat (8 * GDT_SIZE - 1)\<rparr>;
          s = gdt_fill_entry 0 0 0 0 0 s;
          s = gdt_fill_entry 1 0 0xFFFFFFFF
                (GDTD_PRESENT_MASK OR GDTD_NON_SYSTEM_SEG_MASK OR GDTD_EXEC_MASK OR GDTD_RW_MASK)
                (GDTF_GRAN OR GDTF_PROTECTED_MODE) s;
          s = gdt_fill_entry 2 0 0xFFFFFFFF
                (GDTD_PRESENT_MASK OR GDTD_NON_SYSTEM_SEG_MASK OR GDTD_RW_MASK)
                (GDTF_GRAN OR GDTF_PROTECTED_MODE) s;
          s = gdt_fill_entry 3 0 0xFFFFFFFF
                (GDTD_PRESENT_MASK OR GDTD_NON_SYSTEM_SEG_MASK OR GDTD_DPL_MASK OR GDTD_EXEC_MASK OR GDTD_RW_MASK)
                (GDTF_GRAN OR GDTF_PROTECTED_MODE) s;
          s = gdt_fill_entry 4 0 0xFFFFFFFF
                (GDTD_PRESENT_MASK OR GDTD_NON_SYSTEM_SEG_MASK OR GDTD_DPL_MASK OR GDTD_RW_MASK)
                (GDTF_GRAN OR GDTF_PROTECTED_MODE) s;
          s = gdt_fill_entry 5 tss (SIZEOF_TSS - 1) (0x1 OR GDTD_EXEC_MASK OR GDTD_PRESENT_MASK) 0x00 s;
          s = s\<lparr>sg_gdt_loaded := True\<rparr>
      in load_tss int_stack s)"

definition gdt_init :: "u32 \<Rightarrow> u32 \<Rightarrow> u32 \<Rightarrow> seg_state \<Rightarrow> seg_state" where
  "gdt_init gdt tss int_stack s = fill_gdt gdt tss int_stack (s\<lparr>sg_int_enabled := False\<rparr>)"

section \<open>What the processor reads\<close>

definition gdt_base :: "gdt_entry \<Rightarrow> u32" where
  "gdt_base e = ucast (gd_base_low e) OR push_bit 16 (ucast (gd_base_middle e)) OR push_bit 24 (ucast (gd_base_high e))"

text \<open>The last offset of the segment: with granularity the limit counts pages.\<close>

definition gdt_limit :: "gdt_entry \<Rightarrow> u32" where
  "gdt_limit e =
     (let l = ucast (gd_limit_low e) OR push_bit 16 (ucast (gd_limit_high e))
      in if bit (gd_flags e) 3 then push_bit 12 l OR 0xFFF else l)"

definition gdt_dpl :: "gdt_entry \<Rightarrow> u8" where
  "gdt_dpl e = drop_bit 5 (gd_acces e) AND 3"

lemma bytes_of_word:
  "ucast (ucast (w AND 0xFFFF :: u32) :: u16) OR push_bit 16 (ucast (ucast (drop_bit 16 w AND 0xFF) :: u8)) OR
    push_bit 24 (ucast (ucast (drop_bit 24 w AND 0xFF) :: u8)) = (w :: u32)"
proof -
  have m: "(0xFFFF :: u32) = mask 16" "(0xFF :: u32) = mask 8" by (simp_all add: mask_eq_exp_minus_1)
  show ?thesis unfolding m
  proof (rule bit_eqI)
    fix n show "bit (ucast (ucast (w AND mask 16) :: u16) OR push_bit 16 (ucast (ucast (drop_bit 16 w AND mask 8) :: u8)) OR
        push_bit 24 (ucast (ucast (drop_bit 24 w AND mask 8) :: u8)) :: u32) n = bit w n"
      by (cases "n < 24")
        (auto simp: bit_or_iff bit_and_iff bit_ucast_iff bit_push_bit_iff bit_drop_bit_eq bit_mask_iff
          dest: bit_imp_le_length)
  qed
qed

text \<open>
  A descriptor decodes to what it was made from: the base that the processor puts together from the
  three fields of an entry is the given one, for every base, and so are the access byte and, for limits
  below 1 MB without granularity, the limit.
\<close>

theorem gdt_fill_entry_roundtrip:
  assumes "i < length (sg_gdt s)" and "limit < 0x100000" and "flags < 8"
  shows "let e = sg_gdt (gdt_fill_entry i base limit access flags s) ! i
    in gdt_base e = base \<and> gdt_limit e = limit \<and> gd_acces e = access"
proof -
  have m: "(0xFFFF :: u32) = mask 16" "(0x0F :: u32) = mask 4" by (simp_all add: mask_eq_exp_minus_1)
  have l: "bit limit n \<Longrightarrow> n < 20" for n
  proof -
    have "take_bit 20 (unat limit) = unat limit"
      using assms(2) by (simp add: word_less_nat_alt take_bit_nat_eq_self_iff)
    then have "take_bit 20 limit = limit" by (metis unsigned_take_bit_eq unsigned_word_eqI)
    then show "bit limit n \<Longrightarrow> n < 20" by (metis bit_take_bit_iff)
  qed
  have "take_bit 3 (unat flags) = unat flags"
    using assms(3) by (simp add: word_less_nat_alt take_bit_nat_eq_self_iff)
  then have "take_bit 3 flags = flags" by (metis unsigned_take_bit_eq unsigned_word_eqI)
  then have f: "\<not> bit (ucast flags :: 4 word) 3" by (metis bit_take_bit_iff bit_ucast_iff less_irrefl)
  have "ucast (ucast (limit AND mask 16) :: u16) OR push_bit 16 (ucast (ucast (drop_bit 16 limit AND mask 4) :: 4 word)) =
      (limit :: u32)"
    by (rule bit_eqI) (auto simp: bit_or_iff bit_and_iff bit_ucast_iff bit_push_bit_iff bit_drop_bit_eq bit_mask_iff dest: l)
  then show ?thesis using assms(1) f bytes_of_word [of base]
    by (simp add: gdt_fill_entry_def gdt_base_def gdt_limit_def Let_def m)
qed

definition blank_segs :: seg_state where
  "blank_segs = \<lparr>sg_gdt = replicate 6 \<lparr>gd_limit_low = 0, gd_base_low = 0, gd_base_middle = 0, gd_acces = 0,
     gd_limit_high = 0, gd_flags = 0, gd_base_high = 0\<rparr>, sg_gdtr_base = 0, sg_gdtr_limit = 0, sg_tss = zero_tss,
     sg_kern_int_stack_end = 0, sg_gdt_loaded = False, sg_tss_loaded = False, sg_int_enabled = True\<rparr>"

theorem gdt_fill_entry_roundtrip_witness:
  "gdt_base (sg_gdt (gdt_fill_entry 5 0xC0123456 103 0x89 0 blank_segs) ! 5) = 0xC0123456"
  using gdt_fill_entry_roundtrip [of 5 blank_segs 103 0 "0xC0123456" "0x89"] by (simp add: blank_segs_def Let_def)



end
