(* ===== verification/Pci_Net.thy ===== *)
theory Pci_Net
  imports Interrupts
begin

text \<open>
  The PCI bus (\<open>src/ipc/pci.c\<close>) and the network card behind it (\<open>src/net/ethernet/rtl8139.c\<close>). What these
  drivers need of other components is passed in: the result of \<open>kmalloc_phys\<close> (virtual and physical
  address of the receive buffer) and the translation \<open>phys\<close> of virtual addresses.
\<close>

section \<open>Configuration space\<close>

definition pci_address :: "u32 \<Rightarrow> u32 \<Rightarrow> u32 \<Rightarrow> u32 \<Rightarrow> u32" where
  "pci_address bus device function reg_offset =
     push_bit 31 1 OR reg_offset OR push_bit 16 (bus AND 0xF) OR push_bit 11 (device AND 0xF) OR
     push_bit 8 (function AND 0x3)"

definition pci_write_reg :: "'d bus \<Rightarrow> u32 \<Rightarrow> u32 \<Rightarrow> u32 \<Rightarrow> u32 \<Rightarrow> u32 \<Rightarrow> 'd kst \<Rightarrow> 'd kst" where
  "pci_write_reg b bus device function reg_offset d s =
     outl b 0xCFC d (outl b 0xCF8 (pci_address bus device function reg_offset) s)"

definition pci_read_reg :: "'d bus \<Rightarrow> u32 \<Rightarrow> u32 \<Rightarrow> u32 \<Rightarrow> u32 \<Rightarrow> 'd kst \<Rightarrow> u32 \<times> 'd kst" where
  "pci_read_reg b bus device function reg_offset s =
     inl b 0xCFC (outl b 0xCF8 (pci_address bus device function reg_offset) s)"

definition pci_get_vendor_id :: "'d bus \<Rightarrow> u8 \<Rightarrow> u8 \<Rightarrow> 'd kst \<Rightarrow> u16 \<times> 'd kst" where
  "pci_get_vendor_id b bus device_num s =
     (let (reg, s) = pci_read_reg b (ucast bus) (ucast device_num) 0 0 s in (ucast (reg AND 0xFFFF), s))"

definition pci_get_device_id :: "'d bus \<Rightarrow> u8 \<Rightarrow> u8 \<Rightarrow> 'd kst \<Rightarrow> u16 \<times> 'd kst" where
  "pci_get_device_id b bus device_num s =
     (let (reg, s) = pci_read_reg b (ucast bus) (ucast device_num) 0 0 s in (ucast (drop_bit 16 reg), s))"

text \<open>The header type with the multi-function bit; the function returns that bit.\<close>

definition pci_get_header_type :: "'d bus \<Rightarrow> u8 \<Rightarrow> u8 \<Rightarrow> 'd kst \<Rightarrow> u8 \<times> u32 \<times> 'd kst" where
  "pci_get_header_type b bus dev s =
     (let (v, s) = pci_read_reg b (ucast bus) (ucast dev) 0 0xC s; header = drop_bit 16 v AND 0xFF
      in (ucast (0x80 AND header), header, s))"

definition pci_get_io_base :: "'d bus \<Rightarrow> u8 \<Rightarrow> u8 \<Rightarrow> u32 \<Rightarrow> 'd kst \<Rightarrow> u32 \<times> 'd kst" where
  "pci_get_io_base b bus device_num header s =
     (let (io_base, s) =
        (if header = 0 \<or> header = 1 then pci_read_reg b (ucast bus) (ucast device_num) 0 0x10 s
         else if header = 2 then pci_read_reg b (ucast bus) (ucast device_num) 0 0x2C s
         else (0, s))
      in (io_base AND NOT 3, s))"

definition pci_get_irq :: "'d bus \<Rightarrow> u8 \<Rightarrow> u8 \<Rightarrow> u32 \<Rightarrow> 'd kst \<Rightarrow> u32 \<times> 'd kst" where
  "pci_get_irq b bus device_num header_type s =
     (if header_type \<le> 2
      then let (v, s) = pci_read_reg b (ucast bus) (ucast device_num) 0 0x3C s in (v AND 0xFF, s)
      else (0, s))"

text \<open>A new entry of the device list; its data are not initialised.\<close>

definition pci_register_dev :: "u32 \<Rightarrow> u32 \<Rightarrow> pci_dev_data \<Rightarrow> 'd kst \<Rightarrow> 'd kst" where
  "pci_register_dev device_id dev_init uninit s =
     s\<lparr>k_pci_devices := \<lparr>pci_dev_init = dev_init, pci_device_id = device_id, pci_data = uninit\<rparr> # k_pci_devices s\<rparr>"

definition pci_init :: "pci_dev_data \<Rightarrow> 'd kst \<Rightarrow> 'd kst" where
  "pci_init uninit s = pci_register_dev 0x8139 1 uninit s"

section \<open>RTL8139\<close>

text \<open>Registers as offsets from the base, and their bits.\<close>

abbreviation RTL_CONFIG_1 :: u16 where "RTL_CONFIG_1 \<equiv> 0x52"
abbreviation RTL_COMMAND_REG :: u16 where "RTL_COMMAND_REG \<equiv> 0x37"
abbreviation RTL_RX_BUF_START :: u16 where "RTL_RX_BUF_START \<equiv> 0x30"
abbreviation RTL_IMR :: u16 where "RTL_IMR \<equiv> 0x3C"
abbreviation RTL_RCR :: u16 where "RTL_RCR \<equiv> 0x44"
abbreviation RTL_TX_STAT :: u16 where "RTL_TX_STAT \<equiv> 0x10"
abbreviation RTL_TX_START :: u16 where "RTL_TX_START \<equiv> 0x20"
abbreviation RCR_WRAP :: u32 where "RCR_WRAP \<equiv> 0x80"
abbreviation RCR_ACC_ERR :: u32 where "RCR_ACC_ERR \<equiv> 0x20"
abbreviation RCR_ACC_RUNT :: u32 where "RCR_ACC_RUNT \<equiv> 0x10"
abbreviation RCR_ACC_BROAD :: u32 where "RCR_ACC_BROAD \<equiv> 8"
abbreviation RCR_ACC_MULTIC :: u32 where "RCR_ACC_MULTIC \<equiv> 4"
abbreviation RCR_ACC_PHYS_MATCH :: u32 where "RCR_ACC_PHYS_MATCH \<equiv> 2"
abbreviation RCR_ACC_ALL :: u32 where "RCR_ACC_ALL \<equiv> 1"
abbreviation TX_OWN :: u32 where "TX_OWN \<equiv> 0x2000"
abbreviation CMD_RX_EN :: u32 where "CMD_RX_EN \<equiv> 8"
abbreviation CMD_TX_EN :: u32 where "CMD_TX_EN \<equiv> 4"
abbreviation CMD_RST :: u8 where "CMD_RST \<equiv> 0x10"

definition rtl_reset :: "'d bus \<Rightarrow> u16 \<Rightarrow> 'd kst \<Rightarrow> 'd kst option" where
  "rtl_reset b io_addr s =
     wait_loop (\<lambda>s. let (v, s) = inb b (io_addr + RTL_COMMAND_REG) s in (v AND CMD_RST \<noteq> 0, s)) id
       (outb b (io_addr + RTL_COMMAND_REG) CMD_RST s)"

definition rtl_init_rx_buf :: "'d bus \<Rightarrow> u32 \<times> u32 \<Rightarrow> u16 \<Rightarrow> 'd kst \<Rightarrow> 'd kst" where
  "rtl_init_rx_buf b rx io_addr s = outl b (io_addr + RTL_RX_BUF_START) (snd rx) (s\<lparr>k_rtl_rx_buffer := fst rx\<rparr>)"

definition rtl_rx_tx_config :: "'d bus \<Rightarrow> u16 \<Rightarrow> 'd kst \<Rightarrow> 'd kst" where
  "rtl_rx_tx_config b io_addr s =
     outl b (io_addr + RTL_COMMAND_REG) (CMD_RX_EN OR CMD_TX_EN)
       (outl b (io_addr + RTL_RCR) (0x800 OR RCR_WRAP OR RCR_ACC_ERR OR RCR_ACC_RUNT OR RCR_ACC_BROAD OR RCR_ACC_MULTIC OR RCR_ACC_PHYS_MATCH OR
         RCR_ACC_ALL) s)"

definition rtl_send :: "'d bus \<Rightarrow> (u32 \<Rightarrow> u32) \<Rightarrow> u32 \<Rightarrow> u32 \<Rightarrow> 'd kst \<Rightarrow> 'd kst option" where
  "rtl_send b phys buf siz s =
     (let phys_addr = phys buf; io_addr = pd_io_addr (k_rtl_dev s); tx = ucast (k_tx_d s) :: u16;
          stat_port = io_addr + RTL_TX_STAT + tx * 4
      in do {
        s \<leftarrow> wait_loop (\<lambda>s. let (v, s) = inl b stat_port s in (v AND TX_OWN = 0, s)) id s;
        let s = outl b (io_addr + RTL_TX_START + tx * 4) phys_addr s;
            s = outl b stat_port (siz AND 0x1FFF) s;
            (v, s) = inl b stat_port s;
            s = klog ''Packet sent %x'' s
        in Some (s\<lparr>k_tx_d := k_tx_d s + 1\<rparr>)
      })"

definition rtl_init_isr :: "'d bus \<Rightarrow> u16 \<Rightarrow> u8 \<Rightarrow> 'd kst \<Rightarrow> 'd kst" where
  "rtl_init_isr b io_addr irq s =
     (let s = outw b (io_addr + RTL_IMR) 0xF s;
          s = add_irq_handler b 9 Rtl_handler s;
          s = add_irq_handler b 10 Rtl_handler s;
          s = add_irq_handler b 11 Rtl_handler s;
          (v, s) = inw b (io_addr + RTL_IMR) s
      in klog ''RTL8139 IRQ %x'' s)"

definition rtl_master_bus :: "'d bus \<Rightarrow> 'd kst \<Rightarrow> int \<times> 'd kst" where
  "rtl_master_bus b s =
     (let bus = ucast (pd_bus (k_rtl_dev s)); dev = ucast (pd_dev (k_rtl_dev s));
          (command, s) = pci_read_reg b bus dev 0 4 s in
      if command AND 4 \<noteq> 0 then (0, s)
      else let s = pci_write_reg b bus dev 0 4 (command OR 4) s;
               (command, s) = pci_read_reg b bus dev 0 4 s
           in if command AND 4 = 0 then (1, s)
              else (0, klog ''PCI RTL8139 Command Register set up: %x'' s))"

text \<open>\<open>packet\<close> is the address of the local array of 92 bytes that is sent.\<close>

definition rtl8139_init ::
  "'d bus \<Rightarrow> u32 \<times> u32 \<Rightarrow> (u32 \<Rightarrow> u32) \<Rightarrow> u32 \<Rightarrow> pci_dev_data \<Rightarrow> 'd kst \<Rightarrow> (int \<times> 'd kst) option" where
  "rtl8139_init b rx phys packet dev_data s =
     (let s = (klog ''RTL IO base addr %x'' s)\<lparr>k_rtl_dev := dev_data\<rparr>;
          (ret, s) = rtl_master_bus b s;
          s = (if ret \<noteq> 0 then klog ''PCI DMA is unavailable'' s else s);
          io_addr = pd_io_addr dev_data;
          s = outb b (io_addr + RTL_CONFIG_1) 0 s
      in do {
        s \<leftarrow> rtl_reset b io_addr s;
        let s = rtl_init_rx_buf b rx io_addr s;
            s = rtl_init_isr b io_addr (pd_irq dev_data) s;
            s = rtl_rx_tx_config b io_addr s
        in do {
          s \<leftarrow> rtl_send b phys packet 92 (klog ''RTL8139 NIC configured'' s);
          Some (0, s)
        }
      })"

section \<open>Enumeration\<close>

text \<open>
  The drivers that match the device in a slot: their data are filled in and their function is called.
  The list is walked by position, \<open>rx\<close>, \<open>phys\<close> and \<open>packet\<close> are those of the network card.
\<close>

fun pci_match ::
  "'d bus \<Rightarrow> u32 \<times> u32 \<Rightarrow> (u32 \<Rightarrow> u32) \<Rightarrow> u32 \<Rightarrow> u8 \<Rightarrow> u8 \<Rightarrow> u16 \<Rightarrow> u32 \<Rightarrow> nat list \<Rightarrow> 'd kst \<Rightarrow> 'd kst option" where
  "pci_match b rx phys packet bus dev device_id header [] s = Some s"
| "pci_match b rx phys packet bus dev device_id header (i # is) s =
     (if ucast device_id = pci_device_id (k_pci_devices s ! i)
      then let (io_base, s) = pci_get_io_base b bus dev header s;
               (irq, s) = pci_get_irq b bus dev header s;
               d = \<lparr>pd_bus = bus, pd_dev = dev, pd_irq = ucast irq, pd_io_addr = ucast io_base\<rparr>;
               s = s\<lparr>k_pci_devices := (k_pci_devices s)[i := (k_pci_devices s ! i)\<lparr>pci_data := d\<rparr>]\<rparr>
           in do {
             s \<leftarrow> (if pci_dev_init (k_pci_devices s ! i) = 1
                   then map_option snd (rtl8139_init b rx phys packet d s) else None);
             pci_match b rx phys packet bus dev device_id header is s
           }
      else pci_match b rx phys packet bus dev device_id header is s)"

text \<open>One slot; \<open>uninit\<close> is the value of the local variable \<open>header\<close> before it is assigned.\<close>

definition pci_slot ::
  "'d bus \<Rightarrow> u32 \<times> u32 \<Rightarrow> (u32 \<Rightarrow> u32) \<Rightarrow> u32 \<Rightarrow> u32 \<Rightarrow> nat \<Rightarrow> nat \<Rightarrow> 'd kst \<Rightarrow> 'd kst option" where
  "pci_slot b rx phys packet uninit bus dev s =
     (let (val, s) = pci_read_reg b (word_of_nat bus) (word_of_nat dev) 0 0 s;
          vendor_id = ucast (val AND 0xFFFF) :: u16;
          device_id = ucast (drop_bit 16 val) :: u16;
          (header, s) =
            (if vendor_id \<noteq> 0xFFFF
             then let (_, header, s) = pci_get_header_type b (word_of_nat bus) (word_of_nat dev) s;
                      (_, s) = pci_read_reg b (word_of_nat bus) (word_of_nat dev) 0 0x8 s;
                      (_, s) = pci_read_reg b (word_of_nat bus) (word_of_nat dev) 0 0x18 (klog ''Subclass: %x'' s);
                      s = klog ''Subclass: %x'' s
                  in (header, klog ''Header: %d'' (klog ''Vendor ID bus %u, dev %u: %x, %x'' s))
             else (uninit, s))
      in pci_match b rx phys packet (word_of_nat bus) (word_of_nat dev) device_id header
           [0..<length (k_pci_devices s)] s)"

definition pci_enumeration ::
  "'d bus \<Rightarrow> u32 \<times> u32 \<Rightarrow> (u32 \<Rightarrow> u32) \<Rightarrow> u32 \<Rightarrow> u32 \<Rightarrow> 'd kst \<Rightarrow> 'd kst option" where
  "pci_enumeration b rx phys packet uninit s =
     foldl (\<lambda>r (bus, dev). Option.bind r (pci_slot b rx phys packet uninit bus dev)) (Some s)
       (List.product [0..<16] [0..<16])"

text \<open>
  Numbering of the busses behind bridges: \<open>devs\<close> are the slots of \<open>bus\<close> that are left. The search may
  recurse without end, then the value is \<open>None\<close>.
\<close>

definition bus_info_word :: "u32 \<Rightarrow> u8 \<Rightarrow> u8 \<Rightarrow> u8 \<Rightarrow> u32" where
  "bus_info_word old primary secondary sub =
     (old AND 0xFF000000) OR push_bit 16 (ucast sub) OR push_bit 8 (ucast secondary) OR ucast primary"

partial_function (option) pci_enumerate_devs ::
  "'d bus \<Rightarrow> u8 \<Rightarrow> nat list \<Rightarrow> u8 \<Rightarrow> 'd kst \<Rightarrow> (u8 \<times> 'd kst) option" where
  "pci_enumerate_devs b bus devs max_bus s =
     (case devs of
        [] \<Rightarrow> Some (max_bus, s)
      | dev # ds \<Rightarrow>
          let (vendor_id, s) = pci_get_vendor_id b bus (word_of_nat dev) s in
          if vendor_id = 0xFFFF then Some (max_bus, s)
          else let (_, header, s) = pci_get_header_type b bus (word_of_nat dev) s in
            if header \<noteq> 0
            then let (info, s) = pci_read_reg b (ucast bus) (word_of_nat dev) 0 0x18 s;
                     max_bus = max_bus + 1;
                     s = pci_write_reg b (ucast bus) (word_of_nat dev) 0 0x18 (bus_info_word info bus max_bus 0xFF) s
                 in do {
                   (sub, s) \<leftarrow> pci_enumerate_devs b max_bus [0..<32] max_bus s;
                   pci_enumerate_devs b bus ds max_bus
                     (pci_write_reg b (ucast bus) (word_of_nat dev) 0 0x18 (bus_info_word info bus max_bus sub) s)
                 }
            else pci_enumerate_devs b bus ds max_bus s)"

declare pci_enumerate_devs.simps [code]

definition pci_enumerate_bus :: "'d bus \<Rightarrow> u8 \<Rightarrow> 'd kst \<Rightarrow> (u8 \<times> 'd kst) option" where
  "pci_enumerate_bus b bus s = pci_enumerate_devs b bus [0..<32] bus s"

section \<open>Properties\<close>

text \<open>The fields of a configuration address, as the bus decodes them.\<close>

definition pci_fields :: "u32 \<Rightarrow> u32 \<times> u32 \<times> u32 \<times> u32" where
  "pci_fields a = (take_bit 8 (drop_bit 16 a), take_bit 5 (drop_bit 11 a), take_bit 3 (drop_bit 8 a), take_bit 8 a)"

lemma small_word_bit:
  fixes x :: u32
  assumes "unat x < 2 ^ n" and "bit x k"
  shows "k < n"
proof -
  have "take_bit n x = x"
    using assms(1) by (simp add: word_unat_eq_iff unsigned_take_bit_eq take_bit_nat_eq_self)
  then show ?thesis using assms(2) by (metis bit_take_bit_iff)
qed

lemma bit_pci_address:
  assumes "k < 32"
  shows "bit (pci_address bus device function reg_offset) k \<longleftrightarrow>
    k = 31 \<or> bit reg_offset k \<or> 16 \<le> k \<and> k < 20 \<and> bit bus (k - 16) \<or>
    11 \<le> k \<and> k < 15 \<and> bit device (k - 11) \<or> 8 \<le> k \<and> k < 10 \<and> bit function (k - 8)"
proof -
  have m: "x AND 0xF = take_bit 4 x" "x AND 3 = take_bit 2 x" for x :: u32
    by (simp_all add: take_bit_eq_mask mask_eq_exp_minus_1)
  have top: "bit (push_bit 31 1 :: u32) k \<longleftrightarrow> k = 31"
    unfolding bit_push_bit_iff using assms by (auto simp: bit_1_iff)
  show ?thesis unfolding pci_address_def m bit_or_iff top
    using assms by (auto simp: bit_push_bit_iff bit_take_bit_iff)
qed

text \<open>
  Configuration addresses round trip: for a bus below 16, a device below 16, a function below 4 and a
  register offset below 256, the address sent to the bus decodes to exactly these four numbers.
\<close>

theorem pci_address_roundtrip:
  assumes "bus < 16" and "device < 16" and "function < 4" and "reg_offset < 256"
  shows "pci_fields (pci_address bus device function reg_offset) = (bus, device, function, reg_offset)"
proof -
  have u: "unat bus < 2 ^ 4" "unat device < 2 ^ 4" "unat function < 2 ^ 2" "unat reg_offset < 2 ^ 8"
    using assms by (simp_all add: word_less_nat_alt)
  note small = small_word_bit [OF u(1)] small_word_bit [OF u(2)] small_word_bit [OF u(3)] small_word_bit [OF u(4)]
  have hi: "\<not> bit bus n" if "4 \<le> n" for n using small(1) that leD by blast
  have hi2: "\<not> bit device n" if "4 \<le> n" for n using small(2) that leD by blast
  have hi3: "\<not> bit function n" if "2 \<le> n" for n using small(3) that leD by blast
  have hi4: "\<not> bit reg_offset n" if "8 \<le> n" for n using small(4) that leD by blast
  note defs = bit_take_bit_iff bit_drop_bit_eq bit_pci_address hi4
  let ?a = "pci_address bus device function reg_offset"
  have "bit (take_bit 8 (drop_bit 16 ?a)) n = bit bus n" for n
    by (cases "n < 8") (auto simp: defs hi dest: small(1))
  then have "take_bit 8 (drop_bit 16 ?a) = bus" by (intro bit_word_eqI) simp
  moreover have "bit (take_bit 5 (drop_bit 11 ?a)) n = bit device n" for n
    by (cases "n < 5") (auto simp: defs hi2 dest: small(2))
  then have "take_bit 5 (drop_bit 11 ?a) = device" by (intro bit_word_eqI) simp
  moreover have "bit (take_bit 3 (drop_bit 8 ?a)) n = bit function n" for n
    by (cases "n < 3") (auto simp: defs hi3 dest: small(3))
  then have "take_bit 3 (drop_bit 8 ?a) = function" by (intro bit_word_eqI) simp
  moreover have "bit (take_bit 8 ?a) n = bit reg_offset n" for n
    by (cases "n < 8") (auto simp: defs)
  then have "take_bit 8 ?a = reg_offset" by (intro bit_word_eqI) simp
  ultimately show ?thesis by (simp add: pci_fields_def)
qed

theorem pci_address_roundtrip_witness: "pci_fields (pci_address 0 3 0 0x10) = (0, 3, 0, 0x10)"
  using pci_address_roundtrip [of 0 3 0 "0x10"] by simp

text \<open>
  Devices above 15 are out of reach: the address of a device is cut to four bits although the bus has
  32 devices, so the driver's access to device 16 + n of a bus reads device n.
\<close>

theorem pci_device_alias:
  "pci_address bus (16 + device) function reg_offset = pci_address bus device function reg_offset"
proof -
  have "(16 + device) AND 0xF = device AND 0xF"
  proof -
    have m: "x AND 0xF = take_bit 4 x" for x :: u32 by (simp add: take_bit_eq_mask mask_eq_exp_minus_1)
    show ?thesis unfolding m by (simp add: word_unat_eq_iff unsigned_take_bit_eq take_bit_eq_mod unat_word_ariths mod_mod_cancel)
  qed
  then show ?thesis by (simp add: pci_address_def)
qed

text \<open>
  The transmit descriptor is never reset: the card has four, at offsets 0x10 to 0x1C, but \<open>tx_d\<close> only
  grows, so the fifth packet polls and writes its size at offset 0x20, the buffer address of the first
  descriptor.
\<close>

theorem rtl_send_fifth_packet:
  assumes "k_tx_d s = 4" and "bus_in b 4 (0x20 + pd_io_addr (k_rtl_dev s)) (k_dev s) = (v, d)" and "v AND 0x2000 \<noteq> 0"
  shows "\<exists>s' w. rtl_send b phys buf siz s = Some s' \<and>
    (let p = pd_io_addr (k_rtl_dev s) in k_trace s' = k_trace s @
      [Inlong (0x20 + p) v, Outl (0x30 + p) (phys buf), Outl (0x20 + p) (siz AND 0x1FFF), Inlong (0x20 + p) w,
       Klog ''Packet sent %x'']) \<and> k_tx_d s' = 5"
proof -
  let ?p = "pd_io_addr (k_rtl_dev s)"
  have "wait_loop (\<lambda>s. let (v, s) = inl b (0x20 + ?p) s in (v AND 0x2000 = 0, s)) id s =
      Some (s\<lparr>k_dev := d, k_trace := k_trace s @ [Inlong (0x20 + ?p) v]\<rparr>)"
    by (rule wait_loop_done) (simp add: inl_def assms(2,3) trace_event_def)
  then show ?thesis
    using assms(1) by (simp add: rtl_send_def Let_def case_prod_unfold) (simp add: io_defs case_prod_unfold)
qed

theorem rtl_send_fifth_packet_witness:
  "\<exists>s' w. rtl_send script_bus (\<lambda>p. p - 0xC0000000) 0xC0200000 92
       ((kst_script [0x2000])\<lparr>k_tx_d := 4, k_rtl_dev := \<lparr>pd_bus = 0, pd_dev = 3, pd_irq = 11, pd_io_addr = 0xC000\<rparr>\<rparr>) = Some s' \<and>
     k_trace s' = [Inlong 0xC020 0x2000, Outl 0xC030 0x200000, Outl 0xC020 92, Inlong 0xC020 w, Klog ''Packet sent %x'']"
  using rtl_send_fifth_packet [of "(kst_script [0x2000])\<lparr>k_tx_d := 4,
      k_rtl_dev := \<lparr>pd_bus = 0, pd_dev = 3, pd_irq = 11, pd_io_addr = 0xC000\<rparr>\<rparr>" script_bus "0x2000" "[]"
      "\<lambda>p. p - 0xC0000000" "0xC0200000" 92]
  by (auto simp: script_bus_def kst_script_def)

end
