(* ===== verification/Boot.thy ===== *)
theory Boot
  imports Syscalls Segments Pci_Net
begin

text \<open>
  The start of the kernel, \<open>src/kernel/kernel.c\<close>, with \<open>src/drivers/apic.c\<close>: \<open>kernel_main\<close> runs the initialisation
  of every component in order and starts the first program.

  The state puts the segment descriptors beside the state of the system calls. What the linker, the boot loader
  and the processor provide (addresses of variables and functions, the answers of \<open>cpuid\<close>, the contents of
  fresh memory) is the record \<open>boot_env\<close>. The boot loader's tables are read from the byte memory. The jump to the
  first program does not return, so that the endless loop behind it is not reached: the result of
  \<open>kernel_main\<close> is the state in which the program starts.
\<close>

section \<open>Boot loader data\<close>

text \<open>With the flags of the header, \<open>struct multiboot_meta\<close> has these fields.\<close>

definition MB_MAGIC_NUM :: u32 where "MB_MAGIC_NUM = 0x1BADB002"
definition MB_FLAGS :: u32 where "MB_FLAGS = push_bit 0 1 OR push_bit 1 1 OR push_bit 2 1"
definition MB_CHECKSUM :: u32 where "MB_CHECKSUM = - (MB_FLAGS + MB_MAGIC_NUM)"

record multiboot_meta =
  mb_flags :: u32
  mb_mem_lower :: u32
  mb_mem_upper :: u32
  mb_boot_dev :: u32
  mb_cmdline :: u32
  mb_mods_count :: u32
  mb_mods_addr :: u32

record module_struct =
  mod_start :: u32
  mod_end :: u32
  mod_string :: u32
  mod_reserved :: u32

definition load_word :: "mem8 \<Rightarrow> u32 \<Rightarrow> u32" where
  "load_word m a = ucast (m a) OR push_bit 8 (ucast (m (a + 1))) OR push_bit 16 (ucast (m (a + 2))) OR push_bit 24 (ucast (m (a + 3)))"

definition load_meta :: "mem8 \<Rightarrow> u32 \<Rightarrow> multiboot_meta" where
  "load_meta m a =
     \<lparr>mb_flags = load_word m a, mb_mem_lower = load_word m (a + 4), mb_mem_upper = load_word m (a + 8),
      mb_boot_dev = load_word m (a + 12), mb_cmdline = load_word m (a + 16), mb_mods_count = load_word m (a + 20),
      mb_mods_addr = load_word m (a + 24)\<rparr>"

definition load_module :: "mem8 \<Rightarrow> u32 \<Rightarrow> module_struct" where
  "load_module m a =
     \<lparr>mod_start = load_word m a, mod_end = load_word m (a + 4), mod_string = load_word m (a + 8),
      mod_reserved = load_word m (a + 12)\<rparr>"

definition print_multi_boot_data :: "multiboot_meta \<Rightarrow> fb_state \<Rightarrow> fb_state" where
  "print_multi_boot_data mb s =
     fb_print_hex (mb_mem_upper mb) (fb_print_hex (mb_mem_lower mb) (fb_print_hex (mb_flags mb) s))"

section \<open>Memory test\<close>

text \<open>The test writes one byte of every object.\<close>

definition mem_test_step :: "'w page_ops \<Rightarrow> u32 \<Rightarrow> 'w \<times> mem8 \<Rightarrow> fault + 'w \<times> mem8" where
  "mem_test_step ops cache = (\<lambda>(w, m).
     bindE (mo_slab_alloc ops cache w) (\<lambda>(c, w).
       bindE (mo_kmalloc ops 0x100 w) (\<lambda>(_, w).
         if c = 0 then Inl NullDeref else Inr (w, m(c + 0x50 := 97)))))"

fun mem_test_loop :: "'w page_ops \<Rightarrow> u32 \<Rightarrow> nat \<Rightarrow> 'w \<times> mem8 \<Rightarrow> fault + 'w \<times> mem8" where
  "mem_test_loop ops cache 0 s = Inr s"
| "mem_test_loop ops cache (Suc n) s = bindE (mem_test_step ops cache s) (mem_test_loop ops cache n)"

definition mem_test :: "'w page_ops \<Rightarrow> 'w \<times> mem8 \<Rightarrow> fault + 'w \<times> mem8" where
  "mem_test ops = (\<lambda>(w, m).
     bindE (mo_kmalloc ops 0xE00000 w) (\<lambda>(_, w).
       bindE (po_cache_create_align ops PAGE_SIZE PAGE_SIZE w) (\<lambda>(cache, w).
         bindE (mem_test_loop ops cache 0x100 (w, m)) (\<lambda>(w, m).
           bindE (mo_kmalloc ops 0x300000 w) (\<lambda>(_, w).
             mem_test_loop ops cache 0x100 (w, m))))))"

section \<open>Initialisation\<close>

definition apic_detect :: "bool \<Rightarrow> 'd kst \<Rightarrow> 'd kst" where
  "apic_detect apic_available s = (if apic_available then klog ''APIC available'' s else s)"

definition apic_init :: "bool \<Rightarrow> 'd kst \<Rightarrow> 'd kst" where
  "apic_init apic_available s = apic_detect apic_available s"

text \<open>From \<open>serial_init\<close> to \<open>rtc_init\<close>; \<open>None\<close> is a wait that does not end.\<close>

definition kernel_drivers :: "'d bus \<Rightarrow> bool \<Rightarrow> pci_dev_data \<Rightarrow> 'd kst \<Rightarrow> 'd kst option" where
  "kernel_drivers b apic_available uninit k =
     (let k = serial_init b k;
          k = kbd_init b k;
          k = snd (ps2_init b k);
          k = pci_init uninit k;
          k = snd (pit_init b 0 k);
          k = apic_init apic_available k
      in rtc_init b k)"

record ('d, 'w) boot_env =
  be_ops :: "'w page_ops"
  be_bus :: "'d bus"
  be_syms :: kernel_symbols
  be_uninit :: u32
  be_pci_uninit :: pci_dev_data
  be_apic_available :: bool
  be_sep :: bool
  be_gdt :: u32
  be_tss :: u32
  be_int_stack :: u32
  be_scall_wrapper :: u32
  be_schedule :: u32
  be_kern :: u32
  be_kern_buddy :: "'w buddy_state"
  be_user_buddy :: "'w buddy_state"
  be_rd :: rd_env
  be_init_path :: u32

record ('d, 'w) kernel_state =
  ks_sys :: "('d, 'w) sys_state"
  ks_seg :: seg_state

text \<open>\<open>kernel_main\<close> up to the start of the first program.\<close>

definition kernel_init :: "('d, 'w) boot_env \<Rightarrow> u32 \<Rightarrow> ('d, 'w) kernel_state \<Rightarrow> fault + ('d, 'w) kernel_state" where
  "kernel_init env multiboot_data s =
     (let sys = ks_sys s;
          p = sy_proc sys;
          fb = fb_clear (sy_fb sys);
          seg = gdt_init (be_gdt env) (be_tss env) (be_int_stack env) (ks_seg s);
          k = snd (idt_init (be_bus env) (sy_kst sys))
      in bindE (paging_init (be_ops env) (be_bus env) (be_syms env)
                  (mb_mem_upper (load_meta (pr_bytes p) multiboot_data) * 0x400) (pr_paging p) k) (\<lambda>(pg, k).
         bindE (kmmap_init (be_ops env) (be_kern_buddy env) pg) (\<lambda>(_, kern_buddy, b, pg).
           let p = p\<lparr>pr_paging := pg, pr_buddy := (pr_buddy p)(kern_buddy := b), pr_kern_buddy := kern_buddy\<rparr> in
           case kernel_drivers (be_bus env) (be_apic_available env) (be_pci_uninit env) k of
             None \<Rightarrow> Inl Diverges
           | Some k \<Rightarrow>
               bindE (multiproc_init (be_ops env) (be_schedule env) (be_kern env) p) (\<lambda>(_, p).
                 Inr \<lparr>ks_sys = syscall_init (be_bus env) (be_sep env) (be_int_stack env) (be_scall_wrapper env)
                                (sys\<lparr>sy_proc := p, sy_kst := k, sy_fb := fb\<rparr>),
                      ks_seg = seg\<rparr>))))"

definition kernel_main :: "('d, 'w) boot_env \<Rightarrow> u32 \<Rightarrow> ('d, 'w) kernel_state \<Rightarrow> fault + ('d, 'w) kernel_state" where
  "kernel_main env multiboot_data s =
     (let m = pr_bytes (sy_proc (ks_sys s));
          mods = load_module m (mb_mods_addr (load_meta m multiboot_data))
      in bindE (kernel_init env multiboot_data s) (\<lambda>s.
           bindE (spawn_init (be_ops env) (be_uninit env) (mod_start mods) (mod_end mods) (be_rd env) (be_init_path env)
                    (be_user_buddy env) (sy_proc (ks_sys s))) (\<lambda>p.
             Inr (s\<lparr>ks_sys := (ks_sys s)\<lparr>sy_proc := p\<rparr>\<rparr>))))"

section \<open>Boot loader data\<close>

lemma multiboot_checksum: "MB_MAGIC_NUM + MB_FLAGS + MB_CHECKSUM = 0"
  by (simp add: MB_CHECKSUM_def)

text \<open>The two ways to access a word agree.\<close>

lemma load_store_word: "load_word (store_word a v m) a = v"
proof -
  have "a + 1 \<noteq> a" "a + 2 \<noteq> a" "a + 3 \<noteq> a" "a + 2 \<noteq> a + 1" "a + 3 \<noteq> a + 1" "a + 3 \<noteq> a + 2" by simp_all
  then have "load_word (store_word a v m) a = ucast (ucast v :: u8) OR push_bit 8 (ucast (ucast (drop_bit 8 v) :: u8)) OR
      push_bit 16 (ucast (ucast (drop_bit 16 v) :: u8)) OR push_bit 24 (ucast (ucast (drop_bit 24 v) :: u8))"
    by (simp add: load_word_def store_word_def)
  also have "\<dots> = v"
  proof (rule bit_word_eqI)
    fix n assume "n < LENGTH(32)"
    then show "bit (ucast (ucast v :: u8) OR push_bit 8 (ucast (ucast (drop_bit 8 v) :: u8)) OR
      push_bit 16 (ucast (ucast (drop_bit 16 v) :: u8)) OR push_bit 24 (ucast (ucast (drop_bit 24 v) :: u8)) :: u32) n = bit v n"
      by (cases "24 \<le> n"; cases "16 \<le> n") (auto simp: bit_or_iff bit_push_bit_iff bit_ucast_iff bit_drop_bit_eq)
  qed
  finally show ?thesis .
qed

section \<open>Interrupt tables during the initialisation\<close>

text \<open>The tables, the rate of the timer, the receivers of the keyboard and the positions in the buffers of the serial port.\<close>

definition tables :: "'d kst \<Rightarrow> (u8 \<Rightarrow> handler) \<times> (u8 \<Rightarrow> idt_entry) \<times> u32 \<times> (nat \<Rightarrow> u32) \<times> u32 \<times> u32" where
  "tables k = (k_isr_handlers k, k_idt k, k_pit_freq k, k_receiver_f k, k_cur_pos k, k_read_pos k)"

abbreviation buffers :: "'d kst \<Rightarrow> (nat \<Rightarrow> u32) \<times> u32 \<times> u32" where
  "buffers k \<equiv> (k_receiver_f k, k_cur_pos k, k_read_pos k)"

lemma tables_io [simp]:
  "tables (trace_event e s) = tables s" "tables (klog m s) = tables s"
  "tables (outb b p v s) = tables s" "tables (snd (inb b p s)) = tables s" "tables (io_wait b s) = tables s"
  "tables (snd (disable_int b s)) = tables s" "tables (recover_int f s) = tables s"
  by (simp_all add: tables_def io_defs disable_int_def recover_int_def case_prod_unfold)

lemma tables_upd [simp]:
  "tables (s\<lparr>k_time_mode := v\<rparr>) = tables s" "tables (s\<lparr>k_pci_devices := d\<rparr>) = tables s" "tables (s\<lparr>k_tick := t\<rparr>) = tables s"
  by (simp_all add: tables_def)

lemma tables_mouse [simp]: "tables (mouse_wait b a s) = tables s"
proof -
  have "tables (mouse_poll b c n s) = tables s" for c n
    by (induction n arbitrary: s) (auto simp: Let_def case_prod_unfold)
  then show ?thesis by (simp add: mouse_wait_def)
qed

lemma tables_irq [simp]:
  "tables (add_irq_handler b i h s) = ((fst (tables s))(PIC1_REMAP + i := h), snd (tables s))"
  by (simp add: tables_def add_irq_handler_def pic_unmask_def pic_mask_clear_def io_defs case_prod_unfold)

section \<open>The clock during the initialisation\<close>

lemma ticking_tables: "ticking s \<longleftrightarrow> fst (tables s) 0x20 = Pit_handler"
  by (simp add: ticking_def tables_def)

lemma halt_tables:
  assumes "timer_only b" and "ticking s" and "halt b s = Some s'"
  shows "tables s' = tables s"
proof -
  obtain eip d' where "bus_hlt b (k_dev s) = ([(0x20, eip)], d')" using assms(1) unfolding timer_only_def by blast
  then show ?thesis using assms(2,3)
    by (auto simp: halt_def isr_x86_def call_handler_def pit_handler_def ticking_def pic_eoi_def io_defs tables_def)
qed

lemma halt_while_tables:
  assumes "halt_while c b s = Some s'" and "timer_only b" and "ticking s"
  shows "tables s' = tables s"
proof -
  have "timer_only b \<and> ticking s \<longrightarrow> tables s' = tables s"
  proof (rule halt_while.raw_induct [where P = "\<lambda>c b s s'. timer_only b \<and> ticking s \<longrightarrow> tables s' = tables s", OF _ assms(1)])
    fix hw :: "('a kst \<Rightarrow> bool) \<Rightarrow> 'a bus \<Rightarrow> 'a kst \<Rightarrow> 'a kst option" and c b s s'
    assume ih: "\<And>c b s s'. hw c b s = Some s' \<Longrightarrow> timer_only b \<and> ticking s \<longrightarrow> tables s' = tables s"
      and r: "(if c s then halt b s \<bind> hw c b else Some s) = Some s'"
    show "timer_only b \<and> ticking s \<longrightarrow> tables s' = tables s"
    proof (intro impI)
      assume a: "timer_only b \<and> ticking s"
      show "tables s' = tables s"
      proof (cases "c s")
        case True
        then obtain s1 where s1: "halt b s = Some s1" "hw c b s1 = Some s'" using r by (auto split: Option.bind_splits)
        then have t: "tables s1 = tables s" using halt_tables a by blast
        then have "ticking s1" using a by (simp add: ticking_tables)
        then show ?thesis using ih [OF s1(2)] a t by simp
      qed (use r in simp)
    qed
  qed
  then show ?thesis using assms by blast
qed

lemma wait_ticks_tables:
  assumes "timer_only b" and "ticking s"
  shows "\<exists>s'. wait_ticks b delay s = Some s' \<and> tables s' = tables s"
proof -
  obtain s' where w: "wait_ticks b delay s = Some s'"
    using wait_ticks_plain [OF assms, of delay] wait_ticks_wrap [OF assms, of delay] by fastforce
  moreover have "tables s' = tables s"
  proof (cases "k_tick s + delay < k_tick s")
    case True
    then obtain s1 where s1: "halt_while (\<lambda>t. k_tick t \<ge> k_tick s) b s = Some s1"
      "halt_while (\<lambda>t. k_tick t < k_tick s1 + (delay - (0xFFFFFFFF - k_tick s))) b s1 = Some s'"
      using w by (auto simp: wait_ticks_def Let_def split: Option.bind_splits)
    then have "tables s1 = tables s" using halt_while_tables assms by blast
    then show ?thesis using halt_while_tables [OF s1(2) assms(1)] assms(2) by (simp add: ticking_tables)
  next
    case False
    then show ?thesis using w halt_while_tables assms by (auto simp: wait_ticks_def Let_def)
  qed
  ultimately show ?thesis by blast
qed

text \<open>A machine on which the kernel can wait: the timer runs at its default rate and no clock update is in progress.\<close>

definition clock_ready :: "'d bus \<Rightarrow> 'd kst \<Rightarrow> bool" where
  "clock_ready b s \<longleftrightarrow> timer_only b \<and> (\<forall>d. \<not> bit (fst (bus_in b 1 0x71 d)) 7) \<and> ticking s \<and> k_pit_freq s = 1000"

lemma clock_ready_tables: "clock_ready b s \<Longrightarrow> tables t = tables s \<Longrightarrow> clock_ready b t"
  by (auto simp: clock_ready_def ticking_tables tables_def)

lemma cmos_select_tables:
  assumes "clock_ready b s"
  shows "\<exists>s'. cmos_select_reg b reg s = Some s' \<and> tables s' = tables s"
proof -
  have c: "clock_ready b (outb b 0x70 reg s)" using clock_ready_tables [OF assms] by simp
  then obtain s' where "wait_ticks b 50 (outb b 0x70 reg s) = Some s'" "tables s' = tables (outb b 0x70 reg s)"
    using wait_ticks_tables [of b "outb b 0x70 reg s" 50] by (auto simp: clock_ready_def)
  then show ?thesis using c by (auto simp: cmos_select_reg_def sleep_ms_def clock_ready_def Let_def)
qed

lemma and_0x80: "\<not> bit (v :: u32) 7 \<Longrightarrow> (ucast v :: u8) AND 0x80 = 0"
proof (rule bit_word_eqI)
  fix n assume v: "\<not> bit v 7"
  have "(0x80 :: u8) = push_bit 7 1" by simp
  then have "bit (0x80 :: u8) n \<longleftrightarrow> n = 7" by (simp only: bit_push_bit_iff bit_1_iff) auto
  then show "bit ((ucast v :: u8) AND 0x80) n = bit 0 n" using v by (simp only: bit_and_iff bit_ucast_iff) auto
qed

lemma rtc_get_val_tables:
  assumes "clock_ready b s"
  shows "\<exists>v s'. rtc_get_val b reg s = Some (v, s') \<and> tables s' = tables s"
proof -
  obtain s1 where s1: "cmos_select_reg b 0x0A s = Some s1" "tables s1 = tables s" using cmos_select_tables [OF assms] by blast
  let ?s2 = "snd (inb b 0x71 s1)"
  have "\<not> bit (fst (bus_in b 1 0x71 (k_dev s1))) 7" using assms by (simp add: clock_ready_def)
  from and_0x80 [OF this] have "fst (inb b 0x71 s1) AND 0x80 = 0" by (simp add: inb_def Let_def case_prod_unfold)
  then have s2: "rtc_wait b s1 = Some ?s2" by (subst rtc_wait.simps) (simp add: cmos_read_data_def case_prod_unfold Let_def)
  have "clock_ready b ?s2" using clock_ready_tables [OF assms] s1(2) by simp
  then obtain s3 where s3: "cmos_select_reg b reg ?s2 = Some s3" "tables s3 = tables ?s2" using cmos_select_tables by blast
  have "tables (snd (inb b 0x71 s3)) = tables s" using s3(2) s1(2) by simp
  then show ?thesis using s1(1) s2 s3(1) by (simp add: rtc_get_val_def cmos_read_data_def case_prod_unfold Let_def)
qed

lemma date_time_char_tables:
  assumes "clock_ready b s" and "c \<in> {104, 109, 115, 58}"
  shows "\<exists>buf' pos' s'. date_time_char b c siz buf pos s = Some (buf', pos', s') \<and> tables s' = tables s"
  using rtc_get_val_tables [OF assms(1), of 4] rtc_get_val_tables [OF assms(1), of 2] rtc_get_val_tables [OF assms(1), of 0] assms(2)
  by (auto simp: date_time_char_def rtc_get_hour_def rtc_get_minutes_def rtc_get_seconds_def case_prod_unfold Let_def)

lemma date_time_loop_tables:
  "clock_ready b s \<Longrightarrow> set cs \<subseteq> {104, 109, 115, 58} \<Longrightarrow>
    \<exists>buf' s'. date_time_loop b cs siz buf pos s = Some (buf', s') \<and> tables s' = tables s"
proof (induction cs arbitrary: buf pos s)
  case (Cons c cs)
  obtain buf1 pos1 s1 where s1: "date_time_char b c siz buf pos s = Some (buf1, pos1, s1)" "tables s1 = tables s"
    using date_time_char_tables [OF Cons.prems(1)] Cons.prems(2) by (metis insert_subset list.simps(15))
  have "clock_ready b s1" using clock_ready_tables [OF Cons.prems(1) s1(2)] .
  then show ?case using Cons.IH [of s1 buf1 pos1] Cons.prems(2) s1 by auto
qed simp

lemma rtc_init_tables:
  assumes "clock_ready b s"
  shows "\<exists>s'. rtc_init b s = Some s' \<and> tables s' = tables s"
proof -
  obtain s1 where s1: "cmos_select_reg b 0x0B s = Some s1" "tables s1 = tables s" using cmos_select_tables [OF assms] by blast
  let ?s2 = "klog ''Real Time Clock configured'' ((snd (inb b 0x71 s1))\<lparr>k_time_mode := ucast (fst (inb b 0x71 s1))\<rparr>)"
  have t: "tables ?s2 = tables s" using s1(2) by simp
  obtain buf s3 where s3: "get_date_time b [104, 58, 109, 58, 115] (\<lambda>_. 0) 16 ?s2 = Some (buf, s3)" "tables s3 = tables ?s2"
    using date_time_loop_tables [OF clock_ready_tables [OF assms t], of "[104, 58, 109, 58, 115]" 16 _ 0]
    unfolding get_date_time_def by fastforce
  then show ?thesis using s1(1) t by (simp add: rtc_init_def cmos_read_data_def case_prod_unfold Let_def)
qed

section \<open>The machine after the initialisation\<close>

lemma kernel_drivers_tables:
  assumes "timer_only b" and "\<forall>d. \<not> bit (fst (bus_in b 1 0x71 d)) 7" and "k_pit_freq k = 1000"
  shows "\<exists>k'. kernel_drivers b apic uninit k = Some k' \<and>
    tables k' = ((k_isr_handlers k)(0x24 := Serial_interrupt, 0x21 := Kbd_interrupt, 0x2C := Ps2_handler, 0x20 := Pit_handler),
      k_idt k, 1000, buffers k)"
proof -
  let ?H = "(k_isr_handlers k)(0x24 := Serial_interrupt, 0x21 := Kbd_interrupt, 0x2C := Ps2_handler)"
  define k1 where "k1 = pci_init uninit (snd (ps2_init b (kbd_init b (serial_init b k))))"
  have t1: "tables k1 = (?H, k_idt k, 1000, buffers k)"
    using assms(3)
    by (simp add: k1_def pci_init_def pci_register_dev_def ps2_init_def kbd_init_def serial_init_def com_init_def
        Let_def case_prod_unfold) (simp add: tables_def)
  let ?k2 = "apic_init apic (snd (pit_init b 0 k1))"
  have t2: "tables ?k2 = (?H(0x20 := Pit_handler), k_idt k, 1000, buffers k)"
    using t1 by (simp add: apic_init_def apic_detect_def pit_init_def Let_def case_prod_unfold)
  have "clock_ready b ?k2" using assms(1,2) t2 by (simp add: clock_ready_def ticking_tables) (simp add: tables_def)
  from rtc_init_tables [OF this] show ?thesis using t2 by (simp add: kernel_drivers_def k1_def Let_def)
qed

text \<open>The rate of the timer and the buffers: the initialisation of the interrupts leaves them alone.\<close>

definition kept :: "'d kst \<Rightarrow> u32 \<times> (nat \<Rightarrow> u32) \<times> u32 \<times> u32" where
  "kept k = (k_pit_freq k, buffers k)"

lemma kept_io [simp]:
  "kept (trace_event e s) = kept s" "kept (klog m s) = kept s" "kept (outb b p v s) = kept s" "kept (snd (inb b p s)) = kept s"
  "kept (io_wait b s) = kept s" "kept (outb_wait b p v s) = kept s"
  by (simp_all add: kept_def outb_wait_def io_defs case_prod_unfold)

lemma kept_upd [simp]:
  "kept (s\<lparr>k_cached_mask := m\<rparr>) = kept s" "kept (s\<lparr>k_isr_handlers := h\<rparr>) = kept s" "kept (s\<lparr>k_idt := t\<rparr>) = kept s"
  by (simp_all add: kept_def)

lemma kept_pic [simp]: "kept (pic_init b m e s) = kept s"
  by (simp add: pic_init_def pic_remap_def pic_mask_all_def pic_mask_set_def pic_mask_clear_def case_prod_unfold Let_def)

lemma kept_isr [simp]: "kept (snd (add_isr_handler b n h f s)) = kept s"
  by (simp add: add_isr_handler_def idt_set_entry_def Let_def)

lemma kept_idt: "kept (snd (idt_init b k)) = kept k"
proof -
  have "kept (foldl (idt_default b) k is) = kept k" for "is"
    by (induction "is" arbitrary: k) (simp_all add: idt_default_def idt_set_entry_def Let_def)
  then have "kept (foldl (idt_default b) k [0..<255]) = kept k" .
  then show ?thesis unfolding idt_init_def exception_handlers_init_def Let_def by (simp only: snd_conv foldl.simps prod.case kept_io kept_isr kept_pic)
qed

lemma boot_idt:
  "unat n < 255 \<Longrightarrow> idt_target (k_idt (snd (idt_init b k)) n) = bus_isr_table b n \<and>
    idt_attributes (k_idt (snd (idt_init b k)) n) = IDTD_DEFAULT \<and> k_isr_handlers (snd (idt_init b k)) n \<noteq> NoHandler"
  "k_pit_freq (snd (idt_init b k)) = k_pit_freq k" "buffers (snd (idt_init b k)) = buffers k"
  using idt_init_tables [of b k, OF refl] kept_idt [of b k] by (blast, simp_all add: kept_def)

lemma page_tables_init_kst:
  "fst (page_tables_init b pd t s k) = 0"
  "snd (snd (page_tables_init b pd t s k)) = snd (add_isr_handler b 14 Page_fault_handler 0 k)"
  by (simp_all add: page_tables_init_def add_isr_handler_def Let_def)

lemma paging_init_kst:
  assumes "paging_init ops b syms lim pg k = Inr (pg', k')"
  shows "k' = snd (add_isr_handler b 14 Page_fault_handler 0 k)"
  using assms
  by (auto simp: paging_init_def Let_def bindE_Inr_iff case_prod_unfold page_tables_init_kst split: if_splits)

text \<open>What the initialisation leaves when it succeeds.\<close>

lemma kernel_init_result:
  fixes s :: "('d, 'w) kernel_state" and env :: "('d, 'w) boot_env"
  defines "p \<equiv> sy_proc (ks_sys s)" and "k0 \<equiv> sy_kst (ks_sys s)"
  assumes "timer_only (be_bus env)" and "\<forall>d. \<not> bit (fst (bus_in (be_bus env) 1 0x71 d)) 7" and "k_pit_freq k0 = 1000"
    and "paging_init (be_ops env) (be_bus env) (be_syms env) (mb_mem_upper (load_meta (pr_bytes p) mb) * 0x400) (pr_paging p)
      (snd (idt_init (be_bus env) k0)) = Inr (pg, k1)"
    and "kmmap_init (be_ops env) (be_kern_buddy env) pg = Inr (ret, kb, bd, pg')"
    and "multiproc_init (be_ops env) (be_schedule env) (be_kern env)
      (p\<lparr>pr_paging := pg', pr_buddy := (pr_buddy p)(kb := bd), pr_kern_buddy := kb\<rparr>) = Inr (ret', p')"
  shows "\<exists>s'. kernel_init env mb s = Inr s' \<and> sy_proc (ks_sys s') = p' \<and>
    (\<forall>n. unat n < 255 \<longrightarrow> idt_target (k_idt (sy_kst (ks_sys s')) n) = bus_isr_table (be_bus env) n \<and>
      idt_attributes (k_idt (sy_kst (ks_sys s')) n) = (if n = 0x80 then 0xEE else 0x8E) \<and>
      k_isr_handlers (sy_kst (ks_sys s')) n \<noteq> NoHandler) \<and>
    map (k_isr_handlers (sy_kst (ks_sys s'))) [14, 0x20, 0x21, 0x24, 0x2C, 0x80] =
      [Page_fault_handler, Pit_handler, Kbd_interrupt, Serial_interrupt, Ps2_handler, Scall_wrapper] \<and>
    buffers (sy_kst (ks_sys s')) = buffers k0"
proof -
  let ?b = "be_bus env"
  let ?k = "snd (idt_init ?b k0)"
  have k1: "k1 = snd (add_isr_handler ?b 14 Page_fault_handler 0 ?k)" using paging_init_kst [OF assms(6)] .
  have t1: "k_isr_handlers k1 = (k_isr_handlers ?k)(14 := Page_fault_handler)" "k_idt k1 = k_idt ?k" "k_pit_freq k1 = 1000" "buffers k1 = buffers k0"
    using assms(5) boot_idt(2,3) [of ?b k0] by (simp_all add: k1 add_isr_handler_def io_defs)
  obtain k2 where k2: "kernel_drivers ?b (be_apic_available env) (be_pci_uninit env) k1 = Some k2"
    "tables k2 = ((k_isr_handlers k1)(0x24 := Serial_interrupt, 0x21 := Kbd_interrupt, 0x2C := Ps2_handler, 0x20 := Pit_handler),
      k_idt k1, 1000, buffers k1)"
    using kernel_drivers_tables [OF assms(3,4) t1(3)] by blast
  define sys where "sys = (ks_sys s)\<lparr>sy_proc := p', sy_kst := k2, sy_fb := fb_clear (sy_fb (ks_sys s))\<rparr>"
  let ?r = "syscall_init ?b (be_sep env) (be_int_stack env) (be_scall_wrapper env) sys"
  have r: "kernel_init env mb s = Inr \<lparr>ks_sys = ?r, ks_seg = gdt_init (be_gdt env) (be_tss env) (be_int_stack env) (ks_seg s)\<rparr>"
    using assms(6-8) k2(1) by (simp add: kernel_init_def p_def k0_def sys_def Let_def)
  have t2: "k_isr_handlers k2 = (k_isr_handlers ?k)(14 := Page_fault_handler, 0x24 := Serial_interrupt, 0x21 := Kbd_interrupt,
      0x2C := Ps2_handler, 0x20 := Pit_handler)" "k_idt k2 = k_idt ?k" "buffers k2 = buffers k0"
    using k2(2) t1(1,2,4) by (simp_all add: tables_def)
  have sk: "sy_kst sys = k2" "sy_proc ?r = p'" by (simp_all add: sys_def syscall_init_def syscall_setup_def)
  note g = syscall_init_gate [where b = ?b and sep = "be_sep env" and stack = "be_int_stack env" and entry = "be_scall_wrapper env" and s = sys, unfolded sk(1)]
  have "idt_target (k_idt (sy_kst ?r) n) = bus_isr_table ?b n \<and> idt_attributes (k_idt (sy_kst ?r) n) = (if n = 0x80 then 0xEE else 0x8E) \<and>
      k_isr_handlers (sy_kst ?r) n \<noteq> NoHandler" if "unat n < 255" for n
    using boot_idt(1) [OF that, of ?b k0] g t2 by (cases "n = 0x80") (simp_all add: g(1))
  moreover have "buffers (sy_kst ?r) = buffers k2"
    by (simp add: syscall_init_def syscall_setup_def add_isr_handler_def idt_set_entry_def sys_def klog_def trace_event_def Let_def)
  ultimately show ?thesis using r sk(2) g(1) t2(1,3) by simp
qed

text \<open>
  C6. The initialisation of the drivers ends, on a machine with a running timer and an idle clock, and leaves
  complete interrupt tables: when the memory components and the tasks can be initialised, so can the
  kernel; then every interrupt below 255 leads to its entry stub and has a handler, the timer, keyboard,
  serial port, mouse, page fault and system call have theirs, and only the gate of the system call is open
  to user programs.
\<close>

theorem kernel_init_ready:
  fixes s :: "('d, 'w) kernel_state" and env :: "('d, 'w) boot_env"
  defines "p \<equiv> sy_proc (ks_sys s)" and "k0 \<equiv> sy_kst (ks_sys s)"
  assumes "timer_only (be_bus env)" and "\<forall>d. \<not> bit (fst (bus_in (be_bus env) 1 0x71 d)) 7" and "k_pit_freq k0 = 1000"
    and "paging_init (be_ops env) (be_bus env) (be_syms env) (mb_mem_upper (load_meta (pr_bytes p) mb) * 0x400) (pr_paging p)
      (snd (idt_init (be_bus env) k0)) = Inr (pg, k1)"
    and "kmmap_init (be_ops env) (be_kern_buddy env) pg = Inr (ret, kb, bd, pg')"
    and "multiproc_init (be_ops env) (be_schedule env) (be_kern env)
      (p\<lparr>pr_paging := pg', pr_buddy := (pr_buddy p)(kb := bd), pr_kern_buddy := kb\<rparr>) = Inr (ret', p')"
  shows "\<exists>s'. kernel_init env mb s = Inr s' \<and> sy_proc (ks_sys s') = p' \<and>
    (\<forall>n. unat n < 255 \<longrightarrow> idt_target (k_idt (sy_kst (ks_sys s')) n) = bus_isr_table (be_bus env) n \<and>
      idt_attributes (k_idt (sy_kst (ks_sys s')) n) = (if n = 0x80 then 0xEE else 0x8E) \<and>
      k_isr_handlers (sy_kst (ks_sys s')) n \<noteq> NoHandler) \<and>
    map (k_isr_handlers (sy_kst (ks_sys s'))) [14, 0x20, 0x21, 0x24, 0x2C, 0x80] =
      [Page_fault_handler, Pit_handler, Kbd_interrupt, Serial_interrupt, Ps2_handler, Scall_wrapper]"
  using kernel_init_result [OF assms(3,4) assms(5-8) [unfolded p_def k0_def]] unfolding p_def k0_def by (elim exE conjE) (intro exI conjI, assumption+)

section \<open>A machine that starts\<close>

text \<open>The allocators of \<open>bump_ops\<close> give out memory upwards: the steps of the initialisation on them.\<close>

lemma bump_fill:
  "0 < unat (bd_mem b) \<Longrightarrow> unat (bd_mem b) + 0x1000 * length is < 4294967296 \<Longrightarrow>
    \<exists>b'. buddy_fill (mem_ops.truncate bump_ops) is loc b = Inr (True, b') \<and>
      unat (bd_mem b') = unat (bd_mem b) + 0x1000 * length is"
proof (induction "is" arbitrary: loc b)
  case (Cons i "is")
  let ?w = "bd_mem b"
  define b1 where "b1 = link_node (MAX_ORDER - 1) loc ?w (b\<lparr>bd_mem := ?w + 0x1000\<rparr>)"
  define b2 where "b2 = b1\<lparr>bd_addr := (bd_addr b1)(?w := bd_mem_start b + word_of_nat i * MAX_BUDDY_BYTES)\<rparr>"
  have m: "bd_mem b2 = ?w + 0x1000" by (simp add: b1_def b2_def link_node_def split: option.split)
  have u: "unat (bd_mem b2) = unat ?w + 0x1000" unfolding m using Cons.prems by (simp add: unat_u32_add)
  have "?w \<noteq> 0" using Cons.prems by auto
  then have "buddy_fill (mem_ops.truncate bump_ops) (i # is) loc b = buddy_fill (mem_ops.truncate bump_ops) is (Some ?w) b2"
    by (simp add: bump_ops_def mem_ops.truncate_def Let_def b1_def b2_def)
  moreover obtain b' where "buddy_fill (mem_ops.truncate bump_ops) is (Some ?w) b2 = Inr (True, b')"
    "unat (bd_mem b') = unat (bd_mem b2) + 0x1000 * length is"
    using Cons.IH [of b2 "Some ?w"] Cons.prems u by auto
  ultimately show ?case using u by simp
qed simp

lemma bump_create:
  "\<exists>p b. buddy_alloc_create (mem_ops.truncate bump_ops) 0xD0000000 0xFFFFFFFF (b0\<lparr>bd_mem := 0x100097\<rparr>) = Inr (p, b) \<and>
    unat (bd_mem b) = 1880523"
proof -
  have map: "get_buddy_map_size 0x2FFFFFFF = 12282" by code_simp
  have num: "(0x2FFFFFFF :: u32) div MAX_BUDDY_BYTES = 191" by code_simp
  have o: "mo_kmalloc (mem_ops.truncate bump_ops) n w = Inr (w, w + n)"
    "mo_cache_create (mem_ops.truncate bump_ops) n w = Inr (w, w + 136)" for n w
    by (simp_all add: bump_ops_def mem_ops.truncate_def)
  have f: "\<exists>p b'. bindE (buddy_fill (mem_ops.truncate bump_ops) [0..<191] None b)
      (\<lambda>(ok, b4). Inr (if ok then q else 0, b4)) = Inr (p, b') \<and> unat (bd_mem b') = 1880523"
    if "bd_mem b = 0x10C1CB" for b :: "u32 buddy_state" and q :: u32
    using bump_fill [of b "[0..<191]" None] that by auto
  show ?thesis
    by (simp add: buddy_alloc_create_def alloc_buddy_maps_def Let_def map num o del: upt_Suc) (rule f, simp)
qed

text \<open>Devices that always answer 0.\<close>

definition idle_bus :: "u32 list bus" where
  "idle_bus = script_bus\<lparr>bus_in := (\<lambda>_ _ d. (0, d))\<rparr>"

definition demo_env :: "(u32 list, u32) boot_env" where
  "demo_env = \<lparr>be_ops = bump_ops, be_bus = idle_bus,
     be_syms = \<lparr>sym_kernel_end = 0xFF000, sym_virt_kernel_addr = VADDR, sym_init_pd = 64, sym_init_page_tables = 0x1000,
       sym_init_page_tables_virt = 0x2000, sym_kernel_page_table = 0x10000\<rparr>,
     be_uninit = 0, be_pci_uninit = \<lparr>pd_bus = 0, pd_dev = 0, pd_irq = 0, pd_io_addr = 0\<rparr>, be_apic_available = True, be_sep = True,
     be_gdt = 0x6000, be_tss = 0x7000, be_int_stack = 0x8000, be_scall_wrapper = 0x101000, be_schedule = 0x102000, be_kern = 0x103000,
     be_kern_buddy = one_page_buddy, be_user_buddy = one_page_buddy,
     be_rd = \<lparr>re_root_header = 0, re_rd_fs = 0, re_uninit = 0, re_uninit_ops = False, re_old = blank_node, re_old_nodes = []\<rparr>,
     be_init_path = 0x9000\<rparr>"

text \<open>64 MB of memory.\<close>

definition demo_kernel :: "(u32 list, u32) kernel_state" where
  "demo_kernel = \<lparr>ks_sys = demo_sys\<lparr>sy_proc := demo_proc\<lparr>pr_bytes := store_word 0x5008 0xFC00 (\<lambda>_. 0)\<rparr>, sy_kst := kst_script []\<rparr>,
     ks_seg = \<lparr>sg_gdt = [], sg_gdtr_base = 0, sg_gdtr_limit = 0, sg_tss = zero_tss, sg_kern_int_stack_end = 0, sg_gdt_loaded = False,
       sg_tss_loaded = False, sg_int_enabled = True\<rparr>\<rparr>"

lemma pg_mem_foldl: "(\<And>s x. pg_mem (f s x) = pg_mem s) \<Longrightarrow> pg_mem (foldl f s xs) = pg_mem s"
  by (induction xs arbitrary: s) simp_all

lemma page_tables_init_mem: "pg_mem (fst (snd (page_tables_init b pd t s k))) = pg_mem s"
proof -
  have "pg_mem (init_rw pd s i) = pg_mem s" "pg_mem (init_frame t s i) = pg_mem s" "pg_mem (init_table pd t s i) = pg_mem s"
    for s :: "'a paging_state" and i
    by (simp_all add: init_rw_def init_frame_def init_table_def alloc_frame_at_def set_elems_def set_pt_entry_def set_pt_virt_def
        set_elem_def pg_mem_foldl Let_def case_prod_unfold)
  then show ?thesis by (simp add: page_tables_init_def pg_mem_foldl Let_def case_prod_unfold)
qed

lemma demo_paging_init:
  "\<exists>pg k'. paging_init bump_ops b (be_syms demo_env) 0x3F00000 pg0 k = Inr (pg, k') \<and> pg_mem pg = 0x100097"
proof -
  have o: "mo_kmalloc bump_ops n w = Inr (w, w + n)" "po_cache_create_align bump_ops n m w = Inr (w, w + 136)"
    "po_heap_init bump_ops l base w = base" for n m w l base by (simp_all add: bump_ops_def)
  show ?thesis
    by (simp add: paging_init_def Let_def o case_prod_unfold page_tables_init_kst page_tables_init_mem frame_alloc_init_def demo_env_def)
qed

lemma demo_init_parts:
  fixes p defines "p \<equiv> sy_proc (ks_sys demo_kernel)"
  shows "\<exists>pg k1 q bd pg' p'.
    paging_init bump_ops idle_bus (be_syms demo_env) (mb_mem_upper (load_meta (pr_bytes p) 0x5000) * 0x400) (pr_paging p)
      (snd (idt_init idle_bus (sy_kst (ks_sys demo_kernel)))) = Inr (pg, k1) \<and>
    kmmap_init bump_ops one_page_buddy pg = Inr (0, q, bd, pg') \<and>
    multiproc_init bump_ops (be_schedule demo_env) (be_kern demo_env)
      (p\<lparr>pr_paging := pg', pr_buddy := (pr_buddy p)(q := bd), pr_kern_buddy := q\<rparr>) = Inr (0, p')"
proof -
  have m: "mb_mem_upper (load_meta (pr_bytes p) 0x5000) * 0x400 = 0x3F00000"
    using load_store_word [of "0x5008" "0xFC00" "\<lambda>_. 0"] by (simp add: demo_kernel_def load_meta_def p_def)
  obtain pg k1 where pg: "paging_init bump_ops idle_bus (be_syms demo_env)
      (mb_mem_upper (load_meta (pr_bytes p) 0x5000) * 0x400) (pr_paging p)
      (snd (idt_init idle_bus (sy_kst (ks_sys demo_kernel)))) = Inr (pg, k1)"
    "pg_mem pg = 0x100097" using demo_paging_init unfolding m by blast
  obtain q bd where "buddy_alloc_create (mem_ops.truncate bump_ops) 0xD0000000 0xFFFFFFFF (one_page_buddy\<lparr>bd_mem := pg_mem pg\<rparr>) = Inr (q, bd)"
    "unat (bd_mem bd) = 1880523" using bump_create [of one_page_buddy] unfolding pg(2) by blast
  then obtain pg' where km: "kmmap_init bump_ops one_page_buddy pg = Inr (0, q, bd, pg')" "unat (pg_mem pg') = 1880523"
    by (simp add: kmmap_init_def with_buddy_def)
  have w: "pg_mem pg' = 1880523" using km(2) by (simp add: word_unat_eq_iff)
  have "\<exists>p'. multiproc_init bump_ops (be_schedule demo_env) (be_kern demo_env)
      (p\<lparr>pr_paging := pg', pr_buddy := (pr_buddy p)(q := bd), pr_kern_buddy := q\<rparr>) = Inr (0, p')"
    by (simp add: multiproc_init_def with_mem_def pit_add_callback_def bump_ops_def w demo_kernel_def demo_proc_def p_def Let_def)
  then show ?thesis using pg(1) km(1) by blast
qed

lemma demo_env_parts:
  "be_bus demo_env = idle_bus" "be_ops demo_env = bump_ops" "be_kern_buddy demo_env = one_page_buddy"
  "k_pit_freq (sy_kst (ks_sys demo_kernel)) = 1000" "timer_only (be_bus demo_env)"
  "\<forall>d. \<not> bit (fst (bus_in (be_bus demo_env) 1 0x71 d)) 7"
  by (simp_all add: demo_env_def demo_kernel_def kst_script_def timer_only_def idle_bus_def script_bus_def)

theorem kernel_init_ready_witness:
  "\<exists>s'. kernel_init demo_env 0x5000 demo_kernel = Inr s' \<and> k_isr_handlers (sy_kst (ks_sys s')) 0x80 = Scall_wrapper \<and>
    idt_target (k_idt (sy_kst (ks_sys s')) 0x80) = 0x100800"
proof -
  obtain pg k1 q bd pg' p' where "paging_init (be_ops demo_env) (be_bus demo_env) (be_syms demo_env)
      (mb_mem_upper (load_meta (pr_bytes (sy_proc (ks_sys demo_kernel))) 0x5000) * 0x400) (pr_paging (sy_proc (ks_sys demo_kernel)))
      (snd (idt_init (be_bus demo_env) (sy_kst (ks_sys demo_kernel)))) = Inr (pg, k1)"
    "kmmap_init (be_ops demo_env) (be_kern_buddy demo_env) pg = Inr (0, q, bd, pg')"
    "multiproc_init (be_ops demo_env) (be_schedule demo_env) (be_kern demo_env)
      ((sy_proc (ks_sys demo_kernel))\<lparr>pr_paging := pg', pr_buddy := (pr_buddy (sy_proc (ks_sys demo_kernel)))(q := bd),
         pr_kern_buddy := q\<rparr>) = Inr (0, p')"
    using demo_init_parts unfolding demo_env_parts by blast
  note r = kernel_init_ready [OF demo_env_parts(5,6,4) this]
  have "unat (0x80 :: u8) < 255" by simp
  then show ?thesis using r by (auto simp: demo_env_parts(1) idle_bus_def script_bus_def)
qed

lemma demo_kernel_init: "\<exists>s. kernel_init demo_env 0x5000 demo_kernel = Inr s"
  using demo_init_parts kernel_init_result [OF demo_env_parts(5,6,4)] unfolding demo_env_parts by blast

end
