(* ===== verification/Kernel_Steps.thy ===== *)
theory Kernel_Steps
  imports Boot
begin

text \<open>
  The kernel after its initialisation: it only runs when an interrupt arrives. The entry of an interrupt
  (\<open>src/kernel/int.c\<close>) with the frame that the stub \<open>common_isr\<close> of \<open>src/kernel/int_l.asm\<close> leaves on the stack, the
  wrapper of the system calls (\<open>src/kernel/syscall.asm\<close>), and the step relation of the whole machine: interrupts of
  devices, page faults and system calls change the state by the operations of the components; between two of
  them the devices change and programs write to memory. The lemmas are the invariants of the states that the
  kernel reaches.

  The memory that programs write is \<open>pr_bytes\<close> and the contents of the pages; the variables of the kernel are
  fields of the state, apart from this memory.
\<close>

section \<open>The frame of an interrupt\<close>

record x86_cpu_state =
  cpu_edi :: u32
  cpu_esi :: u32
  cpu_ebp :: u32
  cpu_esp :: u32
  cpu_ebx :: u32
  cpu_edx :: u32
  cpu_ecx :: u32
  cpu_eax :: u32

record isr_full_stack =
  ifs_cpu_st :: x86_cpu_state
  ifs_int_num :: u32
  ifs_error_code :: u32
  ifs_eip :: u32
  ifs_cs :: u32
  ifs_eflags :: u32

text \<open>\<open>cpu_regs\<close> points to the registers in the frame; the field is what it points to.\<close>

record isr_handler_args =
  ia_int_id :: u32
  ia_error :: u32
  ia_cs :: u32
  ia_esp :: u32
  ia_eip :: u32
  ia_cpu_regs :: x86_cpu_state

definition isr_args :: "u32 \<Rightarrow> isr_full_stack \<Rightarrow> isr_handler_args" where
  "isr_args esp isr =
     \<lparr>ia_int_id = ifs_int_num isr, ia_error = ifs_error_code isr, ia_cs = ifs_cs isr, ia_esp = esp, ia_eip = ifs_eip isr,
      ia_cpu_regs = ifs_cpu_st isr\<rparr>"

lemma isr_args_simps [simp]:
  "ia_int_id (isr_args esp isr) = ifs_int_num isr" "ia_error (isr_args esp isr) = ifs_error_code isr"
  "ia_esp (isr_args esp isr) = esp" "ia_eip (isr_args esp isr) = ifs_eip isr"
  by (simp_all add: isr_args_def)

section \<open>The wrapper of the system calls\<close>

text \<open>
  The user program leaves seven registers on its stack, below the return address, the number of the call, the
  number of arguments and the arguments. The wrapper reads the stack pointer at offset 12 of the arguments of the
  handler (through \<open>edx\<close>: its own \<open>[esp + 8]\<close> is the saved \<open>edx\<close>, where the compiled \<open>isr_x86\<close> leaves their
  address). It pushes the arguments in a loop that is left when the counter is zero after a decrement: without
  arguments it pushes 4294967296 words, over the end of the stack. \<open>rest\<close> is what lies on the stack behind the
  pushed arguments, for a call that reads more than there are. After the call the wrapper pushes the result, moves the
  stack pointer by the number of arguments, read again from the memory of the user, and pops \<open>eax\<close>; when the number has
  changed, the registers and the return address come from the wrong place.
\<close>

definition scall_args :: "mem8 \<Rightarrow> u32 \<Rightarrow> u32 \<Rightarrow> va_list \<Rightarrow> va_list" where
  "scall_args m ebx n rest i =
     (if i < unat n then load_word m (ebx + 4 * word_of_nat (Suc i) + 4) else rest (i - unat n))"

definition scall_wrapper ::
  "'w page_ops \<Rightarrow> u32 \<Rightarrow> 'w buddy_state \<Rightarrow> va_list \<Rightarrow> u32 \<Rightarrow> ('d, 'w) sys_state \<Rightarrow> fault + u32 \<times> ('d, 'w) sys_state" where
  "scall_wrapper ops uninit b0 rest esp s =
     (let m = pr_bytes (sy_proc s);
          ebx = esp + (7 * 4 + 4);
          edi = load_word m (ebx + 4);
          args = scall_args m ebx edi rest
      in if edi = 0 then Inl OutOfBounds
         else bindE (syscall_exec ops uninit b0 (load_word m ebx) args s) (\<lambda>(_, s).
           if load_word (pr_bytes (sy_proc s)) (ebx + 4) \<noteq> edi then Inl OutOfBounds
           else Inr (args (unat edi - 1), s)))"

section \<open>An interrupt\<close>

text \<open>
  \<open>isr_x86\<close> acknowledges the interrupt and calls the handler; for the handlers of page faults and system calls,
  which the interrupt component leaves out, the call follows here. \<open>cr2\<close> is the address of a page fault. The
  stub passes \<open>ecx\<close> as \<open>esp\<close> and restores all registers, so that nothing of the result of a system call remains.
\<close>

definition isr_kernel ::
  "('d, 'w) boot_env \<Rightarrow> u32 \<Rightarrow> va_list \<Rightarrow> isr_full_stack \<Rightarrow> ('d, 'w) sys_state \<Rightarrow> fault + ('d, 'w) sys_state" where
  "isr_kernel env cr2 rest isr s =
     (let args = isr_args (cpu_ecx (ifs_cpu_st isr)) isr;
          n = ucast (ia_int_id args) :: u8;
          h = k_isr_handlers (sy_kst s) n
      in if ia_int_id args \<ge> 256 then Inl OutOfBounds
         else case isr_x86 (be_bus env) n (ia_eip args) (sy_kst s) of
           None \<Rightarrow> Inl (if h = NoHandler then NullDeref else OutOfBounds)
         | Some k \<Rightarrow>
             let s = s\<lparr>sy_kst := k\<rparr> in
             (case h of
               Page_fault_handler \<Rightarrow>
                 bindE (page_fault (be_ops env) (be_uninit env) cr2 (ia_error args) (pr_paging (sy_proc s))) (\<lambda>pg.
                   Inr (s\<lparr>sy_proc := (sy_proc s)\<lparr>pr_paging := pg\<rparr>\<rparr>))
             | Scall_wrapper \<Rightarrow>
                 bindE (scall_wrapper (be_ops env) (be_uninit env) (be_user_buddy env) rest (ia_esp args) s) (\<lambda>(_, s). Inr s)
             | _ \<Rightarrow> Inr s))"

section \<open>Steps of the machine\<close>

text \<open>
  An event is an interrupt with \<open>cr2\<close>, the stack behind the arguments of a system call and the frame; a change of the
  devices; or writes of programs and devices to memory.
\<close>

datatype 'd kernel_event =
    Interrupt u32 va_list isr_full_stack
  | Device 'd
  | Writes mem8 "u32 \<Rightarrow> u32 \<Rightarrow> u8"

definition handler_of :: "('d, 'w) sys_state \<Rightarrow> isr_full_stack \<Rightarrow> handler" where
  "handler_of s isr = k_isr_handlers (sy_kst s) (ucast (ifs_int_num isr))"

inductive kernel_step ::
  "('d, 'w) boot_env \<Rightarrow> ('d, 'w) kernel_state \<Rightarrow> 'd kernel_event \<Rightarrow> ('d, 'w) kernel_state \<Rightarrow> bool"
  for env where
  device_interrupt:
    "ifs_int_num isr < 256 \<Longrightarrow> handler_of (ks_sys s) isr \<notin> {Page_fault_handler, Scall_wrapper} \<Longrightarrow>
     isr_x86 (be_bus env) (ucast (ifs_int_num isr)) (ifs_eip isr) (sy_kst (ks_sys s)) = Some k \<Longrightarrow>
     kernel_step env s (Interrupt cr2 rest isr) (s\<lparr>ks_sys := (ks_sys s)\<lparr>sy_kst := k\<rparr>\<rparr>)"
| page_fault_interrupt:
    "ifs_int_num isr < 256 \<Longrightarrow> handler_of (ks_sys s) isr = Page_fault_handler \<Longrightarrow>
     isr_x86 (be_bus env) (ucast (ifs_int_num isr)) (ifs_eip isr) (sy_kst (ks_sys s)) = Some k \<Longrightarrow>
     p = sy_proc (ks_sys s) \<Longrightarrow>
     page_fault (be_ops env) (be_uninit env) cr2 (ifs_error_code isr) (pr_paging p) = Inr pg \<Longrightarrow>
     kernel_step env s (Interrupt cr2 rest isr) (s\<lparr>ks_sys := (ks_sys s)\<lparr>sy_kst := k, sy_proc := p\<lparr>pr_paging := pg\<rparr>\<rparr>\<rparr>)"
| system_call:
    "ifs_int_num isr < 256 \<Longrightarrow> handler_of (ks_sys s) isr = Scall_wrapper \<Longrightarrow>
     isr_x86 (be_bus env) (ucast (ifs_int_num isr)) (ifs_eip isr) (sy_kst (ks_sys s)) = Some k \<Longrightarrow>
     scall_wrapper (be_ops env) (be_uninit env) (be_user_buddy env) rest (cpu_ecx (ifs_cpu_st isr))
       ((ks_sys s)\<lparr>sy_kst := k\<rparr>) = Inr (eax, sys) \<Longrightarrow>
     kernel_step env s (Interrupt cr2 rest isr) (s\<lparr>ks_sys := sys\<rparr>)"
| device_change:
    "kernel_step env s (Device d) (s\<lparr>ks_sys := (ks_sys s)\<lparr>sy_kst := (sy_kst (ks_sys s))\<lparr>k_dev := d\<rparr>\<rparr>\<rparr>)"
| memory_write:
    "p = sy_proc (ks_sys s) \<Longrightarrow>
     kernel_step env s (Writes m pages)
       (s\<lparr>ks_sys := (ks_sys s)\<lparr>sy_proc := p\<lparr>pr_bytes := m, pr_paging := (pr_paging p)\<lparr>pg_page := pages\<rparr>\<rparr>\<rparr>\<rparr>)"

inductive_cases interrupt_stepE: "kernel_step env s (Interrupt cr2 rest isr) s'"
inductive_simps device_step_iff: "kernel_step env s (Device d) s'"
inductive_simps write_step_iff: "kernel_step env s (Writes m pages) s'"

inductive kernel_run ::
  "('d, 'w) boot_env \<Rightarrow> ('d, 'w) kernel_state \<Rightarrow> 'd kernel_event list \<Rightarrow> ('d, 'w) kernel_state \<Rightarrow> bool"
  for env s where
  start: "kernel_run env s [] s"
| step: "kernel_run env s es t \<Longrightarrow> kernel_step env t e u \<Longrightarrow> kernel_run env s (es @ [e]) u"

inductive_cases kernel_run_NilE: "kernel_run env s [] t"

text \<open>The relation is the function on interrupts.\<close>

lemma isr_kernel_cases:
  "isr_kernel env cr2 rest isr s = Inr s' \<longleftrightarrow>
    ifs_int_num isr < 256 \<and>
    (\<exists>k. isr_x86 (be_bus env) (ucast (ifs_int_num isr)) (ifs_eip isr) (sy_kst s) = Some k \<and>
      (if handler_of s isr = Page_fault_handler
       then \<exists>pg. page_fault (be_ops env) (be_uninit env) cr2 (ifs_error_code isr) (pr_paging (sy_proc s)) = Inr pg \<and>
         s' = s\<lparr>sy_kst := k, sy_proc := (sy_proc s)\<lparr>pr_paging := pg\<rparr>\<rparr>
       else if handler_of s isr = Scall_wrapper
       then \<exists>eax. scall_wrapper (be_ops env) (be_uninit env) (be_user_buddy env) rest (cpu_ecx (ifs_cpu_st isr))
         (s\<lparr>sy_kst := k\<rparr>) = Inr (eax, s')
       else s' = s\<lparr>sy_kst := k\<rparr>))"
  by (cases "isr_x86 (be_bus env) (ucast (ifs_int_num isr)) (ifs_eip isr) (sy_kst s)")
    (auto simp: isr_kernel_def handler_of_def Let_def bindE_Inr_iff not_le split: handler.split)

lemma interrupt_step_iff:
  "kernel_step env s (Interrupt cr2 rest isr) s' \<longleftrightarrow>
    (\<exists>sys. isr_kernel env cr2 rest isr (ks_sys s) = Inr sys \<and> s' = s\<lparr>ks_sys := sys\<rparr>)"
proof
  assume "kernel_step env s (Interrupt cr2 rest isr) s'"
  then show "\<exists>sys. isr_kernel env cr2 rest isr (ks_sys s) = Inr sys \<and> s' = s\<lparr>ks_sys := sys\<rparr>"
    by (cases rule: interrupt_stepE) (auto simp: isr_kernel_cases)
next
  assume "\<exists>sys. isr_kernel env cr2 rest isr (ks_sys s) = Inr sys \<and> s' = s\<lparr>ks_sys := sys\<rparr>"
  then obtain sys where i: "isr_kernel env cr2 rest isr (ks_sys s) = Inr sys" and s': "s' = s\<lparr>ks_sys := sys\<rparr>" by blast
  note c = i [unfolded isr_kernel_cases]
  consider "handler_of (ks_sys s) isr = Page_fault_handler" | "handler_of (ks_sys s) isr = Scall_wrapper"
    | "handler_of (ks_sys s) isr \<notin> {Page_fault_handler, Scall_wrapper}" by blast
  then show "kernel_step env s (Interrupt cr2 rest isr) s'"
  proof cases
    case 1
    then show ?thesis using c unfolding s' by (auto intro: page_fault_interrupt)
  next
    case 2
    then show ?thesis using c unfolding s' by (auto intro: system_call)
  next
    case 3
    then show ?thesis using c unfolding s' by (auto intro: device_interrupt)
  qed
qed

section \<open>What interrupts leave alone\<close>

text \<open>The tables, the rate of the timer, the receivers of the keyboard and the devices that were found.\<close>

definition config :: "'d kst \<Rightarrow> (u8 \<Rightarrow> handler) \<times> (u8 \<Rightarrow> idt_entry) \<times> u32 \<times> (nat \<Rightarrow> u32) \<times> u32 \<times> pci_dev_data \<times> pci_dev list" where
  "config k = (k_isr_handlers k, k_idt k, k_pit_freq k, k_receiver_f k, k_receiver_num k, k_rtl_dev k, k_pci_devices k)"

lemma config_io [simp]:
  "config (trace_event e s) = config s" "config (klog m s) = config s" "config (outb b p v s) = config s"
  "config (snd (inb b p s)) = config s" "config (outw b p w s) = config s" "config (snd (inw b p s)) = config s"
  "config (pic_eoi b n s) = config s"
  by (simp_all add: config_def io_defs pic_eoi_def case_prod_unfold)

lemma config_upd [simp]:
  "config (s\<lparr>k_tick := t\<rparr>) = config s" "config (s\<lparr>k_int_count := t\<rparr>) = config s" "config (s\<lparr>k_last_eip := t\<rparr>) = config s"
  "config (s\<lparr>k_floppy_irq_tick := t\<rparr>) = config s" "config (s\<lparr>k_kbd_buf := t\<rparr>) = config s" "config (s\<lparr>k_cur_pos := t\<rparr>) = config s"
  "config (s\<lparr>k_read_pos := t\<rparr>) = config s" "config (s\<lparr>k_read_buf := f\<rparr>) = config s" "config (s\<lparr>k_dev := d\<rparr>) = config s"
  by (simp_all add: config_def)

lemma call_receivers_frame:
  "call_receivers c rs s = Some s' \<Longrightarrow> config s' = config s \<and> k_tick s' = k_tick s \<and> k_int_count s' = k_int_count s"
proof (induction rs arbitrary: s)
  case (Cons r rs)
  show ?case
  proof (cases "k_receiver_f s r = 0")
    case False
    then have "call_receivers c rs (trace_event (Callback (k_receiver_f s r) c) s) = Some s'" using Cons.prems by simp
    from Cons.IH [OF this] show ?thesis by (simp add: trace_event_def config_def)
  qed (use Cons.prems in simp)
qed simp

lemma counters_io [simp]:
  "k_tick (trace_event e s) = k_tick s"
  "k_tick (snd (inb b p s)) = k_tick s" "k_tick (outw b p w s) = k_tick s" "k_tick (snd (inw b p s)) = k_tick s"
  "k_int_count (trace_event e s) = k_int_count s" "k_int_count (klog m s) = k_int_count s" "k_int_count (outb b p v s) = k_int_count s"
  "k_int_count (snd (inb b p s)) = k_int_count s" "k_int_count (outw b p w s) = k_int_count s"
  "k_int_count (snd (inw b p s)) = k_int_count s" "k_int_count (pic_eoi b n s) = k_int_count s"
  by (simp_all add: io_defs pic_eoi_def case_prod_unfold)

lemmas handler_defs = void_handler_def gp_fault_def invalid_tss_handler_def invalid_opcode_def spurious_handler_def
  general_handler_def pit_handler_def floppy_handler_def ps2_handler_def ps2_read_status_def ps2_read_data_def
  read_scan_code_def rx_ready_def tx_free_def serial_send_def serial_read_def

lemma kbd_interrupt_frame:
  "kbd_interrupt b s = Some s' \<Longrightarrow> config s' = config s \<and> k_tick s' = k_tick s \<and> k_int_count s' = k_int_count s"
  by (auto simp: kbd_interrupt_def handler_defs case_prod_unfold Let_def split: if_splits Option.bind_splits
      dest!: call_receivers_frame)

lemma serial_interrupt_frame:
  "serial_interrupt b s = Some s' \<Longrightarrow> config s' = config s \<and> k_tick s' = k_tick s \<and> k_int_count s' = k_int_count s"
  by (auto simp: serial_interrupt_def handler_defs case_prod_unfold Let_def split: if_splits)

lemma rtl_handler_frame:
  "config (rtl_handler b s) = config s \<and> k_tick (rtl_handler b s) = k_tick s \<and> k_int_count (rtl_handler b s) = k_int_count s"
  by (simp add: rtl_handler_def case_prod_unfold Let_def)

lemma call_handler_frame:
  assumes "call_handler b h eip s = Some s'"
  shows "config s' = config s \<and> k_tick s' = (if h = Pit_handler then k_tick s + 1 else k_tick s) \<and> k_int_count s' = k_int_count s"
  using assms
  by (cases h)
    (auto simp: call_handler_def handler_defs rtl_handler_frame dest: kbd_interrupt_frame serial_interrupt_frame)

lemma isr_x86_frame:
  assumes "isr_x86 b n eip s = Some s'"
  shows "config s' = config s" and "k_tick s' = (if k_isr_handlers s n = Pit_handler then k_tick s + 1 else k_tick s)"
    and "k_int_count s' = k_int_count s + 1"
  using call_handler_frame [OF assms [unfolded isr_x86_def Let_def]] by (auto split: if_splits)

section \<open>What system calls leave alone\<close>

text \<open>The ram disk, the events of the timer, the allocators of the kernel and the flag of the scheduler.\<close>

definition proc_config ::
  "'w proc_state \<Rightarrow> initrd \<times> fs_node list \<times> (u32 \<Rightarrow> pit_event) \<times> u32 \<times> u32 \<times> bool \<times> u32 \<times> u32" where
  "proc_config p = (pr_rd p, pr_fs p, pr_event p, pr_events p, pr_event_queue p, pr_ready_schedule p, pr_kern_buddy p, pr_task_slab p)"

lemma proc_config_upd [simp]:
  "proc_config (p\<lparr>pr_bytes := m\<rparr>) = proc_config p" "proc_config (p\<lparr>pr_paging := pg\<rparr>) = proc_config p"
  "proc_config (p\<lparr>pr_buddy := bd\<rparr>) = proc_config p" "proc_config (p\<lparr>pr_task_list := t\<rparr>) = proc_config p"
  "proc_config (p\<lparr>pr_last_user_tid := i\<rparr>) = proc_config p" "proc_config (p\<lparr>pr_last_kernel_tid := i\<rparr>) = proc_config p"
  "proc_config (p\<lparr>pr_int_enabled := b\<rparr>) = proc_config p" "proc_config (p\<lparr>pr_cur_task := t\<rparr>) = proc_config p"
  "proc_config (p\<lparr>pr_user := u\<rparr>) = proc_config p" "proc_config (upd_task t f p) = proc_config p"
  by (simp_all add: proc_config_def upd_task_def)

lemma with_mem_config: "with_mem f p = Inr (r, p') \<Longrightarrow> proc_config p' = proc_config p"
  by (auto simp: with_mem_def bindE_Inr_iff)

lemma with_space_config: "with_space a f p = Inr (r, p') \<Longrightarrow> proc_config p' = proc_config p"
  by (auto simp: with_space_def bindE_Inr_iff)

lemma new_buddy_config: "new_buddy f b p = Inr (r, p') \<Longrightarrow> proc_config p' = proc_config p"
  by (auto simp: new_buddy_def bindE_Inr_iff)

lemmas call_config = with_mem_config with_space_config new_buddy_config

lemma fork_task_config:
  assumes "fork_task ops uninit t p = Inr (r, p')"
  shows "proc_config p' = proc_config p"
  using assms by (auto simp: fork_task_def Let_def bindE_Inr_iff split: if_splits dest!: call_config)

lemma fork_config: "fork ops uninit b0 p = Inr (r, p') \<Longrightarrow> proc_config p' = proc_config p"
  by (auto simp: fork_def bindE_Inr_iff dest!: call_config fork_task_config)

lemma execve_config: "execve ops exec p = Inr (r, p') \<Longrightarrow> proc_config p' = proc_config p"
  by (auto simp: execve_def bindE_Inr_iff split: option.splits dest!: call_config)

lemma doubly_ll_remove_config: "proc_config (doubly_ll_remove t p) = proc_config p"
  by (simp add: doubly_ll_remove_def Let_def)

lemma exit_task_config: "exit_task ops code p = Inr p' \<Longrightarrow> proc_config p' = proc_config p"
  by (auto simp: exit_task_def free_task_def switch_task_def kern_def run_user_task_def run_kernel_task_def Let_def bindE_Inr_iff
      doubly_ll_remove_config split: if_splits dest!: call_config)

text \<open>What a system call can do to the rest of the kernel: nothing to the drivers and to the registers for \<open>sysenter\<close>.\<close>

lemma syscall_exec_frame:
  assumes "syscall_exec ops uninit b0 num args s = Inr (r, s')"
  shows "sy_kst s' = sy_kst s" and "proc_config (sy_proc s') = proc_config (sy_proc s)"
    and "sy_msr s' = sy_msr s" and "sy_sysenter_avl s' = sy_sysenter_avl s"
  using assms
  by (auto simp: syscall_exec_def call_syscall_def sys_read_def sys_write_def sys_fork_def sys_execve_def sys_exit_def Let_def
      bindE_Inr_iff case_prod_unfold split: if_splits option.splits syscall_f.splits
      dest: fork_config execve_config exit_task_config)

lemma scall_wrapper_frame:
  assumes "scall_wrapper ops uninit b0 rest esp s = Inr (eax, s')"
  shows "sy_kst s' = sy_kst s" and "proc_config (sy_proc s') = proc_config (sy_proc s)"
    and "sy_msr s' = sy_msr s" and "sy_sysenter_avl s' = sy_sysenter_avl s"
proof -
  obtain num args r where "syscall_exec ops uninit b0 num args s = Inr (r, s')"
    using assms by (auto simp: scall_wrapper_def Let_def bindE_Inr_iff split: if_splits)
  from syscall_exec_frame [OF this] show "sy_kst s' = sy_kst s" and "proc_config (sy_proc s') = proc_config (sy_proc s)"
    and "sy_msr s' = sy_msr s" and "sy_sysenter_avl s' = sy_sysenter_avl s" .
qed

section \<open>Invariants of a run\<close>

text \<open>What no step changes.\<close>

definition kernel_config where
  "kernel_config s =
     (config (sy_kst (ks_sys s)), proc_config (sy_proc (ks_sys s)), sy_msr (ks_sys s), sy_sysenter_avl (ks_sys s), ks_seg s)"

lemma kernel_step_config:
  assumes "kernel_step env s e s'"
  shows "kernel_config s' = kernel_config s"
  using assms
proof cases
  case (device_interrupt isr k cr2 rest)
  then show ?thesis using isr_x86_frame(1) by (fastforce simp: kernel_config_def)
next
  case (page_fault_interrupt isr k p cr2 pg rest)
  then show ?thesis using isr_x86_frame(1) by (fastforce simp: kernel_config_def)
next
  case (system_call isr k rest eax sys cr2)
  then show ?thesis using isr_x86_frame(1) [OF system_call(5)] scall_wrapper_frame [OF system_call(6)]
    by (simp add: kernel_config_def)
qed (simp_all add: kernel_config_def)

lemma kernel_run_config: "kernel_run env s es s' \<Longrightarrow> kernel_config s' = kernel_config s"
  by (induction rule: kernel_run.induct) (simp_all add: kernel_step_config)

section \<open>Interrupts after the initialisation\<close>

lemma kernel_init_interrupts:
  assumes "timer_only (be_bus env)" and "\<forall>d. \<not> bit (fst (bus_in (be_bus env) 1 0x71 d)) 7"
    and "k_pit_freq (sy_kst (ks_sys s0)) = 1000" and "kernel_init env mb s0 = Inr s"
  shows "unat n < 255 \<Longrightarrow> idt_target (k_idt (sy_kst (ks_sys s)) n) = bus_isr_table (be_bus env) n \<and>
      idt_attributes (k_idt (sy_kst (ks_sys s)) n) = (if n = 0x80 then 0xEE else 0x8E) \<and>
      k_isr_handlers (sy_kst (ks_sys s)) n \<noteq> NoHandler"
    and "map (k_isr_handlers (sy_kst (ks_sys s))) [14, 0x20, 0x21, 0x24, 0x2C, 0x80] =
      [Page_fault_handler, Pit_handler, Kbd_interrupt, Serial_interrupt, Ps2_handler, Scall_wrapper]"
    and "buffers (sy_kst (ks_sys s)) = buffers (sy_kst (ks_sys s0))"
proof -
  let ?p = "sy_proc (ks_sys s0)" and ?k = "snd (idt_init (be_bus env) (sy_kst (ks_sys s0)))"
  obtain pg k1 where a: "paging_init (be_ops env) (be_bus env) (be_syms env)
      (mb_mem_upper (load_meta (pr_bytes ?p) mb) * 0x400) (pr_paging ?p) ?k = Inr (pg, k1)"
    using assms(4) by (auto simp: kernel_init_def Let_def bindE_Inr_iff)
  obtain ret kb bd pg' where b: "kmmap_init (be_ops env) (be_kern_buddy env) pg = Inr (ret, kb, bd, pg')"
    using assms(4) a by (auto simp: kernel_init_def Let_def bindE_Inr_iff)
  obtain ret' p' where c: "multiproc_init (be_ops env) (be_schedule env) (be_kern env)
      (?p\<lparr>pr_paging := pg', pr_buddy := (pr_buddy ?p)(kb := bd), pr_kern_buddy := kb\<rparr>) = Inr (ret', p')"
    using assms(4) a b by (auto simp: kernel_init_def Let_def bindE_Inr_iff split: option.splits)
  note r = kernel_init_result [OF assms(1-3) a b c, unfolded assms(4)]
  show "idt_target (k_idt (sy_kst (ks_sys s)) n) = bus_isr_table (be_bus env) n \<and>
      idt_attributes (k_idt (sy_kst (ks_sys s)) n) = (if n = 0x80 then 0xEE else 0x8E) \<and>
      k_isr_handlers (sy_kst (ks_sys s)) n \<noteq> NoHandler" if "unat n < 255" using r that by blast
  show "map (k_isr_handlers (sy_kst (ks_sys s))) [14, 0x20, 0x21, 0x24, 0x2C, 0x80] =
      [Page_fault_handler, Pit_handler, Kbd_interrupt, Serial_interrupt, Ps2_handler, Scall_wrapper]" using r by blast
  show "buffers (sy_kst (ks_sys s)) = buffers (sy_kst (ks_sys s0))" using r by blast
qed


section \<open>Progress\<close>

text \<open>The entry of an interrupt, before its handler.\<close>

lemma isr_x86_enter:
  "\<exists>k'. isr_x86 b n eip k = call_handler b (k_isr_handlers k n) eip k' \<and> k_receiver_f k' = k_receiver_f k \<and>
    k_cur_pos k' = k_cur_pos k \<and> k_read_pos k' = k_read_pos k"
proof -
  define k1 where "k1 = (if n = 33 then klog ''Eip: %x'' (pic_eoi b n k) else pic_eoi b n k)"
  have "isr_x86 b n eip k = call_handler b (k_isr_handlers k n) eip (k1\<lparr>k_int_count := k_int_count k1 + 1\<rparr>)"
    by (simp add: isr_x86_def k1_def klog_def)
  moreover have "k_receiver_f k1 = k_receiver_f k" "k_cur_pos k1 = k_cur_pos k" "k_read_pos k1 = k_read_pos k"
    by (simp_all add: k1_def pic_eoi_def io_defs)
  ultimately show ?thesis by (intro exI [of _ "k1\<lparr>k_int_count := k_int_count k1 + 1\<rparr>"]) simp
qed

lemma kbd_US_length: "length kbd_US = 128"
  by (simp add: kbd_US_def)

lemma call_receivers_stops: "r \<in> set rs \<Longrightarrow> k_receiver_f k r = 0 \<Longrightarrow> \<exists>k'. call_receivers c rs k = Some k'"
  by (induction rs arbitrary: k) (auto simp: trace_event_def)

lemma kbd_interrupt_returns:
  assumes "\<forall>d. unat (ucast (fst (bus_in b 1 0x60 d)) :: u8) < 128" and "r < 256" and "k_receiver_f k r = 0"
  shows "\<exists>k'. kbd_interrupt b k = Some k'"
proof -
  have "k_receiver_f (snd (inb b 0x60 (snd (inb b 0x64 k)))) r = 0" using assms(3) by (simp add: io_defs case_prod_unfold)
  then have "\<exists>k'. call_receivers c [0..<256] ((snd (inb b 0x60 (snd (inb b 0x64 k))))\<lparr>k_kbd_buf := c\<rparr>) = Some k'" for c
    using assms(2) by (intro call_receivers_stops [of r]) auto
  moreover have "unat (fst (inb b 0x60 s)) < 128" for s using assms(1) by (simp add: inb_def case_prod_unfold Let_def)
  ultimately show ?thesis
    by (simp add: kbd_interrupt_def handler_defs kbd_US_length case_prod_unfold Let_def)
qed

lemma serial_interrupt_returns:
  assumes "k_cur_pos k < 1024" and "k_read_pos k < 1024"
  shows "\<exists>k'. serial_interrupt b k = Some k'"
  using assms by (auto simp: serial_interrupt_def handler_defs io_defs case_prod_unfold)

lemma isr_x86_returns:
  assumes "k_isr_handlers k n \<noteq> NoHandler" and "\<forall>d. unat (ucast (fst (bus_in b 1 0x60 d)) :: u8) < 128"
    and "r < 256" and "k_receiver_f k r = 0" and "k_cur_pos k < 1024" and "k_read_pos k < 1024"
  shows "\<exists>k'. isr_x86 b n eip k = Some k'"
proof -
  obtain k1 where k1: "isr_x86 b n eip k = call_handler b (k_isr_handlers k n) eip k1" "k_receiver_f k1 = k_receiver_f k"
    "k_cur_pos k1 = k_cur_pos k" "k_read_pos k1 = k_read_pos k" using isr_x86_enter by blast
  have "\<exists>k'. kbd_interrupt b k1 = Some k'" using kbd_interrupt_returns [OF assms(2,3), of k1] assms(4) k1(2) by simp
  moreover have "\<exists>k'. serial_interrupt b k1 = Some k'" using serial_interrupt_returns [of k1 b] assms(5,6) k1(3,4) by simp
  ultimately show ?thesis using assms(1) unfolding k1(1) by (cases "k_isr_handlers k n") (simp_all add: call_handler_def)
qed

text \<open>
  C9. Every interrupt of a device is handled: in each state that the initialised kernel reaches, an interrupt
  below 255 that is neither a page fault nor a system call leads to a next state, which differs in the drivers only,
  as long as the keyboard sends no release codes and has room for a receiver, and the buffers of the serial port are not full.
\<close>

theorem kernel_run_handles:
  fixes s0 s1 s s' :: "('d, 'w) kernel_state"
  defines "k \<equiv> sy_kst (ks_sys s')"
  assumes "timer_only (be_bus env)" and "\<forall>d. \<not> bit (fst (bus_in (be_bus env) 1 0x71 d)) 7"
    and "k_pit_freq (sy_kst (ks_sys s0)) = 1000" and "kernel_init env mb s0 = Inr s1"
    and "s = s1\<lparr>ks_sys := (ks_sys s1)\<lparr>sy_proc := p\<rparr>\<rparr>" and "kernel_run env s es s'"
    and "ifs_int_num isr < 255" and "handler_of (ks_sys s') isr \<notin> {Page_fault_handler, Scall_wrapper}"
    and "\<forall>d. unat (ucast (fst (bus_in (be_bus env) 1 0x60 d)) :: u8) < 128"
    and "r < 256" and "k_receiver_f (sy_kst (ks_sys s0)) r = 0" and "k_cur_pos k < 1024" and "k_read_pos k < 1024"
  shows "\<exists>k'. kernel_step env s' (Interrupt cr2 rest isr) (s'\<lparr>ks_sys := (ks_sys s')\<lparr>sy_kst := k'\<rparr>\<rparr>)"
proof -
  let ?n = "ucast (ifs_int_num isr) :: u8"
  have u: "unat (ifs_int_num isr) < 255" using assms(8) by (simp add: word_less_nat_alt)
  then have n: "unat ?n < 255" by (simp add: unsigned_ucast_eq take_bit_nat_eq_self)
  have c: "k_isr_handlers k = k_isr_handlers (sy_kst (ks_sys s1))" "k_receiver_f k = k_receiver_f (sy_kst (ks_sys s1))"
    using kernel_run_config [OF assms(7)] by (simp_all add: kernel_config_def config_def assms(6) k_def)
  have h: "k_isr_handlers k ?n \<noteq> NoHandler" unfolding c using kernel_init_interrupts(1) [OF assms(2-5) n] by blast
  have "k_receiver_f k r = 0" using assms(12) c(2) kernel_init_interrupts(3) [OF assms(2-5)] by simp
  from isr_x86_returns [OF h assms(10,11) this assms(13,14)]
  obtain k' where k': "isr_x86 (be_bus env) ?n (ifs_eip isr) k = Some k'" by blast
  have "ifs_int_num isr < 256" using u by (simp add: word_less_nat_alt)
  from device_interrupt [OF this assms(9) k' [unfolded k_def]] show ?thesis by blast
qed

section \<open>Counting\<close>

text \<open>
  What the machine does as a clock: each interrupt is counted, and each interrupt whose handler is the timer's is a
  tick. Nothing else changes the two counters.
\<close>

record clock =
  ck_ticks :: u32
  ck_ints :: u32

fun clock_step :: "(u8 \<Rightarrow> handler) \<Rightarrow> 'd kernel_event \<Rightarrow> clock \<Rightarrow> clock" where
  "clock_step H (Interrupt cr2 rest isr) c =
     \<lparr>ck_ticks = (if H (ucast (ifs_int_num isr)) = Pit_handler then ck_ticks c + 1 else ck_ticks c), ck_ints = ck_ints c + 1\<rparr>"
| "clock_step H e c = c"

definition clock_of :: "('d, 'w) kernel_state \<Rightarrow> clock" where
  "clock_of s = \<lparr>ck_ticks = k_tick (sy_kst (ks_sys s)), ck_ints = k_int_count (sy_kst (ks_sys s))\<rparr>"

lemma kernel_step_clock:
  assumes "kernel_step env s e s'"
  shows "clock_of s' = clock_step (k_isr_handlers (sy_kst (ks_sys s))) e (clock_of s)"
  using assms
proof cases
  case (device_interrupt isr k cr2 rest)
  then show ?thesis using isr_x86_frame(2,3) [OF device_interrupt(5)] by (simp add: clock_of_def)
next
  case (page_fault_interrupt isr k p cr2 pg rest)
  then show ?thesis using isr_x86_frame(2,3) [OF page_fault_interrupt(5)] by (simp add: clock_of_def)
next
  case (system_call isr k rest eax sys cr2)
  then show ?thesis using isr_x86_frame(2,3) [OF system_call(5)] scall_wrapper_frame(1) [OF system_call(6)]
    by (simp add: clock_of_def)
qed (simp_all add: clock_of_def)

lemma kernel_run_clock:
  "kernel_run env s es s' \<Longrightarrow> clock_of s' = fold (clock_step (k_isr_handlers (sy_kst (ks_sys s)))) es (clock_of s)"
proof (induction rule: kernel_run.induct)
  case (step es t e u)
  have "k_isr_handlers (sy_kst (ks_sys t)) = k_isr_handlers (sy_kst (ks_sys s))"
    using kernel_run_config [OF step.hyps(1)] by (simp add: kernel_config_def config_def)
  then show ?case using kernel_step_clock [OF step.hyps(2)] step.IH by simp
qed simp

fun is_tick :: "(u8 \<Rightarrow> handler) \<Rightarrow> 'd kernel_event \<Rightarrow> bool" where
  "is_tick H (Interrupt cr2 rest isr) \<longleftrightarrow> H (ucast (ifs_int_num isr)) = Pit_handler"
| "is_tick H e \<longleftrightarrow> False"

lemma clock_ticks:
  "ck_ticks (fold (clock_step H) es c) = ck_ticks c + word_of_nat (length (filter (is_tick H) es))"
proof (induction es arbitrary: c)
  case (Cons e es)
  then show ?case by (cases e) simp_all
qed simp

text \<open>
  C11. A run of the machine is a clock: the counters of ticks and interrupts go through the steps of the abstract
  clock, so that the number of ticks grows by the number of timer interrupts, modulo 2^32, whatever else happens.
\<close>

theorem kernel_run_ticks:
  assumes "kernel_run env s es s'" and "H = k_isr_handlers (sy_kst (ks_sys s))"
  shows "clock_of s' = fold (clock_step H) es (clock_of s) \<and>
    k_tick (sy_kst (ks_sys s')) = k_tick (sy_kst (ks_sys s)) + word_of_nat (length (filter (is_tick H) es))"
proof -
  have c: "clock_of s' = fold (clock_step H) es (clock_of s)" using kernel_run_clock [OF assms(1)] assms(2) by simp
  then have "ck_ticks (clock_of s') = ck_ticks (clock_of s) + word_of_nat (length (filter (is_tick H) es))"
    by (simp add: clock_ticks)
  then show ?thesis using c by (simp add: clock_of_def)
qed

section \<open>Two tasks for ever\<close>

text \<open>The list holds the first program and the kernel task, and the program runs.\<close>

definition two_tasks :: "'w proc_state \<Rightarrow> u32 \<Rightarrow> u32 \<Rightarrow> bool" where
  "two_tasks p i k \<longleftrightarrow> task_list_repr p [i, k] \<and> pr_cur_task p = i"

lemma two_tasks_upd:
  assumes "two_tasks p i k" and "pr_task_list p' = pr_task_list p" and "pr_cur_task p' = pr_cur_task p"
    and "\<And>t. t \<in> {i, k} \<Longrightarrow> tk_next (pr_task p' t) = tk_next (pr_task p t) \<and> tk_prev (pr_task p' t) = tk_prev (pr_task p t)"
  shows "two_tasks p' i k"
  using assms(1-3) task_chain_cong [of "[i, k]" "pr_task p'" "pr_task p"] assms(4)
  by (auto simp: two_tasks_def task_list_repr_def)

lemma two_tasks_same: "two_tasks p i k \<Longrightarrow> same_tasks p p' \<Longrightarrow> two_tasks p' i k"
  by (rule two_tasks_upd) (simp_all add: same_tasks_def)

lemma two_tasks_bytes [simp]: "two_tasks (p\<lparr>pr_bytes := m\<rparr>) i k = two_tasks p i k"
  by (simp add: two_tasks_def task_list_repr_def)

text \<open>The program cannot end: it is taken off the list, and the kernel task is started again, which waits for ever.\<close>

lemma exit_two_tasks:
  assumes "two_tasks p i k"
  shows "exit_task ops code p = Inl Diverges"
proof -
  have "task_list_repr (doubly_ll_remove i p) [k]" using tl.repr_remove [of p i "[k]"] assms by (simp add: two_tasks_def)
  then have "pr_task_list (doubly_ll_remove i p) = k" "k \<noteq> 0" "tk_next (pr_task (doubly_ll_remove i p) k) = 0"
    by (auto simp: task_list_repr_def)
  then show ?thesis using assms by (simp add: exit_task_def kern_def two_tasks_def Let_def)
qed

lemma execve_two_tasks:
  assumes "two_tasks p i k" and "execve ops exec p = Inr (r, p')"
  shows "two_tasks p' i k"
proof -
  consider "p' = p" | p1 n where "same_tasks p p1" "p' = upd_task (pr_cur_task p1) (\<lambda>t. t\<lparr>tk_exec_node := n, tk_state := EMPTY\<rparr>) p1"
    using assms(2) by (auto simp: execve_def bindE_Inr_iff split: option.splits dest: with_space_same)
  then show ?thesis
  proof cases
    case 2
    then show ?thesis using two_tasks_same [OF assms(1) 2(1)] by (auto simp: upd_task_def intro: two_tasks_upd)
  qed (use assms(1) in simp)
qed

text \<open>\<open>fork_task\<close> writes only the descriptor of the new task.\<close>

lemma fork_task_frame:
  assumes "fork_task ops uninit new p = Inr (r, p')"
  shows "pr_task_list p' = pr_task_list p" and "pr_cur_task p' = pr_cur_task p" and "t \<noteq> new \<Longrightarrow> pr_task p' t = pr_task p t"
  using assms
  by (auto simp: fork_task_def Let_def upd_task_def bindE_Inr_iff same_tasks_def split: if_splits
      dest!: with_space_same with_mem_same)

lemma fork_two_tasks:
  assumes "two_tasks p i k" and "fork ops uninit b0 p = Inr (r, p')"
    and "\<And>new w. mo_slab_alloc ops (pr_task_slab p) (pg_mem (pr_paging p)) = Inr (new, w) \<Longrightarrow> new \<notin> {i, k}"
  shows "two_tasks p' i k"
proof -
  obtain new p1 p2 p3 r2 b where s: "with_mem (mo_slab_alloc ops (pr_task_slab p)) p = Inr (new, p1)"
    "fork_task ops uninit new p1 = Inr (r2, p2)" "same_tasks p2 p3" "p' = upd_task new (\<lambda>t. t\<lparr>tk_buddy := b\<rparr>) p3"
    using assms(2) by (auto simp: fork_def bindE_Inr_iff dest: new_buddy_same)
  have "new \<notin> {i, k}" using s(1) assms(3) by (auto simp: with_mem_def bindE_Inr_iff)
  have "two_tasks p1 i k" using two_tasks_same [OF assms(1) with_mem_same [OF s(1)]] .
  then have "two_tasks p2 i k" using fork_task_frame [OF s(2)] \<open>new \<notin> {i, k}\<close> by (auto intro: two_tasks_upd)
  then have "two_tasks p3 i k" using two_tasks_same s(3) by blast
  then show ?thesis using s(4) by (auto simp: upd_task_def intro: two_tasks_upd)
qed

text \<open>\<open>fork_fresh\<close>: what the slab allocator gives a call of \<open>fork\<close> is not a descriptor in use.\<close>

definition fork_fresh :: "'w page_ops \<Rightarrow> u32 set \<Rightarrow> 'w proc_state \<Rightarrow> bool" where
  "fork_fresh ops L p \<longleftrightarrow> (\<forall>new w. mo_slab_alloc ops (pr_task_slab p) (pg_mem (pr_paging p)) = Inr (new, w) \<longrightarrow> new \<notin> L)"

lemma syscall_two_tasks:
  assumes "two_tasks (sy_proc s) i k" and "syscall_exec ops uninit b0 num args s = Inr (r, s')"
    and "fork_fresh ops {i, k} (sy_proc s)"
  shows "two_tasks (sy_proc s') i k"
proof -
  have fk: "two_tasks p' i k" if "fork ops uninit b0 (sy_proc s) = Inr (r', p')" for r' p'
    using fork_two_tasks [OF assms(1) that] assms(3) unfolding fork_fresh_def by blast
  show ?thesis
    using assms(1,2)
    by (auto simp: syscall_exec_def call_syscall_def sys_read_def sys_write_def sys_fork_def sys_execve_def sys_exit_def Let_def
        bindE_Inr_iff case_prod_unfold exit_two_tasks split: if_splits option.splits syscall_f.splits
        dest: fk execve_two_tasks)
qed

lemma scall_two_tasks:
  assumes "two_tasks (sy_proc s) i k" and "scall_wrapper ops uninit b0 rest esp s = Inr (eax, s')"
    and "fork_fresh ops {i, k} (sy_proc s)"
  shows "two_tasks (sy_proc s') i k"
  using assms syscall_two_tasks by (fastforce simp: scall_wrapper_def Let_def bindE_Inr_iff split: if_splits)

lemma kernel_step_two_tasks:
  assumes "kernel_step env s e s'" and "two_tasks (sy_proc (ks_sys s)) i k"
    and "fork_fresh (be_ops env) {i, k} (sy_proc (ks_sys s))"
  shows "two_tasks (sy_proc (ks_sys s')) i k"
  using assms(1)
proof cases
  case (system_call isr kst rest eax sys cr2)
  then show ?thesis using scall_two_tasks [OF _ system_call(6)] assms(2,3) by simp
next
  case (page_fault_interrupt isr kst p cr2 pg rest)
  then show ?thesis using assms(2) by (auto intro: two_tasks_upd)
next
  case (memory_write p m pages)
  then show ?thesis using assms(2) by (auto intro: two_tasks_upd)
qed (use assms(2) in simp_all)


section \<open>The two tasks at the start\<close>

lemma doubly_ll_insert_fields [simp]:
  "pr_cur_task (doubly_ll_insert t p) = pr_cur_task p" "pr_task_list (doubly_ll_insert t p) = t"
  "pr_paging (doubly_ll_insert t p) = pr_paging p"
  by (simp_all add: doubly_ll_insert_def upd_task_def Let_def)

lemma multiproc_init_lists:
  assumes "multiproc_init ops sched kern_addr p = Inr (r, p')" and "pr_task_list p = 0"
  shows "task_list_repr p' [pr_cur_task p']"
proof -
  obtain t p1 where p1: "p' = doubly_ll_insert t p1" "pr_task_list p1 = 0" "pr_cur_task p1 = t" "t \<noteq> 0"
    using assms
    by (auto simp: multiproc_init_def Let_def upd_task_def bindE_Inr_iff pit_add_callback_def same_tasks_def split: if_splits
        dest!: with_mem_same)
  have "task_list_repr p1 []" using p1(2) by (simp add: task_list_repr_def)
  from task_insert_repr [OF this p1(4)] show ?thesis using p1(1,3) by simp
qed

lemma load_elf_frame:
  assumes "load_elf ops uninit t n p = Inr (r, p')"
  shows "pr_task_list p' = pr_task_list p" and "pr_cur_task p' = pr_cur_task p"
    and "tk_next (pr_task p' u) = tk_next (pr_task p u)" and "tk_prev (pr_task p' u) = tk_prev (pr_task p u)"
    and "tk_id (pr_task p' u) = tk_id (pr_task p u)"
  using assms
  by (auto simp: load_elf_def Let_def upd_task_def bindE_Inr_iff same_tasks_def case_prod_unfold split: option.splits if_splits
      dest!: with_space_same with_mem_same)

lemma spawn_rd_same:
  assumes "spawn_rd ops uninit a b env p = Inr p'"
  shows "same_tasks p p'"
proof -
  obtain f x where p1: "with_space (pr_kern_buddy p) f p = Inr x"
    and e: "(case x of (r, p1) \<Rightarrow>
       (case initrd_init r (re_root_header env) (re_rd_fs env) (re_uninit env) (re_uninit_ops env) (re_old env)
         (re_old_nodes env) (pr_bytes p1) of
         None \<Rightarrow> Inl Diverges | Some (_, None, _) \<Rightarrow> Inl NullDeref
       | Some (_, Some (rd, fs), m) \<Rightarrow> Inr (p1\<lparr>pr_rd := rd, pr_fs := fs, pr_bytes := m\<rparr>))) = Inr p'"
    using assms unfolding spawn_rd_def Let_def bindE_Inr_iff by blast
  obtain r p1 where x: "x = (r, p1)" by (cases x)
  obtain rd fs m where "p' = p1\<lparr>pr_rd := rd, pr_fs := fs, pr_bytes := m\<rparr>"
    using e unfolding x by (auto split: option.splits prod.splits)
  then show ?thesis using with_space_same [OF p1 [unfolded x]] by (simp add: same_tasks_def)
qed

lemma same_tasks_trans: "same_tasks p q \<Longrightarrow> same_tasks q r \<Longrightarrow> same_tasks p r"
  by (simp add: same_tasks_def)

text \<open>\<open>spawn_init\<close> lists the task of the first program before the kernel task and runs it.\<close>

lemma spawn_init_lists:
  assumes "spawn_init ops uninit a b env path b0 p = Inr p'" and "task_list_repr p [k]"
    and "pr_cur_task p' \<noteq> k"
  shows "two_tasks p' (pr_cur_task p') k"
proof -
  obtain p1 where p1: "spawn_rd ops uninit a b env p = Inr p1" using assms(1) by (auto simp: spawn_init_def bindE_Inr_iff)
  obtain node where node: "root_get_node_fs (pr_rd p1) (pr_fs p1) (pr_bytes p1) path = Some node"
    using assms(1) p1 by (auto simp: spawn_init_def Let_def bindE_Inr_iff split: option.splits)
  obtain new p2 p3 where p2: "with_mem (mo_slab_alloc ops (pr_task_slab p1)) (p1\<lparr>pr_int_enabled := False\<rparr>) = Inr (new, p2)"
    and p3: "fork_task ops uninit new p2 = Inr (0, p3)"
    using assms(1) p1 node by (auto simp: spawn_init_def Let_def bindE_Inr_iff split: if_splits)
  let ?p4 = "upd_task new (\<lambda>t. t\<lparr>tk_id := pr_last_user_tid p3, tk_state := EMPTY, tk_exec_node := node\<rparr>) p3"
  obtain bd p5 where p5: "create_user_buddy_alloc ops b0 ?p4 = Inr (bd, p5)"
    using assms(1) p1 node p2 p3 by (auto simp: spawn_init_def Let_def bindE_Inr_iff)
  let ?p6 = "doubly_ll_insert new (upd_task new (\<lambda>t. t\<lparr>tk_buddy := bd\<rparr>) p5)"
  obtain r pg where pg: "switch_page_dir (tk_pd (pr_task ?p6 new)) (pr_paging ?p6) = Inr (r, pg)"
    using assms(1) p1 node p2 p3 p5 by (auto simp: spawn_init_def Let_def bindE_Inr_iff)
  obtain r2 p7 where p7: "load_elf ops uninit new (tk_exec_node (pr_task ?p6 new)) (?p6\<lparr>pr_paging := pg\<rparr>) = Inr (r2, p7)"
    and p': "switch_task new p7 = Inr p'"
    using assms(1) p1 node p2 p3 p5 pg by (auto simp: spawn_init_def Let_def bindE_Inr_iff)
  have t: "pr_cur_task p' = new" "pr_task_list p' = pr_task_list p7" "pr_task p' = pr_task p7"
    using p' by (auto simp: switch_task_def run_user_task_def run_kernel_task_def Let_def bindE_Inr_iff split: if_splits)
  have new: "new \<noteq> 0" "new \<noteq> k" using p3 assms(3) t(1) by (auto simp: fork_task_def)
  have "same_tasks p p2"
    using same_tasks_trans [OF spawn_rd_same [OF p1]] with_mem_same [OF p2] by (simp add: same_tasks_def)
  moreover have "same_tasks ?p4 p5" using p5 new_buddy_same by (auto simp: create_user_buddy_alloc_def)
  ultimately have "pr_task_list (upd_task new (\<lambda>t. t\<lparr>tk_buddy := bd\<rparr>) p5) = pr_task_list p"
    "pr_task (upd_task new (\<lambda>t. t\<lparr>tk_buddy := bd\<rparr>) p5) k = pr_task p k"
    using fork_task_frame [OF p3] new(2) by (simp_all add: same_tasks_def upd_task_def)
  then have "task_list_repr (upd_task new (\<lambda>t. t\<lparr>tk_buddy := bd\<rparr>) p5) [k]" using assms(2) by (simp add: task_list_repr_def)
  from task_insert_repr [OF this new(1)] have "task_list_repr ?p6 [new, k]" using new(2) by simp
  then have "task_list_repr p' [new, k]"
    using task_chain_cong [of "[new, k]" "pr_task p'" "pr_task ?p6"] load_elf_frame [OF p7]
    by (simp add: task_list_repr_def t)
  then show ?thesis by (simp add: two_tasks_def t(1))
qed

text \<open>The machine after \<open>kernel_main\<close> has two tasks, if the first program has a descriptor of its own.\<close>

lemma kernel_main_two_tasks:
  assumes "kernel_init env mb s0 = Inr s1" and "kernel_main env mb s0 = Inr s" and "pr_task_list (sy_proc (ks_sys s0)) = 0"
    and "pr_cur_task (sy_proc (ks_sys s)) \<noteq> pr_cur_task (sy_proc (ks_sys s1))"
  shows "two_tasks (sy_proc (ks_sys s)) (pr_cur_task (sy_proc (ks_sys s))) (pr_cur_task (sy_proc (ks_sys s1)))"
proof -
  obtain p ret where "multiproc_init (be_ops env) (be_schedule env) (be_kern env) p = Inr (ret, sy_proc (ks_sys s1))"
    "pr_task_list p = 0"
    using assms(1,3) by (auto simp: kernel_init_def Let_def bindE_Inr_iff syscall_init_def syscall_setup_def split: option.splits)
  from multiproc_init_lists [OF this]
  have l: "task_list_repr (sy_proc (ks_sys s1)) [pr_cur_task (sy_proc (ks_sys s1))]" .
  obtain a b p' where "spawn_init (be_ops env) (be_uninit env) a b (be_rd env) (be_init_path env) (be_user_buddy env)
      (sy_proc (ks_sys s1)) = Inr p'" "s = s1\<lparr>ks_sys := (ks_sys s1)\<lparr>sy_proc := p'\<rparr>\<rparr>"
    using assms(1,2) by (auto simp: kernel_main_def Let_def bindE_Inr_iff)
  then show ?thesis using spawn_init_lists [OF _ l] assms(4) by simp
qed

section \<open>A system call from a program\<close>

lemma write_interrupt_step:
  fixes s :: "('d, 'w) kernel_state" and isr :: isr_full_stack
  defines "m \<equiv> pr_bytes (sy_proc (ks_sys s))" and "esp \<equiv> cpu_ecx (ifs_cpu_st isr)"
  assumes "ifs_int_num isr < 256" and "handler_of (ks_sys s) isr = Scall_wrapper"
    and "map (load_word m) [esp + 32, esp + 36, esp + 40, esp + 44] = [1, 2, msg, len]"
    and "\<forall>i < unat len. plain (m (msg + word_of_nat i))"
    and "unat (fb_pos (sy_fb (ks_sys s))) + unat len < 2000" and "\<not> fb_sync (sy_fb (ks_sys s))"
  shows "\<exists>k fb. kernel_step env s (Interrupt cr2 rest isr) (s\<lparr>ks_sys := (ks_sys s)\<lparr>sy_kst := k, sy_fb := fb\<rparr>\<rparr>) \<and>
    unat (fb_pos fb) = unat (fb_pos (sy_fb (ks_sys s))) + unat len \<and>
    (\<forall>i < unat len. fb_out fb (uint (fb_pos (sy_fb (ks_sys s))) + int i) = m (msg + word_of_nat i))"
proof -
  let ?n = "ucast (ifs_int_num isr) :: u8"
  have h: "k_isr_handlers (sy_kst (ks_sys s)) ?n = Scall_wrapper" using assms(4) by (simp add: handler_of_def)
  obtain k0 where "isr_x86 (be_bus env) ?n (ifs_eip isr) (sy_kst (ks_sys s)) = call_handler (be_bus env) Scall_wrapper (ifs_eip isr) k0"
    using isr_x86_enter [of "be_bus env" ?n "ifs_eip isr" "sy_kst (ks_sys s)"] unfolding h by blast
  then obtain k where k: "isr_x86 (be_bus env) ?n (ifs_eip isr) (sy_kst (ks_sys s)) = Some k" by (simp add: call_handler_def)
  let ?s = "(ks_sys s)\<lparr>sy_kst := k\<rparr>"
  have w: "load_word m (esp + 32) = 1" "load_word m (esp + 36) = 2" "load_word m (esp + 40) = msg" "load_word m (esp + 44) = len"
    using assms(5) by simp_all
  have a: "scall_args m (esp + 32) 2 rest 0 = msg" "scall_args m (esp + 32) 2 rest 1 = len"
    using w by (simp_all add: scall_args_def add.assoc)
  obtain fb where fb: "sys_write msg len ?s = (len, ?s\<lparr>sy_fb := fb\<rparr>)"
    "unat (fb_pos fb) = unat (fb_pos (sy_fb (ks_sys s))) + unat len"
    "\<forall>i < unat len. fb_out fb (uint (fb_pos (sy_fb (ks_sys s))) + int i) = m (msg + word_of_nat i)"
    using sys_write_plain [of len ?s msg] assms(6-8) by (auto simp: m_def)
  have "syscall_exec (be_ops env) (be_uninit env) (be_user_buddy env) 1 (scall_args m (esp + 32) 2 rest) ?s =
      Inr (len, ?s\<lparr>sy_fb := fb\<rparr>)"
    unfolding syscall_exec_write a fb(1) ..
  then have "scall_wrapper (be_ops env) (be_uninit env) (be_user_buddy env) rest esp ?s = Inr (len, ?s\<lparr>sy_fb := fb\<rparr>)"
    using w a(2) by (simp add: scall_wrapper_def m_def Let_def add.assoc)
  from system_call [OF assms(3,4) k, of rest len] this
  show ?thesis using fb(2,3) by (auto simp: esp_def)
qed

text \<open>
  C10. A program prints through interrupt 0x80: when its stack holds the number of \<open>write\<close>, the number of arguments and the
  two arguments where \<open>usr_intx80\<close> leaves them, and the text is drawable and fits on the screen, the interrupt shows the
  text at the old position and moves the position behind it, and the tasks are as before.
\<close>

theorem program_writes:
  fixes s :: "('d, 'w) kernel_state" and isr :: isr_full_stack
  defines "m \<equiv> pr_bytes (sy_proc (ks_sys s))" and "esp \<equiv> cpu_ecx (ifs_cpu_st isr)"
  assumes "ifs_int_num isr < 256" and "handler_of (ks_sys s) isr = Scall_wrapper"
    and "map (load_word m) [esp + 32, esp + 36, esp + 40, esp + 44] = [1, 2, msg, len]"
    and "\<forall>i < unat len. plain (m (msg + word_of_nat i))"
    and "unat (fb_pos (sy_fb (ks_sys s))) + unat len < 2000" and "\<not> fb_sync (sy_fb (ks_sys s))"
  shows "\<exists>s'. kernel_step env s (Interrupt cr2 rest isr) s' \<and> sy_proc (ks_sys s') = sy_proc (ks_sys s) \<and>
    unat (fb_pos (sy_fb (ks_sys s'))) = unat (fb_pos (sy_fb (ks_sys s))) + unat len \<and>
    (\<forall>i < unat len. fb_out (sy_fb (ks_sys s')) (uint (fb_pos (sy_fb (ks_sys s))) + int i) = m (msg + word_of_nat i))"
  using write_interrupt_step [of isr s msg len env cr2 rest] assms by fastforce

section \<open>Runs of an example machine\<close>

definition no_regs :: x86_cpu_state where
  "no_regs = \<lparr>cpu_edi = 0, cpu_esi = 0, cpu_ebp = 0, cpu_esp = 0, cpu_ebx = 0, cpu_edx = 0, cpu_ecx = 0x1000, cpu_eax = 0\<rparr>"

definition frame_of :: "u32 \<Rightarrow> isr_full_stack" where
  "frame_of n = \<lparr>ifs_cpu_st = no_regs, ifs_int_num = n, ifs_error_code = 0, ifs_eip = 0x100000, ifs_cs = 0x1B, ifs_eflags = 0x202\<rparr>"

text \<open>The stack of a program that writes three characters, each an \<open>A\<close>.\<close>

definition user_mem :: mem8 where
  "user_mem = store_word 0x1020 1 (store_word 0x1024 2 (store_word 0x1028 0x2000 (store_word 0x102C 3 (\<lambda>_. 65))))"

definition user_kernel :: "(u32 list, u32) kernel_state" where
  "user_kernel = demo_kernel\<lparr>ks_sys := demo_sys\<lparr>
     sy_proc := (doubly_ll_insert 0x200 (doubly_ll_insert 0x100 demo_proc))\<lparr>pr_bytes := user_mem, pr_cur_task := 0x200\<rparr>,
     sy_kst := (kst_script [])\<lparr>k_isr_handlers := (\<lambda>_. Scall_wrapper)\<rparr>\<rparr>\<rparr>"

lemma user_kernel_parts:
  "handler_of (ks_sys user_kernel) isr = Scall_wrapper" "cpu_ecx (ifs_cpu_st (frame_of n)) = 0x1000"
  "sy_proc (ks_sys user_kernel) =
    (doubly_ll_insert 0x200 (doubly_ll_insert 0x100 demo_proc))\<lparr>pr_bytes := user_mem, pr_cur_task := 0x200\<rparr>"
  "sy_fb (ks_sys user_kernel) = fb_blank"
  by (simp_all add: user_kernel_def handler_of_def frame_of_def no_regs_def demo_sys_def)

lemma user_mem_words: "map (load_word user_mem) [0x1020, 0x1024, 0x1028, 0x102C] = [1, 2, 0x2000, 3]"
  by code_simp

lemma user_mem_text: "\<forall>i < unat (3 :: u32). user_mem (0x2000 + word_of_nat i) = 65"
proof -
  have "\<forall>i \<in> set [0, 1, 2]. user_mem (0x2000 + word_of_nat i) = 65" by code_simp
  moreover have "i \<in> set [0, 1, 2]" if "i < unat (3 :: u32)" for i using that by auto
  ultimately show ?thesis by blast
qed

lemma user_call:
  "ifs_int_num (frame_of 0x80) < 256" "plain 65" "unat (fb_pos fb_blank) + unat (3 :: u32) < 2000" "\<not> fb_sync fb_blank"
  "uint (fb_pos fb_blank) = 0"
  by (simp_all add: frame_of_def plain_def fb_blank_def)

theorem program_writes_witness:
  "\<exists>s'. kernel_step demo_env user_kernel (Interrupt 0 (\<lambda>_. 0) (frame_of 0x80)) s' \<and> fb_out (sy_fb (ks_sys s')) 2 = 65"
proof -
  obtain s' where s': "kernel_step demo_env user_kernel (Interrupt 0 (\<lambda>_. 0) (frame_of 0x80)) s'"
    "\<forall>i < unat (3 :: u32). fb_out (sy_fb (ks_sys s')) (uint (fb_pos fb_blank) + int i) = user_mem (0x2000 + word_of_nat i)"
    using program_writes [of "frame_of 0x80" user_kernel "0x2000" 3 demo_env 0 "\<lambda>_. 0"] user_mem_words user_mem_text user_call
    by (auto simp: user_kernel_parts)
  have "fb_out (sy_fb (ks_sys s')) 2 = 65"
    using spec [OF s'(2), of 2] spec [OF user_mem_text, of 2] user_call(5) by simp
  then show ?thesis using s'(1) by blast
qed

text \<open>The first timer interrupt after the initialisation.\<close>

lemma demo_run:
  assumes "kernel_init demo_env 0x5000 demo_kernel = Inr s"
  shows "\<exists>s'. kernel_run demo_env s [Interrupt 0 (\<lambda>_. 0) (frame_of 0x20)] s'"
proof -
  have h: "k_isr_handlers (sy_kst (ks_sys s)) 0x20 = Pit_handler"
    using kernel_init_interrupts(2) [OF demo_env_parts(5,6,4) assms] by simp
  obtain k0 where "isr_x86 (be_bus demo_env) 0x20 0x100000 (sy_kst (ks_sys s)) = call_handler (be_bus demo_env) Pit_handler 0x100000 k0"
    using isr_x86_enter [of "be_bus demo_env" "0x20" "0x100000" "sy_kst (ks_sys s)"] unfolding h by blast
  then have "\<exists>k. isr_x86 (be_bus demo_env) 0x20 0x100000 (sy_kst (ks_sys s)) = Some k" by (simp add: call_handler_def)
  then have "\<exists>s'. kernel_step demo_env s (Interrupt 0 (\<lambda>_. 0) (frame_of 0x20)) s'"
    using device_interrupt [of "frame_of 0x20" s demo_env] h by (fastforce simp: handler_of_def frame_of_def)
  then show ?thesis using kernel_run.step [OF kernel_run.start] by fastforce
qed


theorem kernel_run_handles_witness:
  "\<exists>s s'. kernel_init demo_env 0x5000 demo_kernel = Inr s \<and> kernel_step demo_env s (Interrupt 0 (\<lambda>_. 0) (frame_of 0x21)) s'"
proof -
  obtain s where s: "kernel_init demo_env 0x5000 demo_kernel = Inr s" using demo_kernel_init by blast
  have e: "s = s\<lparr>ks_sys := (ks_sys s)\<lparr>sy_proc := sy_proc (ks_sys s)\<rparr>\<rparr>" by simp
  have b: "k_receiver_f (sy_kst (ks_sys demo_kernel)) 0 = 0" "k_cur_pos (sy_kst (ks_sys s)) < 1024" "k_read_pos (sy_kst (ks_sys s)) < 1024"
    using kernel_init_interrupts(3) [OF demo_env_parts(5,6,4) s] by (simp_all add: demo_kernel_def kst_script_def)
  have f: "ifs_int_num (frame_of 0x21) < 255" "handler_of (ks_sys s) (frame_of 0x21) \<notin> {Page_fault_handler, Scall_wrapper}"
    using kernel_init_interrupts(2) [OF demo_env_parts(5,6,4) s] by (simp_all add: frame_of_def handler_of_def)
  have c: "\<forall>d. unat (ucast (fst (bus_in (be_bus demo_env) 1 0x60 d)) :: u8) < 128" by (simp add: demo_env_parts(1) idle_bus_def)
  have "(0 :: nat) < 256" by simp
  from kernel_run_handles [OF demo_env_parts(5,6,4) s e kernel_run.start f c this b, of 0 "\<lambda>_. 0"] show ?thesis using s by blast
qed

theorem kernel_run_ticks_witness:
  "\<exists>s s'. kernel_run demo_env s [Interrupt 0 (\<lambda>_. 0) (frame_of 0x20)] s' \<and>
    k_tick (sy_kst (ks_sys s')) = k_tick (sy_kst (ks_sys s)) + 1"
proof -
  obtain s where s: "kernel_init demo_env 0x5000 demo_kernel = Inr s" using demo_kernel_init by blast
  obtain s' where s': "kernel_run demo_env s [Interrupt 0 (\<lambda>_. 0) (frame_of 0x20)] s'" using demo_run [OF s] by blast
  have h: "k_isr_handlers (sy_kst (ks_sys s)) 0x20 = Pit_handler"
    using kernel_init_interrupts(2) [OF demo_env_parts(5,6,4) s] by simp
  from kernel_run_ticks [OF s' refl] s' show ?thesis by (auto simp: frame_of_def h)
qed

text \<open>The same machine with a slab allocator that has its free object at one place.\<close>

definition one_slot_env :: "(u32 list, u32) boot_env" where
  "one_slot_env = demo_env\<lparr>be_ops := bump_ops\<lparr>mo_slab_alloc := (\<lambda>_ w. Inr (0x9000, w))\<rparr>\<rparr>"


end
