(* ===== verification/Spec2Isabelle.thy ===== *)
theory Spec2Isabelle
  imports Frame_Alloc Slab_Objects Buddy_Release Self_Tests Storage Flat_Alloc Shell Reports Kernel_Steps
begin

text \<open>
  A verification development for the 32-bit x86 kernel in \<open>src/\<close>: its memory management, device drivers, ram disk,
  tasks, system calls, shell and start.

  \<^bold>\<open>How the program is put together.\<close> \<open>kernel_main\<close> (\<open>kernel/kernel.c\<close>) initialises every component in order. The
  physical frames are handed out by a bitmap (\<open>mem/frame_alloc.c\<close>); paging (\<open>mem/paging.c\<close>) builds page tables with
  them, and its page fault handler maps missing pages; \<open>mem/mmap.c\<close> maps and unmaps ranges with addresses from a
  buddy allocator (\<open>mem/buddy_frame_alloc.c\<close>). The buddy allocator keeps its list nodes in a slab cache
  (\<open>mem/slav_allocator.c\<close>), and the slabs come from the kernel heap (\<open>mem/allocator.c\<close>). The interrupt tables
  (\<open>kernel/int.c\<close>, \<open>kernel/exceptions.c\<close>, \<open>drivers/pic.c\<close>) lead to the handlers of the timer, the keyboard, the serial
  port, the page fault and the system calls. The ram disk (\<open>fs/initrd.c\<close>, \<open>fs/fs.c\<close>) is a tar archive that the boot
  loader puts in memory. \<open>proc/proc.c\<close> keeps the tasks in a linked list, and starts the first program from the ram
  disk in its own address space; programs enter the kernel by \<open>kernel/syscall.c\<close>.

  \<^bold>\<open>Conventions.\<close> Integers keep their width (\<open>u8\<close>, \<open>u16\<close>, \<open>u32\<close>), so that overflow is that of the code. A structure
  is a record, memory of one kind of structure is a function from its address, and static variables are fields
  of the state. What ends a computation is a value: a null pointer, an access outside an array, a panic or a
  loop that does not end are the \<open>fault\<close>s of the sum type, or \<open>None\<close> for the drivers. Loops that may run forever are
  \<open>partial_function (option)\<close>; where the code means to return, that it does is proved. Loops over indices recurse on
  the list of the indices or on a number, without fuel; the rounds of the endless \<open>serial_shell\<close> are an argument.
  Contents of fresh memory and of uninitialised variables are arguments. The hardware is the parameter \<open>bus\<close>.

  \<^bold>\<open>Theories.\<close>
  \<^item> \<open>Kernel_Prelude\<close>: integers, error codes (\<open>include/kernel/error.h\<close>), faults, alignment macros
    (\<open>include/mem/paging.h\<close>), shared facts on words and lists.
  \<^item> \<open>Frame_Alloc\<close> (\<open>mem/frame_alloc.c\<close>): the bitmap as a set of used frames; searches find and mark free frames
    only, fail exactly when none is left, and are undone by freeing; runs of frames.
  \<^item> \<open>Kernel_Heap\<close> (\<open>mem/allocator.c\<close>): the list of holes and blocks. The locale \<open>upward_allocator\<close> states what a
    bump allocator promises; its interpretation on \<open>kmalloc_align\<close> gives the disjointness of all blocks of a
    sequence of requests. Freeing in reverse order restores the heap; a request that is too large never returns.
  \<^item> \<open>Slab_Alloc\<close>, \<open>Slab_Objects\<close> (\<open>mem/slav_allocator.c\<close>): slabs of 16 chunks in three lists. The locale
    \<open>object_cache\<close> is the contract of a cache of objects, interpreted on \<open>slab_alloc_from_cache\<close> and \<open>slab_free\<close>.
  \<^item> \<open>Buddy_Alloc\<close>, \<open>Buddy_Blocks\<close> (\<open>mem/buddy_frame_alloc.c\<close>): free lists of eleven orders. The locale
    \<open>buddy_nodes\<close> extends \<open>object_cache\<close> by the node cache, interpreted on the slab allocator; blocks are taken
    from the free pages only, creation gives the whole range, exhaustion gives \<open>ENOMEM\<close>. \<open>Buddy_Release\<close>: the bitmaps
    as a set of positions; releasing an allocation of an aligned block merges all halves again, and of one that is not
    aligned, as in the allocator of the user addresses, follows a null pointer.
  \<^item> \<open>Self_Tests\<close>: the test routines of the three allocators; the one of the heap never ends, since releasing the first
    block makes the list of holes circular.
  \<^item> \<open>Flat_Alloc\<close> (\<open>mem/flat.c\<close>): the array of page descriptors.
  \<^item> \<open>Paging\<close> (\<open>mem/paging.c\<close>): page directories and tables as words of memory; the tables after \<open>page_tables_init\<close>
    map the kernel, a page fault maps a fresh frame, unmapping a range equals unmapping its pages. The allocators
    are the parameter \<open>page_ops\<close>, instantiated by \<open>kernel_page_ops\<close> with the heap and the slab caches.
  \<^item> \<open>Address_Spaces\<close> (\<open>mem/mmap.c\<close> and the copying of directories): mapped pages translate to the requested
    frames; a copied directory translates as the original.
  \<^item> \<open>Segments\<close> (\<open>kernel/gdt.c\<close>, \<open>kernel/tss.c\<close>): the descriptors that the processor reads.
  \<^item> \<open>Machine\<close> (\<open>lib/lkern.c\<close>), \<open>Interrupts\<close> (\<open>kernel/int.c\<close>, \<open>kernel/exceptions.c\<close>, \<open>drivers/pic.c\<close>,
    \<open>drivers/keyboard.c\<close>), \<open>Timer\<close> (\<open>drivers/pit.c\<close>, \<open>drivers/cmos.c\<close>), \<open>Peripherals\<close> (\<open>drivers/serial.c\<close>,
    \<open>drivers/ps2.c\<close>, \<open>drivers/rtc.c\<close>), \<open>Storage\<close> (\<open>drivers/storage\<close>), \<open>Pci_Net\<close> (\<open>ipc/pci.c\<close>, \<open>net/ethernet\<close>): port
    accesses with their order, the interrupt tables, the handlers, delays that end after the right number of ticks,
    bounded buffers.
  \<^item> \<open>Byte_Strings\<close> (\<open>lib/slibc.c\<close>), \<open>Framebuffer\<close> (\<open>drivers/fb.c\<close>): strings in byte memory, the text console with
    scrolling, deletion and numbers; printing keeps the console consistent and shows plain text.
  \<^item> \<open>Initrd\<close> (\<open>fs/initrd.c\<close>, \<open>fs/fs.c\<close>): parsing of the archive into a tree of nodes that represents the entries, and
    path lookup, which returns on every consistent tree. \<open>Dir_Streams\<close>: the same lookup with the directory streams on
    the heap; the locale \<open>stream_memory\<close> is what it needs of an allocator, interpreted on \<open>kmalloc\<close> and \<open>kfree\<close>, and all
    memory comes back.
  \<^item> \<open>Tasks\<close> (\<open>proc/proc.c\<close>, list macros of \<open>include/lib/kernel.h\<close>, callbacks of \<open>drivers/pit.c\<close>): the locale
    \<open>linked_stack\<close> is the contract of a list with insertion at its head, interpreted on the list of tasks and on the
    queue of timer events. The scheduler wakes exactly the new tasks of the list, numbers of tasks stay unique,
    \<open>execve\<close> followed by the scheduler readies the task.
  \<^item> \<open>Syscalls\<close> (\<open>kernel/syscall.c\<close>, \<open>kernel/error.c\<close>), \<open>Shell\<close> (\<open>bin/shell.c\<close>): dispatch by number, the calls on the
    joint state of tasks, drivers and console, the line history.
  \<^item> \<open>Reports\<close>: the routines that print tasks, nodes of the ram disk and slabs; each returns with a consistent console.
  \<^item> \<open>Boot\<close> (\<open>kernel/kernel.c\<close>, \<open>drivers/apic.c\<close>): \<open>kernel_main\<close> as the composition of all components; the
    initialisation ends and leaves complete interrupt tables.
  \<^item> \<open>Kernel_Steps\<close> (\<open>kernel/int.c\<close>, \<open>kernel/int_l.asm\<close>, \<open>scall_wrapper\<close> of \<open>kernel/syscall.asm\<close>): the initialised kernel as
    a step relation on the state of all components, with interrupts, page faults, system calls, changes of the devices and
    writes of programs as events. By induction on the runs: the interrupt tables, segments and ram disk never change and
    the scheduler is never called, device interrupts are always handled, the counters refine an abstract clock, and
    there are never more than the first two tasks. A program prints through interrupt 0x80.
  \<^item> This theory: the first tasks on the kernel's own heap and slab allocators.

  \<^bold>\<open>Not modelled.\<close> The assembler files, except for what their functions do to the modelled state where they are
  called (port accesses, loading of tables, \<open>syscall_setup\<close>, the jump to a program); the programs under
  \<open>usermode/\<close>, which run outside the kernel; \<open>include/some.h\<close> and \<open>include/initrd.h\<close>, which hold data only; code behind a
  \<open>return\<close> that is never reached (the second half of \<open>schedule\<close> and of \<open>pit_handler\<close>); the console output of drivers and memory components, which is a trace event or left out; the weak
  memory behaviour of the processor; interrupts that arrive in the middle of an operation: during the initialisation they
  arrive at a halted processor, afterwards between two operations of the kernel, as the gates disable interrupts.
\<close>

section \<open>Tasks on the kernel's allocators\<close>

lemma kernel_ops_simps:
  "mo_kmalloc (kernel_page_ops mm) = mo_kmalloc (slab_ops mm)"
  "mo_cache_create (kernel_page_ops mm) = slab_cache_create mm"
  "mo_slab_alloc (kernel_page_ops mm) = slab_alloc_from_cache mm"
  by (simp_all add: kernel_page_ops_def mem_ops.extend_def slab_ops_def)

lemma task_cache_alloc:
  fixes s :: "'e slab_world proc_state"
  assumes "cache_live 96 (pr_task_slab s) L (pg_mem (pr_paging s))"
    and "slab_cost 96 \<le> heap_room (sw_heap (pg_mem (pr_paging s)))"
  obtains t w where
    "with_mem (mo_slab_alloc (kernel_page_ops mm) (pr_task_slab s)) s = Inr (t, s\<lparr>pr_paging := (pr_paging s)\<lparr>pg_mem := w\<rparr>\<rparr>)"
    and "t \<notin> L" and "t \<noteq> 0" and "\<forall>q \<in> L. unat t + 96 \<le> unat q \<or> unat q + 96 \<le> unat t"
    and "cache_live 96 (pr_task_slab s) (insert t L) w"
proof -
  obtain t w where t: "slab_alloc_from_cache mm (pr_task_slab s) (pg_mem (pr_paging s)) = Inr (t, w)" "t \<notin> L" "t \<noteq> 0"
    "\<forall>q \<in> L. unat t + unat (96 :: u32) \<le> unat q \<or> unat q + unat (96 :: u32) \<le> unat t"
    "cache_live 96 (pr_task_slab s) (insert t L) w"
    using slab.alloc_live [OF assms, of mm] by blast
  have "with_mem (mo_slab_alloc (kernel_page_ops mm) (pr_task_slab s)) s = Inr (t, s\<lparr>pr_paging := (pr_paging s)\<lparr>pg_mem := w\<rparr>\<rparr>)"
    using t(1) by (simp add: with_mem_def kernel_ops_simps)
  then show ?thesis by (rule that) (use t in simp_all)
qed

text \<open>The pointers of the tasks in the list stay those of live descriptors when a descriptor is allocated and listed.\<close>

lemma task_alloc_insert:
  fixes s :: "'e slab_world proc_state"
  assumes "cache_live 96 (pr_task_slab s) L (pg_mem (pr_paging s))"
    and "slab_cost 96 \<le> heap_room (sw_heap (pg_mem (pr_paging s)))"
    and "task_list_repr s xs" and "set xs \<subseteq> L"
  shows "\<exists>t s'. with_mem (mo_slab_alloc (kernel_page_ops mm) (pr_task_slab s)) s = Inr (t, s') \<and>
    (\<forall>q \<in> L. unat t + 96 \<le> unat q \<or> unat q + 96 \<le> unat t) \<and> task_list_repr (doubly_ll_insert t s') (t # xs) \<and>
    cache_live 96 (pr_task_slab s') (insert t L) (pg_mem (pr_paging s'))"
proof -
  obtain t w where t: "with_mem (mo_slab_alloc (kernel_page_ops mm) (pr_task_slab s)) s =
      Inr (t, s\<lparr>pr_paging := (pr_paging s)\<lparr>pg_mem := w\<rparr>\<rparr>)" "t \<notin> L" "t \<noteq> 0"
    "\<forall>q \<in> L. unat t + 96 \<le> unat q \<or> unat q + 96 \<le> unat t" "cache_live 96 (pr_task_slab s) (insert t L) w"
    using task_cache_alloc [OF assms(1,2)] by metis
  let ?s = "s\<lparr>pr_paging := (pr_paging s)\<lparr>pg_mem := w\<rparr>\<rparr>"
  have "task_list_repr ?s xs" using assms(3) by (simp add: task_list_repr_def)
  then have "task_list_repr (doubly_ll_insert t ?s) (t # xs)" using tl.repr_push t(2,3) assms(4) by blast
  then show ?thesis using t by (intro exI [of _ t] exI [of _ ?s]) simp
qed

lemma multiproc_init_starts:
  fixes s :: "'e slab_world proc_state"
  defines "w \<equiv> pg_mem (pr_paging s)"
  assumes "open_heap (sw_heap w)" and "unat (sw_caches w) < heap_low (sw_heap w)"
    and "288 + 2 * slab_cost 96 + r \<le> heap_room (sw_heap w)"
    and "pr_task_list s = 0" and "pe_cb (pr_event s (pr_events s)) = 0"
  shows "\<exists>s'. multiproc_init (kernel_page_ops mm) sched kern_addr s = Inr (0, s') \<and>
    task_list_repr s' [pr_cur_task s'] \<and> ids_ok s' {pr_cur_task s'} \<and> tk_state (pr_task s' (pr_cur_task s')) = RUNNING \<and>
    cache_live 96 (pr_task_slab s') {pr_cur_task s'} (pg_mem (pr_paging s')) \<and>
    r \<le> heap_room (sw_heap (pg_mem (pr_paging s'))) \<and>
    pe_cb (pr_event s' (pr_events s')) = sched"
proof -
  have c0: "200 + slab_cost (76 + 20) \<le> heap_room (sw_heap w)" using assms(4) by simp
  obtain c w1 where c: "slab_cache_create mm 76 w = Inr (c, w1)" "cache_live 96 c {} w1"
    "heap_low (sw_heap w1) + heap_room (sw_heap w1) = heap_low (sw_heap w) + heap_room (sw_heap w)"
    "heap_low (sw_heap w1) \<le> heap_low (sw_heap w) + 200 + slab_cost 96"
    using slab_cache_create_live [OF assms(2) _ c0 assms(3), of mm] by auto
  have r1: "88 + slab_cost 96 + r \<le> heap_room (sw_heap w1)" using c(3,4) assms(4) by linarith
  obtain e w2 where e: "mo_kmalloc (slab_ops mm) 24 w1 = Inr (e, w2)" "e \<noteq> 0" "cache_live 96 c {} w2"
    "heap_room (sw_heap w1) \<le> heap_room (sw_heap w2) + 24 + 64"
    using heap_grow_cache [OF c(2), of 24 mm] r1 cache_live_open [OF c(2)] by auto
  have r2: "slab_cost 96 + r \<le> heap_room (sw_heap w2)" using r1 e(4) by linarith
  obtain t w3 where t: "slab_alloc_from_cache mm c w2 = Inr (t, w3)" "t \<noteq> 0" "cache_live 96 c {t} w3"
    "heap_room (sw_heap w2) \<le> heap_room (sw_heap w3) + slab_cost 96"
    using slab.alloc_live [OF e(3), of mm] r2 by auto
  show ?thesis
    using c(1) e(1,2) t assms(5,6) r2
    by (auto simp: multiproc_init_def pit_add_callback_def with_mem_def kernel_ops_simps w_def [symmetric] Let_def
        task_list_repr_def ids_ok_def doubly_ll_insert_def upd_task_def)
qed

text \<open>
  C12. The first tasks on the kernel's own heap and slab allocators: with room in an open heap, the
  initialisation of the tasks succeeds and leaves the running kernel task as the only one in the list,
  with a valid number, its descriptor in use in the cache of tasks and the scheduler registered with the
  timer; the next descriptor from the cache does not overlap it, and inserting it gives the list of both.
\<close>

theorem first_tasks_listed:
  fixes s :: "'e slab_world proc_state"
  defines "w \<equiv> pg_mem (pr_paging s)"
  assumes "open_heap (sw_heap w)" and "unat (sw_caches w) < heap_low (sw_heap w)"
    and "288 + 3 * slab_cost 96 \<le> heap_room (sw_heap w)"
    and "pr_task_list s = 0" and "pe_cb (pr_event s (pr_events s)) = 0"
  shows "\<exists>s' cur t s''. multiproc_init (kernel_page_ops mm) sched kern_addr s = Inr (0, s') \<and> cur = pr_cur_task s' \<and>
    task_list_repr s' [cur] \<and> ids_ok s' {cur} \<and> tk_state (pr_task s' cur) = RUNNING \<and> pe_cb (pr_event s' (pr_events s')) = sched \<and>
    with_mem (mo_slab_alloc (kernel_page_ops mm) (pr_task_slab s')) s' = Inr (t, s'') \<and>
    (unat t + 96 \<le> unat cur \<or> unat cur + 96 \<le> unat t) \<and> task_list_repr (doubly_ll_insert t s'') [t, cur] \<and>
    cache_live 96 (pr_task_slab s'') {t, cur} (pg_mem (pr_paging s''))"
proof -
  have "288 + 2 * slab_cost 96 + slab_cost 96 \<le> heap_room (sw_heap w)" using assms(4) by simp
  from multiproc_init_starts [OF assms(2,3)[unfolded w_def] this [unfolded w_def] assms(5,6), of mm sched kern_addr]
  obtain s' where s': "multiproc_init (kernel_page_ops mm) sched kern_addr s = Inr (0, s')"
    "task_list_repr s' [pr_cur_task s']" "ids_ok s' {pr_cur_task s'}" "tk_state (pr_task s' (pr_cur_task s')) = RUNNING"
    "cache_live 96 (pr_task_slab s') {pr_cur_task s'} (pg_mem (pr_paging s'))"
    "slab_cost 96 \<le> heap_room (sw_heap (pg_mem (pr_paging s')))" "pe_cb (pr_event s' (pr_events s')) = sched" by blast
  from task_alloc_insert [OF s'(5,6,2), of mm] obtain t s'' where
    "with_mem (mo_slab_alloc (kernel_page_ops mm) (pr_task_slab s')) s' = Inr (t, s'')"
    "\<forall>q \<in> {pr_cur_task s'}. unat t + 96 \<le> unat q \<or> unat q + 96 \<le> unat t"
    "task_list_repr (doubly_ll_insert t s'') [t, pr_cur_task s']"
    "cache_live 96 (pr_task_slab s'') {t, pr_cur_task s'} (pg_mem (pr_paging s''))" by auto
  with s' show ?thesis by blast
qed

definition heap_paging :: "unit slab_world paging_state" where
  "heap_paging = \<lparr>pg_word = (\<lambda>_. 0), pg_pd = (\<lambda>_. zero_pd), pg_cur_pd = 64, pg_kernel_pd = 64, pg_virt_kernel_addr = VADDR,
     pg_map_limit = 0, pg_slab_cache = 0, pg_last_fault_addr = 0, pg_frames = fresh_frames, pg_page = (\<lambda>_ _. 0), pg_flushed = [],
     pg_cr3 = 0, pg_enabled = True, pg_mem = slab_world_4mb\<rparr>"

definition heap_proc :: "unit slab_world proc_state" where
  "heap_proc = \<lparr>pr_task = (\<lambda>_. blank_task), pr_task_list = 0, pr_cur_task = 0, pr_task_slab = 0, pr_last_kernel_tid = 0,
     pr_last_user_tid = 0, pr_ready_schedule = False, pr_event = (\<lambda>_. \<lparr>pe_cb = 0, pe_priority = 0, pe_period_ms = 0,
     pe_last_call_tick = 0, pe_next = 0, pe_next_in_queue = 0\<rparr>), pr_events = 0, pr_event_queue = 0, pr_buddy = (\<lambda>_. buddy_blank),
     pr_kern_buddy = 0, pr_rd = usr_rd, pr_fs = usr_fs, pr_bytes = usr_bytes, pr_paging = heap_paging,
     pr_int_enabled = True, pr_user = None\<rparr>"

theorem first_tasks_listed_witness:
  "\<exists>s' t s''. multiproc_init (kernel_page_ops mm_ok) 0x102000 0x103000 heap_proc = Inr (0, s') \<and>
    with_mem (mo_slab_alloc (kernel_page_ops mm_ok) (pr_task_slab s')) s' = Inr (t, s'') \<and>
    task_list_repr (doubly_ll_insert t s'') [t, pr_cur_task s']"
proof -
  have m: "pg_mem (pr_paging heap_proc) = slab_world_4mb" "pr_task_list heap_proc = 0" "pe_cb (pr_event heap_proc (pr_events heap_proc)) = 0"
    by (simp_all add: heap_proc_def heap_paging_def)
  have "288 + 3 * slab_cost 96 \<le> heap_room (sw_heap slab_world_4mb)" by (simp add: slab_world_4mb_heap(2) slab_cost_def)
  then show ?thesis
    using first_tasks_listed [of heap_proc mm_ok "0x102000" "0x103000"] slab_world_4mb_heap(1,3) m by auto
qed

end
